(* ===== verification/Lwip_Prelude.thy ===== *)
theory Lwip_Prelude
  imports Main "HOL-Library.Word"
begin

text \<open>
  Shared material of the development: the machine types of the 32-bit target, the lwIP error
  codes the server distinguishes, and the generic lemmas on words and lists that several
  components use.
\<close>

unbundle bit_operations_syntax

section \<open>Machine types\<close>

type_synonym u8 = "8 word"
type_synonym u16 = "16 word"
type_synonym u32 = "32 word"

text \<open>An address of the 32-bit target; 0 is \<open>nullptr\<close>.\<close>

type_synonym ptr = u32

text \<open>
  The values of lwIP's \<open>err_t\<close> that the sources name or compare with; every other code is
  \<open>ERR_OTHER\<close> with its number.
\<close>

datatype err_t = ERR_OK | ERR_MEM | ERR_IF | ERR_ARG | ERR_ABRT | ERR_OTHER int

section \<open>Collections of rules\<close>

named_theorems inv_intros \<open>every operation of a component keeps its invariant\<close>

section \<open>Words\<close>

lemma word_less_plus_iff:
  fixes a b t :: "'a::len word"
  assumes "unat a + unat b < 2 ^ LENGTH('a)"
  shows "a + b < t \<longleftrightarrow> unat a + unat b < unat t"
  using assms by (simp add: word_less_nat_alt unat_word_ariths)

lemma unat_plus_exact:
  fixes a b :: "'a::len word"
  assumes "unat a + unat b < 2 ^ LENGTH('a)"
  shows "unat (a + b) = unat a + unat b"
  using assms by (simp add: unat_word_ariths)

lemma unat_plus_wrapped:
  fixes a b :: "'a::len word"
  assumes "2 ^ LENGTH('a) \<le> unat a + unat b"
  shows "unat (a + b) = unat a + unat b - 2 ^ LENGTH('a)"
proof -
  have "unat a + unat b < 2 * 2 ^ LENGTH('a)"
    using unsigned_less [of a, where ?'a = nat] unsigned_less [of b, where ?'a = nat]
    by linarith
  with assms show ?thesis
    by (simp add: unat_word_ariths mod_if le_mod_geq)
qed

lemma unat_minus_exact:
  fixes a b :: "'a::len word"
  assumes "b \<le> a"
  shows "unat (a - b) = unat a - unat b"
  using assms by (simp add: unat_sub)

text \<open>A word with one bit, and testing for it.\<close>

lemma bit_exp: "n < 32 \<Longrightarrow> bit (push_bit n (1 :: u32)) k \<longleftrightarrow> k = n"
  by (auto simp: bit_simps)

lemma and_exp_iff:
  fixes w :: u32
  assumes "n < 32"
  shows "w AND push_bit n 1 = push_bit n 1 \<longleftrightarrow> bit w n"
proof
  assume "w AND push_bit n 1 = push_bit n 1"
  then have "bit (w AND push_bit n 1) n" using bit_exp [OF assms, of n] by metis
  then show "bit w n" by (simp add: bit_and_iff)
next
  assume "bit w n"
  then show "w AND push_bit n 1 = push_bit n 1"
    by (intro bit_word_eqI) (auto simp: bit_and_iff bit_exp [OF assms] simp del: push_bit_of_1)
qed

text \<open>A 16-bit length in a 32-bit variable.\<close>

lemma unat_len: "unat (ucast (w :: u16) :: u32) = unat w"
proof -
  have "unat w < 2 ^ 32" using unsigned_less [of w, where ?'a = nat] by simp
  then show ?thesis by (simp add: unsigned_ucast_eq take_bit_nat_eq_self)
qed

section \<open>Lists\<close>

lemma mod_less_length: "i < length xs \<Longrightarrow> j mod length xs < length xs"
  by (intro mod_less_divisor) auto

end
