(* ===== verification/Loop_Timer.thy ===== *)
theory Loop_Timer
  imports Lwip_Prelude
begin

text \<open>
  The polled timer of \<open>include/lwipserver/utils/LoopTimer.h\<close>. The callback is kept as a value
  of an arbitrary type: the owner of the timer runs it when \<open>poll\<close> hands it out. The tick that
  \<open>Base::tick()\<close> returns is an argument of \<open>poll\<close>.
\<close>

section \<open>Model\<close>

record 'cb LoopTimer =
  mExpiry :: u32
  mPrevTick :: u32
  mCallback :: "'cb option"

definition LoopTimer_new :: "'cb LoopTimer" where
  "LoopTimer_new = \<lparr>mExpiry = 0, mPrevTick = 0, mCallback = None\<rparr>"

definition setExpiry :: "u32 \<Rightarrow> 'cb LoopTimer \<Rightarrow> 'cb LoopTimer" where
  "setExpiry expiry t = t\<lparr>mExpiry := expiry\<rparr>"

definition registerCallback :: "'cb \<Rightarrow> 'cb LoopTimer \<Rightarrow> 'cb LoopTimer" where
  "registerCallback cb t = t\<lparr>mCallback := Some cb\<rparr>"

text \<open>\<open>poll\<close> returns the timer and the callback it runs, if it runs one.\<close>

definition poll :: "u32 \<Rightarrow> 'cb LoopTimer \<Rightarrow> 'cb LoopTimer \<times> 'cb option" where
  "poll tick t =
     (if mPrevTick t + mExpiry t < tick
      then (t\<lparr>mPrevTick := tick\<rparr>, mCallback t)
      else (t, None))"

text \<open>Polling with a sequence of ticks: the final timer and the ticks at which it expired.\<close>

fun poll_seq :: "u32 list \<Rightarrow> 'cb LoopTimer \<Rightarrow> 'cb LoopTimer \<times> u32 list" where
  "poll_seq [] t = (t, [])"
| "poll_seq (tick # ticks) t =
     (let t' = fst (poll tick t); r = poll_seq ticks t'
      in (fst r, (if mPrevTick t + mExpiry t < tick then [tick] else []) @ snd r))"

text \<open>The comparison that stays right when the tick counter wraps around.\<close>

definition elapsed_expired :: "u32 \<Rightarrow> 'cb LoopTimer \<Rightarrow> bool" where
  "elapsed_expired tick t \<longleftrightarrow> mExpiry t < tick - mPrevTick t"

text \<open>The deadline of a timer does not wrap around.\<close>

definition no_wrap :: "'cb LoopTimer \<Rightarrow> bool" where
  "no_wrap t \<longleftrightarrow> unat (mPrevTick t) + unat (mExpiry t) < 2 ^ 32"

section \<open>Lemmas\<close>

lemma poll_idle: "\<not> mPrevTick t + mExpiry t < tick \<Longrightarrow> poll tick t = (t, None)"
  by (simp add: poll_def)

lemma poll_due:
  "mPrevTick t + mExpiry t < tick \<Longrightarrow> poll tick t = (t\<lparr>mPrevTick := tick\<rparr>, mCallback t)"
  by (simp add: poll_def)

lemma poll_keeps [simp]:
  "mExpiry (fst (poll tick t)) = mExpiry t"
  "mCallback (fst (poll tick t)) = mCallback t"
  by (simp_all add: poll_def)

lemma deadline_iff:
  "no_wrap t \<Longrightarrow> mPrevTick t + mExpiry t < tick
     \<longleftrightarrow> unat (mPrevTick t) + unat (mExpiry t) < unat tick"
  by (simp add: no_wrap_def word_less_plus_iff)

lemma poll_seq_stuck:
  "\<forall>tick \<in> set ticks. \<not> mPrevTick t + mExpiry t < tick \<Longrightarrow> poll_seq ticks t = (t, [])"
  by (induction ticks) (auto simp: poll_idle Let_def)

section \<open>The contract of a polled timer\<close>

text \<open>
  What the owners of a timer (the network loop, the MQTT client) use: a poll either leaves the
  timer as it is and runs nothing, or restarts it and runs the registered callback.
\<close>

locale polled_timer =
  fixes tpoll :: "u32 \<Rightarrow> 't \<Rightarrow> 't \<times> 'cb option"
    and due :: "u32 \<Rightarrow> 't \<Rightarrow> bool"
    and cback :: "'t \<Rightarrow> 'cb option"
    and started :: "'t \<Rightarrow> u32"
  assumes idle: "\<not> due tick t \<Longrightarrow> tpoll tick t = (t, None)"
    and fires: "due tick t \<Longrightarrow> snd (tpoll tick t) = cback t"
    and restarts: "due tick t \<Longrightarrow> started (fst (tpoll tick t)) = tick"
    and keeps_callback: "cback (fst (tpoll tick t)) = cback t"
begin

lemma runs_only_callback: "snd (tpoll tick t) = Some c \<Longrightarrow> cback t = Some c \<and> due tick t"
  by (cases "due tick t") (auto simp: idle fires)

lemma runs_iff_due: "cback t = Some c \<Longrightarrow> snd (tpoll tick t) = Some c \<longleftrightarrow> due tick t"
  by (cases "due tick t") (auto simp: idle fires)

lemma without_callback: "cback t = None \<Longrightarrow> snd (tpoll tick t) = None"
  by (cases "due tick t") (auto simp: idle fires)

end

interpretation ltimer: polled_timer poll
  "\<lambda>tick t. mPrevTick t + mExpiry t < tick" mCallback mPrevTick
  by unfold_locales (auto simp: poll_def)

section \<open>A timer that is polled again and again\<close>

text \<open>
  The timer \<open>t i\<close> is polled with the tick \<open>T i\<close>, for \<open>i\<close> from \<open>m\<close> to \<open>k\<close>: it runs its callback at
  the latest at a poll that comes more than \<open>mExpiry\<close> ticks after the start.
\<close>

lemma polled_expires:
  assumes step: "\<And>i. m \<le> i \<Longrightarrow> i \<le> k \<Longrightarrow> t (Suc i) = fst (poll (T i) (t i))"
    and "m \<le> k" and "no_wrap (t m)" and "unat (mPrevTick (t m)) + unat (mExpiry (t m)) < unat (T k)"
  shows "\<exists>c. m \<le> c \<and> c \<le> k \<and> mPrevTick (t c) + mExpiry (t c) < T c"
proof (rule ccontr)
  assume "\<not> ?thesis"
  then have none: "\<not> mPrevTick (t c) + mExpiry (t c) < T c" if "m \<le> c" "c \<le> k" for c
    using that by simp
  have "t i = t m" if "m \<le> i" "i \<le> k" for i
    using that
  proof (induction i rule: dec_induct)
    case (step i)
    then show ?case using assms(1) [of i] none [of i] by (simp add: poll_idle)
  qed simp
  from this [of k] show False
    using none [of k] assms(2-4) by (simp add: deadline_iff)
qed

lemma polled_start_bounded:
  assumes "mPrevTick t \<le> tick"
  shows "mPrevTick (fst (poll tick t)) \<le> tick"
  using assms by (simp add: poll_def)

section \<open>Properties\<close>

text \<open>
  C33. As long as neither the deadline \<open>mPrevTick + mExpiry\<close> nor the tick itself has wrapped around the
  32-bit counter since the last run (the tick is not below \<open>mPrevTick\<close>), \<open>poll\<close> does what the wrap-safe
  comparison of the elapsed time would do: it runs the callback and restarts exactly when more than
  \<open>mExpiry\<close> ticks have passed since the last run.
\<close>

theorem poll_matches_elapsed:
  assumes "no_wrap t" and "mPrevTick t \<le> tick"
  shows "poll tick t =
    (if elapsed_expired tick t then (t\<lparr>mPrevTick := tick\<rparr>, mCallback t) else (t, None))"
proof -
  have "elapsed_expired tick t \<longleftrightarrow> unat (mPrevTick t) + unat (mExpiry t) < unat tick"
    using assms(2) by (auto simp: elapsed_expired_def word_less_nat_alt unat_minus_exact
        word_le_nat_alt)
  then show ?thesis
    using deadline_iff [OF assms(1)] by (simp add: poll_def)
qed

theorem poll_matches_elapsed_witness:
  "poll 501 \<lparr>mExpiry = 500, mPrevTick = 0, mCallback = Some ''dhcp''\<rparr> =
     (\<lparr>mExpiry = 500, mPrevTick = 501, mCallback = Some ''dhcp''\<rparr>, Some ''dhcp'')"
  using poll_matches_elapsed
    [of "\<lparr>mExpiry = 500, mPrevTick = 0, mCallback = Some ''dhcp''\<rparr>" 501]
  by (simp add: no_wrap_def elapsed_expired_def)

text \<open>
  Over any sequence of polls whose ticks stay below the wrap-around, consecutive runs of the
  callback are more than \<open>mExpiry\<close> ticks apart, and the first is more than \<open>mExpiry\<close> ticks after
  the timer's start.
\<close>

theorem poll_runs_spaced:
  assumes "no_wrap t" and "\<forall>tick \<in> set ticks. unat tick + unat (mExpiry t) < 2 ^ 32"
  shows "sorted_wrt (\<lambda>a b. unat a + unat (mExpiry t) < unat b)
    (mPrevTick t # snd (poll_seq ticks t))"
  using assms
proof (induction ticks arbitrary: t)
  case Nil
  then show ?case by simp
next
  case (Cons tick ticks)
  show ?case
  proof (cases "mPrevTick t + mExpiry t < tick")
    case False
    then show ?thesis using Cons by (simp add: poll_idle Let_def)
  next
    case True
    let ?t = "t\<lparr>mPrevTick := tick\<rparr>"
    have "no_wrap ?t" using Cons.prems(2) by (simp add: no_wrap_def)
    then have "sorted_wrt (\<lambda>a b. unat a + unat (mExpiry t) < unat b)
        (tick # snd (poll_seq ticks ?t))"
      using Cons.IH [of ?t] Cons.prems(2) by simp
    moreover have "unat (mPrevTick t) + unat (mExpiry t) < unat tick"
      using True deadline_iff [OF Cons.prems(1)] by simp
    ultimately show ?thesis
      using True by (auto simp: poll_due Let_def)
  qed
qed

theorem poll_runs_spaced_witness:
  "sorted_wrt (\<lambda>a b. unat a + 100 < unat b)
     (0 # snd (poll_seq [50, 101, 150, 202, 203]
        \<lparr>mExpiry = 100, mPrevTick = 0, mCallback = Some ()\<rparr>)) \<and>
   snd (poll_seq [50, 101, 150, 202, 203] \<lparr>mExpiry = 100, mPrevTick = 0, mCallback = Some ()\<rparr>)
     = [101, 202]"
  using poll_runs_spaced [of "\<lparr>mExpiry = 100, mPrevTick = 0, mCallback = Some ()\<rparr>"
      "[50, 101, 150, 202, 203]"]
  by (simp add: no_wrap_def poll_def Let_def)

text \<open>
  A timer whose deadline lands on the last tick before the wrap-around, or beyond every tick that
  it is polled with before the counter wraps, is dead: no tick that does not exceed the deadline
  ever runs it, and for the deadline \<open>0xFFFFFFFF\<close> that is every tick there is.
\<close>

theorem poll_dead_at_max:
  assumes "mPrevTick t + mExpiry t = 0xFFFFFFFF"
  shows "poll_seq ticks t = (t, [])"
proof (rule poll_seq_stuck, rule ballI)
  fix tick :: u32
  have "unat tick < 2 ^ 32" using unsigned_less [of tick] by simp
  then show "\<not> mPrevTick t + mExpiry t < tick" using assms by (simp add: word_less_nat_alt)
qed

theorem poll_dead_at_max_witness:
  "poll_seq [0, 100, 0xFFFFFFFF] \<lparr>mExpiry = 100, mPrevTick = 0xFFFFFF9B, mCallback = Some ()\<rparr> =
     (\<lparr>mExpiry = 100, mPrevTick = 0xFFFFFF9B, mCallback = Some ()\<rparr>, [])"
  by (rule poll_dead_at_max) simp

text \<open>
  A timer whose deadline wraps around runs its callback too early: at any tick after its start,
  before the counter itself wraps, although no more than \<open>mExpiry\<close> ticks have passed.
\<close>

theorem poll_early_after_wrap:
  assumes "\<not> no_wrap t" and "mPrevTick t < tick"
  shows "snd (poll tick t) = mCallback t \<and> mPrevTick (fst (poll tick t)) = tick \<and>
    \<not> elapsed_expired tick t"
proof -
  have wrap: "2 ^ 32 \<le> unat (mPrevTick t) + unat (mExpiry t)"
    using assms(1) by (simp add: no_wrap_def)
  have "unat (mPrevTick t + mExpiry t) = unat (mPrevTick t) + unat (mExpiry t) - 2 ^ 32"
    using unat_plus_wrapped [of "mPrevTick t" "mExpiry t"] wrap by simp
  moreover have "unat (mExpiry t) < 2 ^ 32" and "unat tick < 2 ^ 32"
    using unsigned_less [of "mExpiry t"] unsigned_less [of tick] by simp_all
  moreover have "unat (mPrevTick t) < unat tick"
    using assms(2) by (simp add: word_less_nat_alt)
  ultimately have "mPrevTick t + mExpiry t < tick" and "\<not> elapsed_expired tick t"
    using wrap by (simp_all add: word_less_nat_alt elapsed_expired_def unat_minus_exact
        word_le_nat_alt)
  then show ?thesis by (simp add: poll_due)
qed

theorem poll_early_after_wrap_witness:
  "snd (poll 0xFFFFFF9D \<lparr>mExpiry = 100, mPrevTick = 0xFFFFFF9C, mCallback = Some ()\<rparr>) = Some ()"
  using poll_early_after_wrap
    [of "\<lparr>mExpiry = 100, mPrevTick = 0xFFFFFF9C, mCallback = Some ()\<rparr>" "0xFFFFFF9D"]
  by (simp add: no_wrap_def)

end
