(* ===== verification/Ring.thy ===== *)
theory Ring
  imports Lwip_Prelude
begin

text \<open>
  Arrays used as rings: storing a list of elements from a position on, wrapping at the end, and
  reading a number of elements from a position on. The receive buffer of the UART and the ring of
  transmit descriptors are both used this way.
\<close>

section \<open>Operations\<close>

fun ring_store :: "'a list \<Rightarrow> nat \<Rightarrow> 'a list \<Rightarrow> 'a list" where
  "ring_store buf i [] = buf"
| "ring_store buf i (x # xs) = ring_store (buf[i := x]) (Suc i mod length buf) xs"

definition ring_slice :: "'a list \<Rightarrow> nat \<Rightarrow> nat \<Rightarrow> 'a list" where
  "ring_slice buf i n = map (\<lambda>k. buf ! ((i + k) mod length buf)) [0..<n]"

definition take_last :: "nat \<Rightarrow> 'a list \<Rightarrow> 'a list" where
  "take_last n xs = drop (length xs - n) xs"

section \<open>Lemmas on rings\<close>

lemma length_ring_store [simp]: "length (ring_store buf i bs) = length buf"
  by (induction buf i bs rule: ring_store.induct) auto

lemma length_ring_slice [simp]: "length (ring_slice buf i n) = n"
  by (simp add: ring_slice_def)

lemma nth_ring_slice [simp]: "k < n \<Longrightarrow> ring_slice buf i n ! k = buf ! ((i + k) mod length buf)"
  by (simp add: ring_slice_def)

lemma nth_ring_store:
  assumes "i < length buf" and "length bs \<le> length buf" and "k < length buf"
  shows "ring_store buf i bs ! ((i + k) mod length buf) =
    (if k < length bs then bs ! k else buf ! ((i + k) mod length buf))"
  using assms
proof (induction bs arbitrary: buf i k)
  case Nil
  then show ?case by simp
next
  case (Cons x xs)
  let ?N = "length buf" and ?i = "Suc i mod length buf"
  have i: "?i < length (buf[i := x])"
    using Cons.prems(1) by (simp add: mod_less_length)
  show ?case
  proof (cases k)
    case 0
    have pos: "(?i + (?N - 1)) mod ?N = i"
    proof (cases "Suc i = ?N")
      case False
      with Cons.prems(1) have "?i = Suc i" by simp
      moreover have "Suc i + (?N - 1) = i + ?N" using Cons.prems(1) by simp
      ultimately show ?thesis using Cons.prems(1) by (metis mod_add_self2 mod_less)
    qed (simp add: diff_less)
    have "ring_store (buf[i := x]) ?i xs ! ((?i + (?N - 1)) mod length (buf[i := x])) =
        buf[i := x] ! ((?i + (?N - 1)) mod length (buf[i := x]))"
      using Cons.prems by (subst Cons.IH [OF i]) auto
    with pos 0 Cons.prems(1) show ?thesis by simp
  next
    case (Suc j)
    have pos: "(?i + j) mod ?N = (i + k) mod ?N"
      using Suc by (simp add: mod_simps)
    have ne: "(i + k) mod ?N \<noteq> i"
    proof (cases "i + k < ?N")
      case True
      then show ?thesis using Suc by simp
    next
      case False
      then have "(i + k) mod ?N = i + k - ?N"
        using Cons.prems by (simp add: le_mod_geq)
      then show ?thesis using Cons.prems False by simp
    qed
    have "length xs \<le> length (buf[i := x])" and "j < length (buf[i := x])"
      using Cons.prems Suc by simp_all
    from Cons.IH [OF i this]
    have "ring_store (buf[i := x]) ?i xs ! ((i + k) mod ?N) =
        (if j < length xs then xs ! j else buf[i := x] ! ((i + k) mod ?N))"
      by (simp add: pos)
    then show ?thesis using Suc ne by simp
  qed
qed

lemma ring_slice_append:
  "ring_slice buf i (m + n) = ring_slice buf i m @ ring_slice buf ((i + m) mod length buf) n"
proof (rule nth_equalityI)
  fix k assume "k < length (ring_slice buf i (m + n))"
  then show "ring_slice buf i (m + n) ! k =
      (ring_slice buf i m @ ring_slice buf ((i + m) mod length buf) n) ! k"
    by (auto simp: nth_append mod_simps not_less ring_slice_def)
qed simp

lemma ring_slice_mod: "ring_slice buf (i mod length buf) n = ring_slice buf i n"
  by (simp add: ring_slice_def mod_simps)

lemma ring_slice_contiguous:
  "i + n \<le> length buf \<Longrightarrow> ring_slice buf i n = take n (drop i buf)"
  by (rule nth_equalityI) auto

text \<open>What a store leaves and what it adds.\<close>

lemma ring_slice_store_new:
  assumes "i < length buf" and "length bs \<le> length buf"
  shows "ring_slice (ring_store buf i bs) i (length bs) = bs"
  using assms by (intro nth_equalityI) (auto simp: nth_ring_store)

lemma ring_slice_store_old:
  assumes "i < length buf" and "length bs + n \<le> length buf"
  shows "ring_slice (ring_store buf i bs) (i + length bs) n = ring_slice buf (i + length bs) n"
proof (rule nth_equalityI)
  fix k assume "k < length (ring_slice (ring_store buf i bs) (i + length bs) n)"
  then show "ring_slice (ring_store buf i bs) (i + length bs) n ! k =
      ring_slice buf (i + length bs) n ! k"
    using assms nth_ring_store [of i buf bs "length bs + k"] by (auto simp: add.assoc)
qed simp

lemma ring_slice_store_tail:
  assumes "h < length buf" and "s + length bs \<le> length buf"
  shows "ring_slice (ring_store buf ((h + s) mod length buf) bs) h s = ring_slice buf h s"
proof (rule nth_equalityI)
  let ?N = "length buf"
  fix k assume "k < length (ring_slice (ring_store buf ((h + s) mod ?N) bs) h s)"
  then have k: "k < s" by simp
  have "((h + s) mod ?N + (?N - s + k)) mod ?N = (h + s + (?N - s + k)) mod ?N"
    by (simp add: mod_simps)
  also have "h + s + (?N - s + k) = h + k + ?N"
    using assms by simp
  finally have pos: "((h + s) mod ?N + (?N - s + k)) mod ?N = (h + k) mod ?N"
    by simp
  have "(h + s) mod ?N < ?N" using assms(1) by (rule mod_less_length)
  then have "ring_store buf ((h + s) mod ?N) bs ! (((h + s) mod ?N + (?N - s + k)) mod ?N) =
      buf ! (((h + s) mod ?N + (?N - s + k)) mod ?N)"
    using k assms by (subst nth_ring_store) auto
  then have "ring_store buf ((h + s) mod ?N) bs ! ((h + k) mod ?N) = buf ! ((h + k) mod ?N)"
    by (simp only: pos)
  then show "ring_slice (ring_store buf ((h + s) mod ?N) bs) h s ! k = ring_slice buf h s ! k"
    using k by simp
qed simp

lemma drop_ring_slice:
  "m \<le> n \<Longrightarrow> drop m (ring_slice buf i n) = ring_slice buf (i + m) (n - m)"
  by (rule nth_equalityI) (auto simp: add.assoc)

lemma take_ring_slice:
  "m \<le> n \<Longrightarrow> take m (ring_slice buf i n) = ring_slice buf i m"
  by (rule nth_equalityI) auto

lemma ring_slice_store_fits:
  assumes "h < length buf" and "s + length bs \<le> length buf"
  shows "ring_slice (ring_store buf ((h + s) mod length buf) bs) h (s + length bs) =
    ring_slice buf h s @ bs"
proof -
  have t: "(h + s) mod length buf < length buf"
    using assms(1) by (rule mod_less_length)
  show ?thesis
    using assms t
    by (simp add: ring_slice_append ring_slice_store_tail ring_slice_store_new)
qed

lemma ring_slice_store_over:
  assumes "h < length buf" and "s \<le> length buf" and "length bs \<le> length buf"
    and "length buf < s + length bs"
  shows "ring_slice (ring_store buf ((h + s) mod length buf) bs)
      (((h + s) mod length buf + length bs) mod length buf) (length buf) =
    take_last (length buf) (ring_slice buf h s @ bs)"
proof -
  let ?N = "length buf" and ?L = "length bs"
  let ?t = "(h + s) mod ?N"
  let ?buf = "ring_store buf ?t bs"
  have t: "?t < ?N" using assms(1) by (rule mod_less_length)
  have "h + s + ?L = h + (s + ?L - ?N) + ?N"
    using assms(4) by simp
  then have pos: "(?t + ?L) mod ?N = (h + (s + ?L - ?N)) mod ?N"
    by (metis mod_add_left_eq mod_add_self2)
  have "ring_slice ?buf (?t + ?L) (?N - ?L) = ring_slice buf (?t + ?L) (?N - ?L)"
    using assms t by (intro ring_slice_store_old) auto
  also have "\<dots> = ring_slice buf (h + (s + ?L - ?N)) (?N - ?L)"
    using pos ring_slice_mod [of buf "?t + ?L"] ring_slice_mod [of buf "h + (s + ?L - ?N)"] by simp
  also have "\<dots> = drop (s + ?L - ?N) (ring_slice buf h s)"
    using assms by (simp add: drop_ring_slice)
  finally have old: "ring_slice ?buf (?t + ?L) (?N - ?L) = drop (s + ?L - ?N) (ring_slice buf h s)" .
  have new: "ring_slice ?buf ?t ?L = bs"
    using assms t by (intro ring_slice_store_new)
  have "ring_slice ?buf ((?t + ?L) mod ?N) ?N = ring_slice ?buf (?t + ?L) (?N - ?L + ?L)"
    using assms ring_slice_mod [of ?buf] by simp
  also have "\<dots> = ring_slice ?buf (?t + ?L) (?N - ?L) @
      ring_slice ?buf ((?t + ?L + (?N - ?L)) mod ?N) ?L"
    by (simp only: ring_slice_append length_ring_store)
  also have "(?t + ?L + (?N - ?L)) mod ?N = ?t"
    using assms t by simp
  finally show ?thesis
    using assms by (simp add: take_last_def old new)
qed

lemma ring_slice_Suc:
  "i < length buf \<Longrightarrow>
    ring_slice buf i (Suc n) = buf ! i # ring_slice buf (Suc i mod length buf) n"
  using ring_slice_append [of buf i 1 n] by (simp add: ring_slice_def)

lemma ring_slice_0 [simp]: "ring_slice buf i 0 = []"
  by (simp add: ring_slice_def)

lemma ring_slice_update_before:
  assumes "i < length buf" and "Suc n \<le> length buf"
  shows "ring_slice (buf[i := x]) (Suc i mod length buf) n = ring_slice buf (Suc i mod length buf) n"
  using ring_slice_store_old [of i buf "[x]" n] assms
    ring_slice_mod [of "buf[i := x]" "Suc i"] ring_slice_mod [of buf "Suc i"]
  by simp

lemma ring_slice_map: "i < length buf \<Longrightarrow> map f (ring_slice buf i n) = ring_slice (map f buf) i n"
  by (auto simp: ring_slice_def mod_less_length)

end
