(* ===== verification/Dma_Rx_Buffer.thy ===== *)
theory Dma_Rx_Buffer
  imports Ring "HOL-Library.Sublist"
begin

text \<open>
  The circular receive buffer of the debug UART: \<open>include/lwipserver/utils/DmaRxBuffer.h\<close> and
  \<open>src/utils/DmaRxBuffer.cpp\<close>. The DMA peripheral writes bytes into the buffer; the class follows
  it through the peripheral's counter of bytes that remain until the end of the buffer.
\<close>

section \<open>Model\<close>

definition sBufferSize :: int where
  "sBufferSize = 128"

record DmaRxBuffer =
  mBuffer :: "u8 list"
  mHead :: int
  mTail :: int
  mSize :: int

definition availableAtEnd :: "DmaRxBuffer \<Rightarrow> int" where
  "availableAtEnd b =
     (if mSize b = 0 \<or> mHead b < mTail b then mTail b - mHead b else sBufferSize - mHead b)"

text \<open>
  \<open>copy\<close> returns the amount copied, the bytes that \<open>std::copy_n\<close> stores in the caller's buffer
  (none for a count that is not positive) and the new state.
\<close>

definition copy :: "int \<Rightarrow> DmaRxBuffer \<Rightarrow> int \<times> u8 list \<times> DmaRxBuffer" where
  "copy n b =
     (let copySize = min (availableAtEnd b) n;
          bytes = take (nat copySize) (drop (nat (mHead b)) (mBuffer b));
          head = mHead b + copySize
      in (copySize, bytes,
          b\<lparr>mHead := (if head = sBufferSize then 0 else head), mSize := mSize b - copySize\<rparr>))"

definition updatePointers :: "int \<Rightarrow> DmaRxBuffer \<Rightarrow> DmaRxBuffer" where
  "updatePointers counter b =
     (let newTail = sBufferSize - counter;
          changeInSize = newTail - mTail b
      in if changeInSize = 0 then b
         else let change = (if changeInSize < 0 then changeInSize + sBufferSize else changeInSize);
                  newSize = mSize b + change
              in if newSize > sBufferSize
                 then b\<lparr>mHead := newTail, mSize := sBufferSize, mTail := newTail\<rparr>
                 else b\<lparr>mSize := newSize, mTail := newTail\<rparr>)"

text \<open>The buffer as the static storage of the program starts.\<close>

definition DmaRxBuffer_new :: DmaRxBuffer where
  "DmaRxBuffer_new = \<lparr>mBuffer = replicate 128 0, mHead = 0, mTail = 0, mSize = 0\<rparr>"

section \<open>The peripheral\<close>

text \<open>
  The documented behaviour of the DMA stream in circular mode: it stores each received byte at its
  position, wraps at the end of the buffer (\<open>ring_store\<close>), and its counter holds the bytes that remain from that
  position to the end (it reloads when it reaches 0, so it runs from 128 down to 1).
\<close>

definition dma_write :: "u8 list \<Rightarrow> DmaRxBuffer \<Rightarrow> DmaRxBuffer" where
  "dma_write bs b = b\<lparr>mBuffer := ring_store (mBuffer b) (nat (mTail b)) bs\<rparr>"

definition dma_counter :: "u8 list \<Rightarrow> DmaRxBuffer \<Rightarrow> int" where
  "dma_counter bs b = sBufferSize - (mTail b + int (length bs)) mod sBufferSize"

text \<open>Bytes arrive and the pointers are brought up to date.\<close>

definition rx_receive :: "u8 list \<Rightarrow> DmaRxBuffer \<Rightarrow> DmaRxBuffer" where
  "rx_receive bs b = updatePointers (dma_counter bs b) (dma_write bs b)"

section \<open>Invariant and abstraction\<close>

definition rx_inv :: "DmaRxBuffer \<Rightarrow> bool" where
  "rx_inv b \<longleftrightarrow> length (mBuffer b) = 128 \<and> 0 \<le> mHead b \<and> mHead b < 128 \<and>
     0 \<le> mTail b \<and> mTail b < 128 \<and> 0 \<le> mSize b \<and> mSize b \<le> 128 \<and>
     (mHead b + mSize b) mod 128 = mTail b"

text \<open>The bytes that are received and not yet copied out, oldest first.\<close>

definition rx_content :: "DmaRxBuffer \<Rightarrow> u8 list" where
  "rx_content b = ring_slice (mBuffer b) (nat (mHead b)) (nat (mSize b))"

section \<open>The buffer keeps its invariant and refines a queue\<close>

lemma ring_pos:
  fixes h s :: int
  assumes "0 \<le> h" and "h < 128" and "0 \<le> s" and "s \<le> 128"
  shows "(h + s) mod 128 = (if h + s < 128 then h + s else h + s - 128)"
proof (cases "h + s < 128")
  case False
  have "(h + s) mod 128 = (h + s - 128) mod 128" by (rule minus_mod_self2 [symmetric])
  also have "(h + s - 128) mod 128 = h + s - 128"
    using assms False by (intro mod_pos_pos_trivial) simp_all
  finally show ?thesis using False by simp
qed (use assms in simp)

lemma rx_inv_new: "rx_inv DmaRxBuffer_new"
  by (simp add: rx_inv_def DmaRxBuffer_new_def)

lemma rx_content_new: "rx_content DmaRxBuffer_new = []"
  by (simp add: rx_content_def DmaRxBuffer_new_def ring_slice_def)

lemma length_rx_content [simp]: "length (rx_content b) = nat (mSize b)"
  by (simp add: rx_content_def)

lemma updatePointers_buffer [simp]: "mBuffer (updatePointers c b) = mBuffer b"
  by (simp add: updatePointers_def Let_def)

text \<open>The invariant without \<open>mod\<close>, for linear arithmetic.\<close>

lemma rx_inv_alt:
  "rx_inv b \<longleftrightarrow> length (mBuffer b) = 128 \<and> 0 \<le> mHead b \<and> mHead b < 128 \<and>
     0 \<le> mTail b \<and> mTail b < 128 \<and> 0 \<le> mSize b \<and> mSize b \<le> 128 \<and>
     (if mHead b + mSize b < 128 then mHead b + mSize b else mHead b + mSize b - 128) = mTail b"
  unfolding rx_inv_def by (metis ring_pos)

lemma updatePointers_eq:
  assumes "0 \<le> mTail b" and "mTail b < 128" and "mSize b \<le> 128" and "1 \<le> c" and "c \<le> 128"
    and "d = (if 128 - c < mTail b then 128 - c - mTail b + 128 else 128 - c - mTail b)"
  shows "updatePointers c b =
    b\<lparr>mHead := (if 128 < mSize b + d then 128 - c else mHead b), mTail := 128 - c,
      mSize := min 128 (mSize b + d)\<rparr>"
  using assms by (simp add: updatePointers_def sBufferSize_def Let_def)

lemma updatePointers_inv:
  assumes "rx_inv b" and "1 \<le> c" and "c \<le> 128"
  shows "rx_inv (updatePointers c b)"
proof -
  have "updatePointers c b =
    b\<lparr>mHead := (if 128 < mSize b + d then 128 - c else mHead b), mTail := 128 - c,
      mSize := min 128 (mSize b + d)\<rparr>"
    if "d = (if 128 - c < mTail b then 128 - c - mTail b + 128 else 128 - c - mTail b)" for d
    using assms that by (intro updatePointers_eq) (auto simp: rx_inv_alt)
  then show ?thesis
    using assms by (auto simp: rx_inv_alt split: if_splits)
qed

lemma dma_write_inv: "rx_inv b \<Longrightarrow> rx_inv (dma_write bs b)"
  by (simp add: rx_inv_def dma_write_def)

lemma dma_counter_range: "1 \<le> dma_counter bs b \<and> dma_counter bs b \<le> 128"
  by (simp add: dma_counter_def sBufferSize_def)

lemma rx_receive_inv: "rx_inv b \<Longrightarrow> rx_inv (rx_receive bs b)"
  using dma_counter_range by (simp add: rx_receive_def updatePointers_inv dma_write_inv)

text \<open>The pointers after fewer than 128 new bytes.\<close>

lemma rx_receive_eq:
  assumes "rx_inv b" and "length bs < 128"
  shows "rx_receive bs b =
    (let t = (mTail b + int (length bs)) mod 128; s = mSize b + int (length bs)
     in b\<lparr>mBuffer := ring_store (mBuffer b) (nat (mTail b)) bs,
          mHead := (if 128 < s then t else mHead b),
          mTail := t, mSize := min 128 s\<rparr>)"
proof -
  let ?L = "int (length bs)"
  let ?t = "(mTail b + ?L) mod 128"
  have L: "0 \<le> ?L" "?L < 128" using assms(2) by simp_all
  have T: "0 \<le> mTail b" "mTail b < 128" and S: "mSize b \<le> 128"
    using assms(1) by (simp_all add: rx_inv_def)
  have t: "?t = (if mTail b + ?L < 128 then mTail b + ?L else mTail b + ?L - 128)"
    using L T by (intro ring_pos) simp_all
  have chg: "(if ?t - mTail b < 0 then ?t - mTail b + 128 else ?t - mTail b) = ?L"
    using L T unfolding t by simp
  have d: "?L = (if ?t < mTail b then ?t - mTail b + 128 else ?t - mTail b)"
    using chg by simp
  have w: "mTail (dma_write bs b) = mTail b" "mSize (dma_write bs b) = mSize b"
    "mHead (dma_write bs b) = mHead b"
    by (simp_all add: dma_write_def)
  have c: "128 - dma_counter bs b = ?t"
    by (simp add: dma_counter_def sBufferSize_def)
  have "updatePointers (dma_counter bs b) (dma_write bs b) =
    (dma_write bs b)\<lparr>mHead := (if 128 < mSize b + ?L then ?t else mHead b),
      mTail := ?t, mSize := min 128 (mSize b + ?L)\<rparr>"
    using updatePointers_eq [of "dma_write bs b" "dma_counter bs b" ?L]
      T S d dma_counter_range [of bs b] unfolding c w by blast
  then show ?thesis
    by (simp add: rx_receive_def dma_write_def Let_def)
qed

text \<open>
  Receiving appends to the queue of unread bytes; when they are more than the buffer holds, the
  oldest are lost.
\<close>

lemma rx_content_receive:
  assumes "rx_inv b" and "length bs < 128"
  shows "rx_content (rx_receive bs b) = take_last 128 (rx_content b @ bs)"
proof -
  let ?h = "nat (mHead b)" and ?s = "nat (mSize b)" and ?buf = "mBuffer b"
  have N: "length ?buf = 128" and h: "?h < 128" and s: "?s \<le> 128"
    using assms(1) by (auto simp: rx_inv_def)
  have "mTail b = (mHead b + mSize b) mod 128" and "0 \<le> mHead b" and "0 \<le> mSize b"
    using assms(1) by (auto simp: rx_inv_def)
  then have t: "nat (mTail b) = (?h + ?s) mod 128"
    by (simp only: nat_mod_distrib nat_add_distrib) (simp add: nat_mod_distrib nat_add_distrib)
  have t': "nat ((mTail b + int (length bs)) mod 128) = ((?h + ?s) mod 128 + length bs) mod 128"
    using assms(1) unfolding t [symmetric]
    by (simp add: rx_inv_def nat_mod_distrib nat_add_distrib)
  have ge: "0 \<le> mSize b" using assms(1) by (simp add: rx_inv_def)
  show ?thesis
  proof (cases "?s + length bs \<le> 128")
    case True
    then have "rx_content (rx_receive bs b) =
        ring_slice (ring_store ?buf ((?h + ?s) mod 128) bs) ?h (?s + length bs)"
      using assms ge t by (simp add: rx_receive_eq rx_content_def Let_def nat_add_distrib)
    also have "\<dots> = rx_content b @ bs"
      using ring_slice_store_fits [of ?h ?buf ?s bs] True N h by (simp add: rx_content_def)
    finally show ?thesis using True by (simp add: take_last_def)
  next
    case False
    then have "128 < mSize b + int (length bs)" using ge by linarith
    then have "rx_content (rx_receive bs b) =
        ring_slice (ring_store ?buf ((?h + ?s) mod 128) bs)
          (((?h + ?s) mod 128 + length bs) mod 128) 128"
      using assms ge t t' by (simp add: rx_receive_eq rx_content_def Let_def)
    also have "\<dots> = take_last 128 (rx_content b @ bs)"
      using ring_slice_store_over [of ?h ?buf ?s bs] False N h s assms(2)
      by (simp add: rx_content_def)
    finally show ?thesis .
  qed
qed

text \<open>Copying takes from the front of the queue.\<close>

lemma availableAtEnd_bounds:
  assumes "rx_inv b"
  shows "0 \<le> availableAtEnd b" and "availableAtEnd b \<le> mSize b"
    and "mHead b + availableAtEnd b \<le> 128"
    and "availableAtEnd b = 0 \<longleftrightarrow> mSize b = 0"
  using assms by (auto simp: rx_inv_alt availableAtEnd_def sBufferSize_def split: if_splits)

lemma copy_refines:
  assumes "rx_inv b" and "0 \<le> n" and "copy n b = (k, bytes, b')"
  shows "rx_inv b'" and "bytes = take (nat k) (rx_content b)"
    and "rx_content b' = drop (nat k) (rx_content b)"
    and "k = min (availableAtEnd b) n" and "int (length bytes) = k"
proof -
  note av = availableAtEnd_bounds [OF assms(1)]
  let ?h = "nat (mHead b)" and ?buf = "mBuffer b"
  have N: "length ?buf = 128" and h: "0 \<le> mHead b" using assms(1) by (simp_all add: rx_inv_def)
  show k: "k = min (availableAtEnd b) n"
    using assms(3) by (simp add: copy_def Let_def)
  then have k0: "0 \<le> k" and kS: "k \<le> mSize b" and kN: "mHead b + k \<le> 128"
    using av assms(2) by auto
  have b': "b' = b\<lparr>mHead := (if mHead b + k = 128 then 0 else mHead b + k), mSize := mSize b - k\<rparr>"
    and bytes: "bytes = take (nat k) (drop ?h ?buf)"
    using assms(3) k by (auto simp: copy_def Let_def sBufferSize_def)
  show "rx_inv b'"
    using assms(1) k0 kS kN by (simp add: b' rx_inv_alt split: if_splits)
  have fit: "?h + nat k \<le> length ?buf" using kN k0 h N by simp
  show "bytes = take (nat k) (rx_content b)"
    using ring_slice_contiguous [OF fit] kS k0
    by (simp add: bytes rx_content_def take_ring_slice nat_mono)
  then show "int (length bytes) = k" using k0 kS by simp
  have "mHead b + k = 128 \<Longrightarrow> ?h + nat k = 128" using k0 h by simp
  then have head: "nat (mHead b') mod 128 = (?h + nat k) mod 128"
    using k0 h by (simp add: b' nat_add_distrib)
  have "rx_content b' = ring_slice ?buf (nat (mHead b') mod length ?buf) (nat (mSize b - k))"
    by (simp add: rx_content_def b' ring_slice_mod)
  also have "\<dots> = ring_slice ?buf (?h + nat k) (nat (mSize b) - nat k)"
    using head N ring_slice_mod [of ?buf "?h + nat k"] k0 kS by (simp add: nat_diff_distrib)
  also have "\<dots> = drop (nat k) (rx_content b)"
    using kS k0 by (simp add: rx_content_def drop_ring_slice nat_mono)
  finally show "rx_content b' = drop (nat k) (rx_content b)" .
qed


section \<open>The contract with the reader\<close>

text \<open>
  What \<open>_read\<close> relies on, over any implementation: a bounded queue that a producer fills and that
  drops its oldest bytes when it is full, and a fetch that hands out a front part of it.
\<close>

datatype 'a queue_event = Receive "'a list" | Fetch int

fun queue_run ::
  "('a list \<Rightarrow> 'q \<Rightarrow> 'q) \<Rightarrow> (int \<Rightarrow> 'q \<Rightarrow> int \<times> 'a list \<times> 'q) \<Rightarrow> 'a queue_event list \<Rightarrow> 'q
    \<Rightarrow> 'a list \<times> 'q" where
  "queue_run receive fetch [] q = ([], q)"
| "queue_run receive fetch (Receive bs # es) q = queue_run receive fetch es (receive bs q)"
| "queue_run receive fetch (Fetch n # es) q =
     (let f = fetch n q; r = queue_run receive fetch es (snd (snd f))
      in (fst (snd f) @ fst r, snd r))"

fun received :: "'a queue_event list \<Rightarrow> 'a list" where
  "received [] = []"
| "received (Receive bs # es) = bs @ received es"
| "received (Fetch n # es) = received es"

fun well_timed :: "nat \<Rightarrow> 'a queue_event list \<Rightarrow> bool" where
  "well_timed cap [] = True"
| "well_timed cap (Receive bs # es) = (length bs < cap \<and> well_timed cap es)"
| "well_timed cap (Fetch n # es) = (0 \<le> n \<and> well_timed cap es)"

text \<open>No byte arrives while the queue has no room for it.\<close>

fun never_full ::
  "('a list \<Rightarrow> 'q \<Rightarrow> 'q) \<Rightarrow> (int \<Rightarrow> 'q \<Rightarrow> int \<times> 'a list \<times> 'q) \<Rightarrow> ('q \<Rightarrow> 'a list) \<Rightarrow> nat
    \<Rightarrow> 'a queue_event list \<Rightarrow> 'q \<Rightarrow> bool" where
  "never_full receive fetch content cap [] q = True"
| "never_full receive fetch content cap (Receive bs # es) q =
     (length (content q) + length bs \<le> cap \<and>
      never_full receive fetch content cap es (receive bs q))"
| "never_full receive fetch content cap (Fetch n # es) q =
     never_full receive fetch content cap es (snd (snd (fetch n q)))"

lemma subseq_take_last: "subseq (take_last n xs) xs"
  unfolding take_last_def by (intro suffix_imp_subseq suffix_drop)

locale lossy_queue =
  fixes content :: "'q \<Rightarrow> 'a list"
    and inv :: "'q \<Rightarrow> bool"
    and cap :: nat
    and receive :: "'a list \<Rightarrow> 'q \<Rightarrow> 'q"
    and fetch :: "int \<Rightarrow> 'q \<Rightarrow> int \<times> 'a list \<times> 'q"
  assumes inv_receive: "inv q \<Longrightarrow> inv (receive bs q)"
    and content_receive:
      "inv q \<Longrightarrow> length bs < cap \<Longrightarrow> content (receive bs q) = take_last cap (content q @ bs)"
    and inv_fetch: "inv q \<Longrightarrow> 0 \<le> n \<Longrightarrow> inv (snd (snd (fetch n q)))"
    and fetch_splits:
      "inv q \<Longrightarrow> 0 \<le> n \<Longrightarrow> fst (snd (fetch n q)) @ content (snd (snd (fetch n q))) = content q"
    and fetch_count:
      "inv q \<Longrightarrow> 0 \<le> n \<Longrightarrow> fst (fetch n q) = int (length (fst (snd (fetch n q))))"
    and fetch_bound: "inv q \<Longrightarrow> 0 \<le> n \<Longrightarrow> fst (fetch n q) \<le> n"
    and fetch_progress: "inv q \<Longrightarrow> 0 < n \<Longrightarrow> content q \<noteq> [] \<Longrightarrow> 0 < fst (fetch n q)"
begin

lemma run_subseq:
  assumes "inv q" and "well_timed cap es" and "queue_run receive fetch es q = (out, q')"
  shows "inv q' \<and> subseq (out @ content q') (content q @ received es)"
  using assms
proof (induction es arbitrary: q out)
  case Nil
  then show ?case by simp
next
  case (Cons e es)
  show ?case
  proof (cases e)
    case (Receive bs)
    have q: "inv (receive bs q)" and c: "content (receive bs q) = take_last cap (content q @ bs)"
      using Cons.prems Receive by (simp_all add: inv_receive content_receive)
    have "inv q' \<and> subseq (out @ content q') (content (receive bs q) @ received es)"
      using Cons.prems Receive q by (intro Cons.IH) auto
    then show ?thesis
      using Receive c subseq_take_last [of cap "content q @ bs"]
      by (metis append.assoc received.simps(2) subseq_append subseq_order.trans)
  next
    case (Fetch n)
    let ?f = "fetch n q"
    have n: "0 \<le> n" using Cons.prems Fetch by simp
    obtain o2 where out: "out = fst (snd ?f) @ o2"
        and r: "queue_run receive fetch es (snd (snd ?f)) = (o2, q')"
      using Cons.prems Fetch by (cases "queue_run receive fetch es (snd (snd ?f))") (auto simp: Let_def)
    have "inv q' \<and> subseq (o2 @ content q') (content (snd (snd ?f)) @ received es)"
      using Cons.prems Fetch n r by (intro Cons.IH) (auto simp: inv_fetch)
    then have "inv q' \<and> subseq (fst (snd ?f) @ o2 @ content q')
        (fst (snd ?f) @ content (snd (snd ?f)) @ received es)"
      by (simp add: subseq_append')
    then show ?thesis
      using fetch_splits [OF Cons.prems(1) n, symmetric] by (simp add: out Fetch)
  qed
qed

lemma run_exact:
  assumes "inv q" and "well_timed cap es" and "never_full receive fetch content cap es q"
    and "queue_run receive fetch es q = (out, q')"
  shows "out @ content q' = content q @ received es"
  using assms
proof (induction es arbitrary: q out)
  case Nil
  then show ?case by simp
next
  case (Cons e es)
  show ?case
  proof (cases e)
    case (Receive bs)
    then have "content (receive bs q) = content q @ bs"
      using Cons.prems by (simp add: content_receive take_last_def)
    then show ?thesis
      using Cons.prems Receive Cons.IH [of "receive bs q" out] by (simp add: inv_receive)
  next
    case (Fetch n)
    let ?f = "fetch n q"
    have n: "0 \<le> n" using Cons.prems Fetch by simp
    obtain o2 where out: "out = fst (snd ?f) @ o2"
        and r: "queue_run receive fetch es (snd (snd ?f)) = (o2, q')"
      using Cons.prems Fetch by (cases "queue_run receive fetch es (snd (snd ?f))") (auto simp: Let_def)
    have "o2 @ content q' = content (snd (snd ?f)) @ received es"
      using Cons.prems Fetch n r by (intro Cons.IH) (auto simp: inv_fetch)
    then show ?thesis
      using fetch_splits [OF Cons.prems(1) n, symmetric] by (simp add: out Fetch)
  qed
qed

end

interpretation rxq: lossy_queue rx_content rx_inv 128 rx_receive copy
proof unfold_locales
  fix n :: int and q :: DmaRxBuffer
  assume q: "rx_inv q" and n: "0 \<le> n"
  obtain k bytes q' where c: "copy n q = (k, bytes, q')" by (cases "copy n q") auto
  note r = copy_refines [OF q n c]
  show "rx_inv (snd (snd (copy n q)))" using r(1) c by simp
  show "fst (snd (copy n q)) @ rx_content (snd (snd (copy n q))) = rx_content q"
    using r(2,3) c by simp
  show "fst (copy n q) = int (length (fst (snd (copy n q))))" using r(5) c by simp
  show "fst (copy n q) \<le> n" using r(4) c by simp
next
  fix n :: int and q :: DmaRxBuffer
  assume q: "rx_inv q" and n: "0 < n" and ne: "rx_content q \<noteq> []"
  then have "0 < mSize q" by (metis length_greater_0_conv length_rx_content zero_less_nat_eq)
  then have "0 < availableAtEnd q" using availableAtEnd_bounds [OF q] by simp
  then show "0 < fst (copy n q)" using n by (simp add: copy_def Let_def)
qed (simp_all add: rx_receive_inv rx_content_receive)


section \<open>Properties\<close>

lemma copy_fst_iff:
  assumes "rx_inv b" and "0 \<le> n"
  shows "0 < fst (copy n b) \<longleftrightarrow> 0 < n \<and> rx_content b \<noteq> []"
proof
  assume k: "0 < fst (copy n b)"
  have "fst (snd (copy n b)) \<noteq> []"
    using rxq.fetch_count [OF assms] k by auto
  then show "0 < n \<and> rx_content b \<noteq> []"
    using rxq.fetch_splits [OF assms] rxq.fetch_bound [OF assms] k by auto
qed (use rxq.fetch_progress assms in blast)

text \<open>Draining a buffer whose content wraps around takes two calls.\<close>

lemma copy_empties_front:
  assumes "rx_inv b" and "128 \<le> n" and "copy n b = (k, bytes, b')"
  shows "k = availableAtEnd b" and "mHead b' + mSize b' \<le> 128 \<or> mSize b' = 0"
  using assms availableAtEnd_bounds [OF assms(1)]
  by (auto simp: copy_def Let_def rx_inv_alt availableAtEnd_def sBufferSize_def split: if_splits)

lemma available_unwrapped:
  "rx_inv b \<Longrightarrow> mHead b + mSize b \<le> 128 \<Longrightarrow> availableAtEnd b = mSize b"
  by (auto simp: rx_inv_alt availableAtEnd_def sBufferSize_def split: if_splits)

text \<open>
  Whatever the DMA peripheral stores and whatever \<open>copy\<close> is asked for, the bytes that come out,
  followed by those still in the buffer, are a subsequence of the bytes received: none is invented,
  duplicated or reordered, and the pointers stay inside the buffer. At most 127 bytes arrive
  between two calls of \<open>updatePointers\<close>.
\<close>

theorem rx_stream_subseq:
  assumes "well_timed 128 es"
    and "queue_run rx_receive copy es DmaRxBuffer_new = (out, b)"
  shows "rx_inv b \<and> subseq (out @ rx_content b) (received es)"
  using rxq.run_subseq [OF rx_inv_new assms] by (simp add: rx_content_new)

theorem rx_stream_subseq_witness:
  "rx_inv (snd (queue_run rx_receive copy
      [Receive [1, 2, 3], Fetch 2, Receive [4], Fetch 9] DmaRxBuffer_new)) \<and>
   subseq (fst (queue_run rx_receive copy
        [Receive [1, 2, 3], Fetch 2, Receive [4], Fetch 9] DmaRxBuffer_new) @
      rx_content (snd (queue_run rx_receive copy
        [Receive [1, 2, 3], Fetch 2, Receive [4], Fetch 9] DmaRxBuffer_new))) [1, 2, 3, 4]"
  using rx_stream_subseq
    [of "[Receive [1, 2, 3], Fetch 2, Receive [4], Fetch 9]", OF _ surjective_pairing]
  by simp

text \<open>
  A full lap goes unseen: when exactly 128 bytes arrive between two calls of \<open>updatePointers\<close>, the counter
  is where it was, and the buffer does not notice them.
\<close>

lemma full_lap_unseen:
  assumes "rx_inv b" and "length bs = 128"
  shows "updatePointers (dma_counter bs b) b = b"
  using assms by (simp add: updatePointers_def dma_counter_def rx_inv_def sBufferSize_def)

text \<open>
  C7. Suppose that fewer than 128 bytes arrive between any two calls of \<open>updatePointers\<close>, that none
  arrives while the buffer has no room for it, and that \<open>copy\<close> is not asked for a negative amount. Then
  nothing is lost: the bytes that \<open>copy\<close> hands out, followed by those still unread, are exactly the
  bytes received, in order. The first condition is needed: 128 bytes at once fit an empty buffer, but
  bring the counter back to where it was and are not noticed (\<open>full_lap_unseen\<close>).
\<close>

theorem rx_stream_exact:
  assumes "well_timed 128 es"
    and "never_full rx_receive copy rx_content 128 es DmaRxBuffer_new"
    and "queue_run rx_receive copy es DmaRxBuffer_new = (out, b)"
  shows "out @ rx_content b = received es"
  using rxq.run_exact [OF rx_inv_new assms] by (simp add: rx_content_new)

theorem rx_stream_exact_witness:
  "fst (queue_run rx_receive copy [Receive [1, 2, 3], Fetch 2] DmaRxBuffer_new) @
   rx_content (snd (queue_run rx_receive copy [Receive [1, 2, 3], Fetch 2] DmaRxBuffer_new))
     = [1, 2, 3]"
  using rx_stream_exact [of "[Receive [1, 2, 3], Fetch 2]", OF _ _ surjective_pairing]
  by (simp add: rx_content_new)

text \<open>
  One call of \<open>copy\<close> on a consistent buffer reads inside the array, returns at most what was
  asked for, returns the oldest unread bytes, and returns something whenever there is something.
\<close>

theorem copy_correct:
  assumes "rx_inv b" and "0 \<le> n" and "copy n b = (k, bytes, b')"
  shows "0 \<le> k \<and> k \<le> n \<and> mHead b + k \<le> int (length (mBuffer b)) \<and>
    rx_content b = bytes @ rx_content b' \<and> int (length bytes) = k \<and> rx_inv b' \<and>
    (0 < k \<longleftrightarrow> 0 < n \<and> rx_content b \<noteq> [])"
  using copy_refines [OF assms] availableAtEnd_bounds [OF assms(1)] copy_fst_iff [OF assms(1,2)]
    assms by (simp add: rx_inv_def)

theorem copy_correct_witness:
  "let b = DmaRxBuffer_new\<lparr>mHead := 126, mTail := 1, mSize := 3\<rparr>
   in copy 5 b = (2, [0, 0], b\<lparr>mHead := 0, mSize := 1\<rparr>) \<and>
      (0 \<le> (2::int) \<and> rx_content b = [0, 0] @ rx_content (b\<lparr>mHead := 0, mSize := 1\<rparr>))"
proof -
  let ?b = "DmaRxBuffer_new\<lparr>mHead := 126, mTail := 1, mSize := 3\<rparr>"
  have c: "copy 5 ?b = (2, [0, 0], ?b\<lparr>mHead := 0, mSize := 1\<rparr>)"
    by (simp add: copy_def DmaRxBuffer_new_def availableAtEnd_def sBufferSize_def Let_def
        numeral_eq_Suc)
  have "rx_inv ?b" by (simp add: rx_inv_def DmaRxBuffer_new_def)
  from copy_correct [OF this _ c] c show ?thesis by (simp add: Let_def)
qed

text \<open>
  Two calls of \<open>copy\<close> with a destination of at least the buffer's size drain the buffer: they
  return everything unread, and nothing is left.
\<close>

theorem copy_twice_drains:
  assumes "rx_inv b" and "128 \<le> n"
    and "copy n b = (k1, bytes1, b1)" and "copy n b1 = (k2, bytes2, b2)"
  shows "bytes1 @ bytes2 = rx_content b \<and> rx_content b2 = []"
proof -
  have n: "0 \<le> n" using assms(2) by simp
  note r1 = copy_refines [OF assms(1) n assms(3)]
  note r2 = copy_refines [OF r1(1) n assms(4)]
  have "availableAtEnd b1 = mSize b1"
    using copy_empties_front(2) [OF assms(1-3)] available_unwrapped [OF r1(1)]
      availableAtEnd_bounds [OF r1(1)] by fastforce
  then have "k2 = mSize b1" using copy_empties_front(1) [OF r1(1) assms(2,4)] by simp
  then have "bytes2 = rx_content b1" and "rx_content b2 = []"
    using r2(2,3) by simp_all
  then show ?thesis using r1(2,3) by simp
qed

theorem copy_twice_drains_witness:
  "fst (snd (copy 128 (DmaRxBuffer_new\<lparr>mHead := 126, mTail := 1, mSize := 3\<rparr>))) @
   fst (snd (copy 128 (snd (snd (copy 128
      (DmaRxBuffer_new\<lparr>mHead := 126, mTail := 1, mSize := 3\<rparr>)))))) =
   rx_content (DmaRxBuffer_new\<lparr>mHead := 126, mTail := 1, mSize := 3\<rparr>)"
proof -
  let ?b = "DmaRxBuffer_new\<lparr>mHead := 126, mTail := 1, mSize := 3\<rparr>"
  have "rx_inv ?b" by (simp add: rx_inv_def DmaRxBuffer_new_def)
  from copy_twice_drains [OF this, of 128] show ?thesis by (metis order_refl prod.collapse)
qed

text \<open>
  A counter value of 0, which the comment on \<open>updatePointers\<close> allows, breaks the buffer: on an
  empty buffer at its start it leaves the tail at 128 while the head wraps to 0, so after all 128
  bytes are copied out a further call returns the same 128 bytes again and the size becomes -128.
\<close>

theorem counter_zero_repeats_data:
  "let b1 = updatePointers 0 (DmaRxBuffer_new\<lparr>mBuffer := buf\<rparr>);
       r1 = copy 128 b1;
       r2 = copy 128 (snd (snd r1))
   in fst r1 = 128 \<and> fst r2 = 128 \<and> fst (snd r2) = fst (snd r1) \<and> mSize (snd (snd r2)) = -128"
proof -
  let ?b = "\<lambda>h n. \<lparr>mBuffer = buf, mHead = h, mTail = 128, mSize = n\<rparr>"
  have u: "updatePointers 0 (DmaRxBuffer_new\<lparr>mBuffer := buf\<rparr>) = ?b 0 128"
    by (simp add: updatePointers_def DmaRxBuffer_new_def sBufferSize_def)
  have c: "copy 128 (?b 0 n) = (128, take 128 buf, ?b 0 (n - 128))" for n
    by (simp add: copy_def availableAtEnd_def sBufferSize_def)
  show ?thesis by (simp only: u c Let_def fst_conv snd_conv) simp
qed

end
