(* ===== verification/Tx_Descriptor.thy ===== *)
theory Tx_Descriptor
  imports Lwip_Prelude
begin

text \<open>
  The transmit descriptor of the Ethernet DMA: \<open>include/lwipserver/stm32h7/TxDescriptor.h\<close>. A
  \<open>std::span\<close> is the pair of its address and its size. \<open>volatile\<close> fields are plain fields here;
  what the DMA does to them is a step of its own in the model of the ring.
\<close>

section \<open>Model\<close>

type_synonym span = "ptr \<times> u32"

record TxDescriptor =
  mDesc0 :: u32
  mDesc1 :: u32
  mDesc2 :: u32
  mDesc3 :: u32
  mAppData0 :: u32
  mAppData1 :: u32

definition sDesc3OWN :: u32 where "sDesc3OWN = 0x80000000"

definition sDesc3FD :: u32 where "sDesc3FD = 0x20000000"

definition sDesc3LD :: u32 where "sDesc3LD = 0x10000000"

definition sDesc3CIC :: u32 where "sDesc3CIC = 0x00030000"

definition TxDescriptor_set :: "span \<Rightarrow> span \<Rightarrow> u32 \<Rightarrow> TxDescriptor \<Rightarrow> TxDescriptor" where
  "TxDescriptor_set buf1 buf2 payloadLength d = d\<lparr>
     mDesc0 := (if snd buf1 \<noteq> 0 then fst buf1 else 0),
     mDesc1 := (if snd buf2 \<noteq> 0 then fst buf2 else 0),
     mDesc2 := push_bit 16 (snd buf2) OR snd buf1,
     mDesc3 := mDesc3 d OR sDesc3CIC OR payloadLength\<rparr>"

definition ownedByDMA :: "TxDescriptor \<Rightarrow> bool" where
  "ownedByDMA d \<longleftrightarrow> mDesc3 d AND sDesc3OWN = sDesc3OWN"

definition setOwned :: "TxDescriptor \<Rightarrow> TxDescriptor" where
  "setOwned d = d\<lparr>mDesc3 := mDesc3 d OR sDesc3OWN\<rparr>"

definition setFirstDescriptor :: "TxDescriptor \<Rightarrow> TxDescriptor" where
  "setFirstDescriptor d = d\<lparr>mDesc3 := mDesc3 d OR sDesc3FD\<rparr>"

definition setLastDescriptor :: "TxDescriptor \<Rightarrow> TxDescriptor" where
  "setLastDescriptor d = d\<lparr>mDesc3 := mDesc3 d OR sDesc3LD\<rparr>"

definition setAppData :: "u32 \<Rightarrow> u32 \<Rightarrow> TxDescriptor \<Rightarrow> TxDescriptor" where
  "setAppData data0 data1 d = d\<lparr>mAppData0 := data0, mAppData1 := data1\<rparr>"

definition getAppData0 :: "TxDescriptor \<Rightarrow> u32" where
  "getAppData0 d = mAppData0 d"

definition getAppData1 :: "TxDescriptor \<Rightarrow> u32" where
  "getAppData1 d = mAppData1 d"

lemmas descriptor_defs = TxDescriptor_set_def ownedByDMA_def setOwned_def setFirstDescriptor_def
  setLastDescriptor_def setAppData_def getAppData0_def getAppData1_def
  sDesc3OWN_def sDesc3FD_def sDesc3LD_def sDesc3CIC_def

section \<open>What the DMA reads\<close>

text \<open>
  The documented layout of the normal transmit descriptor: the lengths of the two buffers are bits
  0 to 13 and 16 to 29 of the third word, the length of the frame is bits 0 to 14 of the fourth,
  and its top bits are the ownership, first and last descriptor flags.
\<close>

definition buffer1_length :: "TxDescriptor \<Rightarrow> u32" where
  "buffer1_length d = mDesc2 d AND mask 14"

definition buffer2_length :: "TxDescriptor \<Rightarrow> u32" where
  "buffer2_length d = drop_bit 16 (mDesc2 d) AND mask 14"

definition frame_length :: "TxDescriptor \<Rightarrow> u32" where
  "frame_length d = mDesc3 d AND mask 15"

definition is_first :: "TxDescriptor \<Rightarrow> bool" where
  "is_first d \<longleftrightarrow> mDesc3 d AND sDesc3FD = sDesc3FD"

definition is_last :: "TxDescriptor \<Rightarrow> bool" where
  "is_last d \<longleftrightarrow> mDesc3 d AND sDesc3LD = sDesc3LD"

text \<open>The buffers that the DMA gathers from a descriptor; a length of 0 is no buffer.\<close>

definition gathered :: "TxDescriptor \<Rightarrow> span list" where
  "gathered d = filter (\<lambda>s. snd s \<noteq> 0)
     [(mDesc0 d, buffer1_length d), (mDesc1 d, buffer2_length d)]"

section \<open>Lemmas\<close>

lemma flag_words:
  "sDesc3OWN = push_bit 31 1" "sDesc3FD = push_bit 29 1" "sDesc3LD = push_bit 28 1"
  "sDesc3CIC = push_bit 16 1 OR push_bit 17 1"
  by (simp_all add: sDesc3OWN_def sDesc3FD_def sDesc3LD_def sDesc3CIC_def push_bit_eq_mult)

lemma const_bits [simp]:
  "bit sDesc3OWN n \<longleftrightarrow> n = 31" "bit sDesc3FD n \<longleftrightarrow> n = 29" "bit sDesc3LD n \<longleftrightarrow> n = 28"
  "bit sDesc3CIC n \<longleftrightarrow> n = 16 \<or> n = 17"
  unfolding flag_words by (simp_all add: bit_or_iff bit_exp del: push_bit_of_1)

lemma descriptor_bits:
  "ownedByDMA d \<longleftrightarrow> bit (mDesc3 d) 31"
  "is_first d \<longleftrightarrow> bit (mDesc3 d) 29"
  "is_last d \<longleftrightarrow> bit (mDesc3 d) 28"
  unfolding ownedByDMA_def is_first_def is_last_def flag_words
  by (simp_all only: and_exp_iff)

text \<open>A frame length of less than \<open>2 ^ 16\<close> reaches none of the flags.\<close>

lemma small_bits:
  fixes w :: u32
  assumes "unat w < 2 ^ m" and "m \<le> n"
  shows "\<not> bit w n"
proof -
  have "unat w < 2 ^ n" using assms by (meson le_trans less_le_trans one_le_numeral power_increasing)
  then have "\<not> bit (unat w) n" by (simp add: bit_iff_odd)
  then show ?thesis by (simp add: bit_unsigned_iff)
qed


lemma masked_small:
  fixes w :: u32
  shows "unat w < 2 ^ m \<Longrightarrow> w AND mask m = w"
  by (intro bit_word_eqI) (auto simp: bit_and_iff bit_mask_iff not_less dest: small_bits)

lemma packed_lengths:
  fixes n1 n2 :: u32
  assumes "unat n1 < 2 ^ 14" and "unat n2 < 2 ^ 14"
  shows "(push_bit 16 n2 OR n1) AND mask 14 = n1"
    and "drop_bit 16 (push_bit 16 n2 OR n1) AND mask 14 = n2"
proof -
  have n1: "bit n1 k \<Longrightarrow> k < 14" and n2: "bit n2 k \<Longrightarrow> k < 14" for k
    using small_bits [OF assms(1), of k] small_bits [OF assms(2), of k] by (meson not_less)+
  show "(push_bit 16 n2 OR n1) AND mask 14 = n1"
    by (rule bit_word_eqI) (auto simp: bit_simps dest: n1)
  show "drop_bit 16 (push_bit 16 n2 OR n1) AND mask 14 = n2"
    by (rule bit_word_eqI) (auto simp: bit_simps dest: n1 n2)
qed

lemma set_reads:
  "mDesc0 (TxDescriptor_set (a1, n1) (a2, n2) len d) = (if n1 \<noteq> 0 then a1 else 0)"
  "mDesc1 (TxDescriptor_set (a1, n1) (a2, n2) len d) = (if n2 \<noteq> 0 then a2 else 0)"
  "mDesc2 (TxDescriptor_set (a1, n1) (a2, n2) len d) = push_bit 16 n2 OR n1"
  by (simp_all add: TxDescriptor_set_def)

lemma set_lengths:
  assumes "unat n1 < 2 ^ 14" and "unat n2 < 2 ^ 14"
  shows "buffer1_length (TxDescriptor_set (a1, n1) (a2, n2) len d) = n1"
    and "buffer2_length (TxDescriptor_set (a1, n1) (a2, n2) len d) = n2"
  using packed_lengths [OF assms]
  by (simp_all only: buffer1_length_def buffer2_length_def set_reads)

lemma gathered_set:
  assumes "unat n1 < 2 ^ 14" and "unat n2 < 2 ^ 14"
  shows "gathered (TxDescriptor_set (a1, n1) (a2, n2) len d) =
    filter (\<lambda>s. snd s \<noteq> 0) [(a1, n1), (a2, n2)]"
  using assms by (simp add: gathered_def set_lengths set_reads)

lemma frame_length_set:
  "frame_length (TxDescriptor_set buf1 buf2 len d) = frame_length d OR (len AND mask 15)"
  by (rule bit_word_eqI) (auto simp: frame_length_def TxDescriptor_set_def bit_simps)

section \<open>The contract of the descriptor's operations\<close>

text \<open>
  What the transmit ring needs of a descriptor: handing it to the DMA shows in the ownership test,
  and the application data it is given stays in it whatever else is set.
\<close>

locale tx_descriptor_ops =
  fixes dset :: "span \<Rightarrow> span \<Rightarrow> u32 \<Rightarrow> 'd \<Rightarrow> 'd"
    and dfirst :: "'d \<Rightarrow> 'd"
    and dlast :: "'d \<Rightarrow> 'd"
    and dapp :: "u32 \<Rightarrow> u32 \<Rightarrow> 'd \<Rightarrow> 'd"
    and downed :: "'d \<Rightarrow> 'd"
    and owned :: "'d \<Rightarrow> bool"
    and app0 :: "'d \<Rightarrow> u32"
  assumes owned_downed: "owned (downed d)"
    and app0_downed: "app0 (downed d) = app0 d"
    and app0_dapp: "app0 (dapp x y d) = x"
    and app0_dset: "app0 (dset b1 b2 n d) = app0 d"
    and app0_dlast: "app0 (dlast d) = app0 d"
    and app0_dfirst: "app0 (dfirst d) = app0 d"
begin

text \<open>A descriptor filled in the order of \<open>lowLevelOutput\<close>.\<close>

lemma filled_owned: "owned (downed (dapp x y (dset b1 b2 n d)))"
  by (rule owned_downed)

lemma filled_app0:
  "app0 (downed (dapp x y (dset b1 b2 n d))) = x"
  "app0 (downed (dapp x y (dlast (dset b1 b2 n d)))) = x"
  by (simp_all add: app0_downed app0_dapp)

lemma unfilled_app0: "app0 (dlast (dset b1 b2 n (dfirst d))) = app0 d"
  by (simp add: app0_dset app0_dlast app0_dfirst)

end

interpretation txd: tx_descriptor_ops TxDescriptor_set setFirstDescriptor setLastDescriptor
  setAppData setOwned ownedByDMA getAppData0
proof unfold_locales
  show "ownedByDMA (setOwned d)" for d
    by (simp add: descriptor_bits setOwned_def bit_or_iff)
qed (simp_all add: setOwned_def setAppData_def getAppData0_def TxDescriptor_set_def
    setLastDescriptor_def setFirstDescriptor_def)

section \<open>Properties\<close>

text \<open>
  C31. \<open>set\<close> writes what the DMA reads back: for buffers of less than 2^14 bytes the DMA gathers
  exactly the buffers that are not empty, in order, and on a descriptor with a clear length field
  it reads the payload length.
\<close>

theorem set_roundtrip:
  assumes "unat n1 < 2 ^ 14" and "unat n2 < 2 ^ 14"
    and "frame_length d = 0" and "unat len < 2 ^ 15"
  shows "gathered (TxDescriptor_set (a1, n1) (a2, n2) len d) =
      filter (\<lambda>s. snd s \<noteq> 0) [(a1, n1), (a2, n2)] \<and>
    frame_length (TxDescriptor_set (a1, n1) (a2, n2) len d) = len"
  using gathered_set [OF assms(1,2)] assms(3,4) by (simp add: frame_length_set masked_small)

theorem set_roundtrip_witness:
  "gathered (TxDescriptor_set (0x30044000, 54) (0x30044100, 1000) 1054
      \<lparr>mDesc0 = 7, mDesc1 = 7, mDesc2 = 7, mDesc3 = 0, mAppData0 = 0, mAppData1 = 0\<rparr>) =
    [(0x30044000, 54), (0x30044100, 1000)]"
  using set_roundtrip [of 54 1000
      "\<lparr>mDesc0 = 7, mDesc1 = 7, mDesc2 = 7, mDesc3 = 0, mAppData0 = 0, mAppData1 = 0\<rparr>" 1054
      "0x30044000" "0x30044100"]
  by (simp add: frame_length_def)

text \<open>
  \<open>set\<close> only adds bits to the fourth word: what an earlier use of the descriptor left in the
  length field is or-ed into the new length, and the first and last flags of that use stay set.
\<close>

theorem set_keeps_stale_bits:
  "frame_length (TxDescriptor_set buf1 buf2 len d) = frame_length d OR (len AND mask 15) \<and>
   (is_first (TxDescriptor_set buf1 buf2 len d) \<longleftrightarrow> is_first d \<or> bit len 29) \<and>
   (is_last (TxDescriptor_set buf1 buf2 len d) \<longleftrightarrow> is_last d \<or> bit len 28)"
  by (auto simp: frame_length_set descriptor_bits) (auto simp: TxDescriptor_set_def bit_or_iff)

end
