(* ===== verification/Pbuf.thy ===== *)
theory Pbuf
  imports Lwip_Prelude
begin

text \<open>
  lwIP's \<open>struct pbuf\<close>, as far as the sources read and write its fields, and chains of pbufs in
  memory. The functions of lwIP that work on pbufs are not part of the repository.
\<close>

record pbuf =
  p_next :: ptr
  p_payload :: ptr
  p_tot_len :: u16
  p_len :: u16

text \<open>Memory that holds pbufs, by address.\<close>

type_synonym heap = "ptr \<Rightarrow> pbuf"

text \<open>\<open>is_chain h p ps\<close>: following \<open>next\<close> from \<open>p\<close> visits \<open>ps\<close> and ends at \<open>nullptr\<close>.\<close>

fun is_chain :: "heap \<Rightarrow> ptr \<Rightarrow> ptr list \<Rightarrow> bool" where
  "is_chain h p [] = (p = 0)"
| "is_chain h p (q # qs) = (p = q \<and> q \<noteq> 0 \<and> is_chain h (p_next (h q)) qs)"

lemma is_chain_nonzero: "is_chain h p ps \<Longrightarrow> q \<in> set ps \<Longrightarrow> q \<noteq> 0"
  by (induction ps arbitrary: p) auto

lemma is_chain_null [simp]: "is_chain h 0 ps \<longleftrightarrow> ps = []"
  by (cases ps) auto

lemma is_chain_unique: "is_chain h p ps \<Longrightarrow> is_chain h p qs \<Longrightarrow> ps = qs"
proof (induction ps arbitrary: p qs)
  case Nil
  then show ?case by simp
next
  case (Cons a ps)
  then show ?case by (cases qs) auto
qed

lemma is_chain_suffix: "is_chain h p (ps @ q # qs) \<Longrightarrow> is_chain h q (q # qs)"
  by (induction ps arbitrary: p) auto

lemma is_chain_distinct: "is_chain h p ps \<Longrightarrow> distinct ps"
proof (rule ccontr)
  assume c: "is_chain h p ps" and "\<not> distinct ps"
  then obtain xs ys zs y where ps: "ps = xs @ [y] @ ys @ [y] @ zs"
    by (auto dest: not_distinct_decomp)
  have "is_chain h y (y # ys @ [y] @ zs)" and "is_chain h y (y # zs)"
    using c is_chain_suffix [of h p xs y] is_chain_suffix [of h p "xs @ [y] @ ys" y]
    unfolding ps by simp_all
  then have "y # ys @ [y] @ zs = y # zs" by (rule is_chain_unique)
  then have "length (ys @ [y] @ zs) = length zs" by simp
  then show False by simp
qed

text \<open>Changing a pbuf outside a chain does not change the chain.\<close>

lemma is_chain_cong:
  "(\<And>q. q \<in> set ps \<Longrightarrow> p_next (h' q) = p_next (h q)) \<Longrightarrow> is_chain h' p ps = is_chain h p ps"
  by (induction ps arbitrary: p) auto

text \<open>The data of a chain: where each buffer is and how long it is.\<close>

definition segments :: "heap \<Rightarrow> ptr list \<Rightarrow> (ptr \<times> u32) list" where
  "segments h ps = map (\<lambda>q. (p_payload (h q), ucast (p_len (h q)))) ps"

end
