(* ===== verification/Eth_Tx.thy ===== *)
theory Eth_Tx
  imports Ring Pbuf Tx_Descriptor
begin

text \<open>
  The transmit side of the Ethernet driver, \<open>src/stm32h7/Ethernetif.cpp\<close>: \<open>lowLevelOutput\<close> puts a
  chain of pbufs into the ring of DMA descriptors, \<open>releaseTxBuffers\<close> frees the packets that the
  DMA has sent. The calls that leave the driver and return nothing it uses (\<open>pbuf_ref\<close>,
  \<open>pbuf_free\<close>, the barriers and the write of the tail pointer register) are kept in order in
  \<open>tx_calls\<close>.
\<close>

section \<open>Model\<close>

text \<open>\<open>ETH_TX_DESC_CNT\<close> of \<open>include/stm32h7xx_hal_conf.h\<close>.\<close>

definition sEthTxDescCount :: u32 where "sEthTxDescCount = 4"

datatype tx_call = PbufRef ptr | PbufFree ptr | Dmb | TailPointer u32

record eth_tx =
  sTxDescriptors :: "TxDescriptor list"
  sAvailableIndex :: u32
  sAvaliableSize :: u32
  sUnavailableTxDescIndex :: u32
  tx_calls :: "tx_call list"

definition emit :: "tx_call list \<Rightarrow> eth_tx \<Rightarrow> eth_tx" where
  "emit cs st = st\<lparr>tx_calls := tx_calls st @ cs\<rparr>"

text \<open>The static initial values, with the descriptors as \<open>HAL_ETH_Init\<close> clears them.\<close>

definition eth_tx_init :: eth_tx where
  "eth_tx_init = \<lparr>sTxDescriptors = replicate (unat sEthTxDescCount)
       \<lparr>mDesc0 = 0, mDesc1 = 0, mDesc2 = 0, mDesc3 = 0, mAppData0 = 0, mAppData1 = 0\<rparr>,
     sAvailableIndex = 0, sAvaliableSize = sEthTxDescCount, sUnavailableTxDescIndex = 0,
     tx_calls = []\<rparr>"

text \<open>
  The loop over the chain: the buffers collected so far and the payload length; \<open>None\<close> is the
  early return with \<open>ERR_IF\<close> when the vector is full.
\<close>

function collectBufs :: "heap \<Rightarrow> ptr \<Rightarrow> ptr list \<Rightarrow> u32 \<Rightarrow> (ptr list \<times> u32) option" where
  "collectBufs h q bufs payloadLength =
     (if q = 0 then Some (bufs, payloadLength)
      else if unat sEthTxDescCount \<le> length bufs then None
      else collectBufs h (p_next (h q)) (bufs @ [q]) (payloadLength + ucast (p_len (h q))))"
  by pat_completeness auto
termination
  by (relation "measure (\<lambda>(h, q, bufs, n). unat sEthTxDescCount - length bufs)") auto

declare collectBufs.simps [simp del]

definition createSpan :: "heap \<Rightarrow> ptr list \<Rightarrow> nat \<Rightarrow> span \<times> nat" where
  "createSpan h bufs bufIndex =
     (if bufIndex < length bufs
      then let q = bufs ! bufIndex in ((p_payload (h q), ucast (p_len (h q))), bufIndex + 1)
      else ((0, 0), bufIndex))"

text \<open>What one round of the loop does to its descriptor, and where it leaves \<open>bufIndex\<close>.\<close>

definition fillDescriptor ::
  "heap \<Rightarrow> ptr \<Rightarrow> ptr list \<Rightarrow> u32 \<Rightarrow> nat \<Rightarrow> TxDescriptor \<Rightarrow> TxDescriptor \<times> nat" where
  "fillDescriptor h p bufs payloadLength bufIndex desc =
     (let desc = (if bufIndex = 0 then setFirstDescriptor desc else desc);
          (buf1, i1) = createSpan h bufs bufIndex;
          (buf2, i2) = createSpan h bufs i1;
          desc = TxDescriptor_set buf1 buf2 payloadLength desc;
          desc = (if i2 = length bufs then setAppData p 0 (setLastDescriptor desc)
                  else setAppData 0 0 desc)
      in (setOwned desc, i2))"

definition nextIndex :: "u32 \<Rightarrow> u32" where
  "nextIndex i = (if i + 1 = sEthTxDescCount then 0 else i + 1)"

function fillDescriptors ::
  "heap \<Rightarrow> ptr \<Rightarrow> ptr list \<Rightarrow> u32 \<Rightarrow> nat \<Rightarrow> eth_tx \<Rightarrow> eth_tx" where
  "fillDescriptors h p bufs payloadLength bufIndex st =
     (if bufIndex < length bufs then
        let i = unat (sAvailableIndex st);
            (desc, bufIndex') = fillDescriptor h p bufs payloadLength bufIndex (sTxDescriptors st ! i)
        in fillDescriptors h p bufs payloadLength bufIndex'
             (emit [Dmb] (st\<lparr>sTxDescriptors := (sTxDescriptors st)[i := desc],
                 sAvailableIndex := nextIndex (sAvailableIndex st),
                 sAvaliableSize := sAvaliableSize st - 1\<rparr>))
      else st)"
  by pat_completeness auto
termination
  by (relation "measure (\<lambda>(h, p, bufs, n, bufIndex, st). length bufs - bufIndex)")
    (auto simp: fillDescriptor_def createSpan_def Let_def split: if_splits prod.splits)

declare fillDescriptors.simps [simp del]

text \<open>
  \<open>descBase\<close> is the address of the descriptor array, for the tail pointer; a descriptor has 24
  bytes (the \<open>static_assert\<close> of \<open>TxDescriptor.h\<close>).
\<close>

definition lowLevelOutput :: "heap \<Rightarrow> u32 \<Rightarrow> ptr \<Rightarrow> eth_tx \<Rightarrow> err_t \<times> eth_tx" where
  "lowLevelOutput h descBase p st =
     (case collectBufs h p [] 0 of
        None \<Rightarrow> (ERR_IF, st)
      | Some (bufs, payloadLength) \<Rightarrow>
          if unat (sAvaliableSize st * 2) < length bufs then (ERR_IF, st)
          else let st = fillDescriptors h p bufs payloadLength 0 (emit [PbufRef p] st)
               in (ERR_OK, emit [Dmb, TailPointer (descBase + 24 * sAvailableIndex st)] st))"

text \<open>One round of the release loop, and the loop.\<close>

definition releaseDescriptor :: "eth_tx \<Rightarrow> eth_tx" where
  "releaseDescriptor st =
     (let desc = sTxDescriptors st ! unat (sUnavailableTxDescIndex st);
          st = (if getAppData0 desc \<noteq> 0 then emit [PbufFree (getAppData0 desc)] st else st)
      in st\<lparr>sAvaliableSize := sAvaliableSize st + 1,
            sUnavailableTxDescIndex := nextIndex (sUnavailableTxDescIndex st)\<rparr>)"

partial_function (option) releaseTxBuffers :: "eth_tx \<Rightarrow> eth_tx option" where
  "releaseTxBuffers st =
     (if sAvailableIndex st = sUnavailableTxDescIndex st then Some st
      else if ownedByDMA (sTxDescriptors st ! unat (sUnavailableTxDescIndex st)) then Some st
      else releaseTxBuffers (releaseDescriptor st))"

section \<open>Collecting the chain\<close>

lemma collectBufs_chain:
  assumes "is_chain h q qs"
  shows "collectBufs h q bufs n =
    (if length bufs + length qs \<le> 4 \<or> qs = []
     then Some (bufs @ qs, n + (\<Sum>x\<leftarrow>qs. ucast (p_len (h x)))) else None)"
  using assms
proof (induction qs arbitrary: q bufs n)
  case Nil
  then show ?case by (simp add: collectBufs.simps)
next
  case (Cons x qs)
  then show ?case
    by (auto simp: collectBufs.simps [of h x] sEthTxDescCount_def add.assoc)
qed

text \<open>Whatever the memory holds, a result is the whole chain and has at most four buffers.\<close>

lemma collectBufs_Some:
  assumes "collectBufs h q bufs n = Some (bufs', n')" and "length bufs \<le> 4"
  shows "\<exists>qs. bufs' = bufs @ qs \<and> is_chain h q qs \<and> length bufs' \<le> 4"
  using assms
proof (induction h q bufs n rule: collectBufs.induct)
  case (1 h q bufs n)
  show ?case
  proof (cases "q = 0")
    case True
    then show ?thesis using "1.prems" by (auto simp: collectBufs.simps)
  next
    case False
    then have "collectBufs h (p_next (h q)) (bufs @ [q]) (n + ucast (p_len (h q))) = Some (bufs', n')"
      and room: "\<not> unat sEthTxDescCount \<le> length bufs"
      using "1.prems"(1) by (simp_all add: collectBufs.simps [of h q] split: if_splits)
    with "1.IH" [OF False room] obtain qs where
      "bufs' = (bufs @ [q]) @ qs" "is_chain h (p_next (h q)) qs" "length bufs' \<le> 4"
      by (auto simp: sEthTxDescCount_def)
    with False show ?thesis by (intro exI [of _ "q # qs"]) simp
  qed
qed


section \<open>Filling the descriptors\<close>

definition needed :: "ptr list \<Rightarrow> nat \<Rightarrow> nat" where
  "needed bufs bufIndex = (length bufs - bufIndex + 1) div 2"

text \<open>The descriptors that a packet turns a list of free descriptors into.\<close>

fun packed :: "heap \<Rightarrow> ptr \<Rightarrow> ptr list \<Rightarrow> u32 \<Rightarrow> nat \<Rightarrow> TxDescriptor list \<Rightarrow> TxDescriptor list" where
  "packed h p bufs n bufIndex [] = []"
| "packed h p bufs n bufIndex (d # ds) =
     (let r = fillDescriptor h p bufs n bufIndex d in fst r # packed h p bufs n (snd r) ds)"

lemma length_packed [simp]: "length (packed h p bufs n i ds) = length ds"
  by (induction h p bufs n i ds rule: packed.induct) (auto simp: Let_def)

lemma fillDescriptor_index:
  "i < length bufs \<Longrightarrow> snd (fillDescriptor h p bufs n i d) = min (i + 2) (length bufs)"
  by (auto simp: fillDescriptor_def createSpan_def Let_def split: prod.splits)

lemma needed_step: "i < length bufs \<Longrightarrow> needed bufs i = Suc (needed bufs (min (i + 2) (length bufs)))"
  by (auto simp: needed_def min_def)

lemma needed_end [simp]: "length bufs \<le> i \<Longrightarrow> needed bufs i = 0"
  by (simp add: needed_def)

lemma unat_nextIndex: "unat i < 4 \<Longrightarrow> unat (nextIndex i) = Suc (unat i) mod 4"
proof -
  assume i: "unat i < 4"
  have "unat (i + 1) = Suc (unat i)"
    using i unat_plus_exact [of i 1] by simp
  then have "i + 1 = 4 \<longleftrightarrow> Suc (unat i) = 4"
    by (simp add: word_unat_eq_iff)
  with i show ?thesis
    by (auto simp: nextIndex_def sEthTxDescCount_def \<open>unat (i + 1) = Suc (unat i)\<close>)
qed


text \<open>
  What the fill loop does to the driver's state: it overwrites the next free descriptors, moves the
  index and the count by as many, and raises one barrier for each.
\<close>

definition fill_result ::
  "heap \<Rightarrow> ptr \<Rightarrow> ptr list \<Rightarrow> u32 \<Rightarrow> nat \<Rightarrow> eth_tx \<Rightarrow> eth_tx \<Rightarrow> bool" where
  "fill_result h p bufs n i st r \<longleftrightarrow>
     (let m = needed bufs i; a = unat (sAvailableIndex st)
      in sTxDescriptors r = ring_store (sTxDescriptors st) a
           (packed h p bufs n i (ring_slice (sTxDescriptors st) a m)) \<and>
         unat (sAvailableIndex r) = (a + m) mod 4 \<and>
         unat (sAvaliableSize r) = unat (sAvaliableSize st) - m \<and>
         sUnavailableTxDescIndex r = sUnavailableTxDescIndex st \<and>
         tx_calls r = tx_calls st @ replicate m Dmb)"

lemma fillDescriptors_result:
  assumes "length (sTxDescriptors st) = 4" and "unat (sAvailableIndex st) < 4"
    and "needed bufs i \<le> 4" and "needed bufs i \<le> unat (sAvaliableSize st)"
  shows "fill_result h p bufs n i st (fillDescriptors h p bufs n i st)"
  using assms
proof (induction h p bufs n i st rule: fillDescriptors.induct)
  case (1 h p bufs n i st)
  show ?case
  proof (cases "i < length bufs")
    case False
    then show ?thesis
      using "1.prems" by (simp add: fillDescriptors.simps fill_result_def Let_def)
  next
    case True
    let ?a = "unat (sAvailableIndex st)" and ?D = "sTxDescriptors st"
    let ?f = "fillDescriptor h p bufs n i (?D ! ?a)"
    let ?st = "emit [Dmb] (st\<lparr>sTxDescriptors := ?D[?a := fst ?f],
      sAvailableIndex := nextIndex (sAvailableIndex st), sAvaliableSize := sAvaliableSize st - 1\<rparr>)"
    have i: "snd ?f = min (i + 2) (length bufs)" using True by (rule fillDescriptor_index)
    have m: "needed bufs i = Suc (needed bufs (snd ?f))" unfolding i using True by (rule needed_step)
    have a: "unat (sAvailableIndex ?st) = Suc ?a mod 4"
      using "1.prems"(2) by (simp add: emit_def unat_nextIndex)
    have s: "unat (sAvaliableSize ?st) = unat (sAvaliableSize st) - 1"
      using "1.prems"(4) m unat_minus_exact [of 1 "sAvaliableSize st"]
      by (simp add: emit_def word_le_nat_alt)
    have eq: "fillDescriptors h p bufs n i st = fillDescriptors h p bufs n (snd ?f) ?st"
      using True by (subst fillDescriptors.simps) (simp add: Let_def split: prod.splits)
    have IH: "fill_result h p bufs n (snd ?f) ?st (fillDescriptors h p bufs n (snd ?f) ?st)"
      using True "1.prems" m a s
      by (intro "1.IH" [OF True refl refl prod.collapse]) (simp_all add: emit_def)
    show ?thesis
      using IH m a s "1.prems"
        ring_slice_Suc [of ?a ?D] ring_slice_update_before [of ?a ?D "needed bufs (snd ?f)"]
      unfolding fill_result_def Let_def eq
      by (simp add: Let_def emit_def mod_simps)
  qed
qed


section \<open>The descriptors of a packet\<close>

lemma fillDescriptor_app0:
  "getAppData0 (fst (fillDescriptor h p bufs n i d)) =
    (if snd (fillDescriptor h p bufs n i d) = length bufs then p else 0)"
  by (simp add: fillDescriptor_def Let_def txd.filled_app0 split: prod.splits)

lemma fillDescriptor_owned: "ownedByDMA (fst (fillDescriptor h p bufs n i d))"
  by (simp add: fillDescriptor_def Let_def txd.owned_downed split: prod.splits)

lemma packed_app0:
  assumes "length ds = needed bufs i" and "i < length bufs"
  shows "map getAppData0 (packed h p bufs n i ds) = replicate (length ds - 1) 0 @ [p]"
  using assms
proof (induction ds arbitrary: i)
  case Nil
  then show ?case using needed_step [of i bufs] by simp
next
  case (Cons d ds)
  let ?i = "min (i + 2) (length bufs)"
  have m: "length ds = needed bufs ?i" using needed_step [OF Cons.prems(2)] Cons.prems(1) by simp
  show ?case
  proof (cases "?i < length bufs")
    case True
    then have "ds \<noteq> []" using m needed_step [OF True] by auto
    then show ?thesis
      using Cons.IH [OF m True] Cons.prems(2) True
      by (cases ds) (auto simp: Let_def fillDescriptor_app0 fillDescriptor_index)
  next
    case False
    then show ?thesis
      using m Cons.prems(2) by (simp add: Let_def fillDescriptor_app0 fillDescriptor_index)
  qed
qed

lemma packed_owned: "d \<in> set (packed h p bufs n i ds) \<Longrightarrow> ownedByDMA d"
  by (induction h p bufs n i ds rule: packed.induct) (auto simp: Let_def fillDescriptor_owned)

section \<open>Invariant of the ring\<close>

definition tx_inv :: "eth_tx \<Rightarrow> bool" where
  "tx_inv st \<longleftrightarrow> length (sTxDescriptors st) = 4 \<and> unat (sAvaliableSize st) \<le> 4 \<and>
     unat (sAvailableIndex st) < 4 \<and> unat (sUnavailableTxDescIndex st) < 4 \<and>
     (unat (sUnavailableTxDescIndex st) + (4 - unat (sAvaliableSize st))) mod 4 =
       unat (sAvailableIndex st)"

text \<open>The descriptors that are not available, oldest first, and the packets they hold.\<close>

definition inflight :: "eth_tx \<Rightarrow> TxDescriptor list" where
  "inflight st = ring_slice (sTxDescriptors st) (unat (sUnavailableTxDescIndex st))
     (4 - unat (sAvaliableSize st))"

definition pending :: "eth_tx \<Rightarrow> ptr list" where
  "pending st = filter (\<lambda>p. p \<noteq> 0) (map getAppData0 (inflight st))"

fun taken :: "tx_call list \<Rightarrow> ptr list" where
  "taken [] = []"
| "taken (PbufRef p # cs) = (if p = 0 then taken cs else p # taken cs)"
| "taken (_ # cs) = taken cs"

fun freed :: "tx_call list \<Rightarrow> ptr list" where
  "freed [] = []"
| "freed (PbufFree p # cs) = p # freed cs"
| "freed (_ # cs) = freed cs"

text \<open>Every reference the driver took is given back or belongs to a packet in the ring, in order.\<close>

definition ledger :: "eth_tx \<Rightarrow> bool" where
  "ledger st \<longleftrightarrow> taken (tx_calls st) = freed (tx_calls st) @ pending st"

lemma taken_append [simp]: "taken (cs @ ds) = taken cs @ taken ds"
  by (induction cs rule: taken.induct) auto

lemma freed_append [simp]: "freed (cs @ ds) = freed cs @ freed ds"
  by (induction cs rule: freed.induct) auto

lemma taken_freed_barriers [simp]: "taken (replicate n Dmb) = []" "freed (replicate n Dmb) = []"
  by (induction n) auto

lemma tx_init_inv: "tx_inv eth_tx_init" and tx_init_ledger: "ledger eth_tx_init"
  by (simp_all add: tx_inv_def ledger_def pending_def inflight_def eth_tx_init_def
      sEthTxDescCount_def)

text \<open>Every outcome of \<open>lowLevelOutput\<close> on a consistent ring.\<close>

lemma lowLevelOutput_cases:
  assumes "tx_inv st" and "lowLevelOutput h base p st = (e, st')"
  obtains (refused) "e = ERR_IF" and "st' = st"
      and "\<And>bufs n. collectBufs h p [] 0 = Some (bufs, n) \<Longrightarrow> 2 * unat (sAvaliableSize st) < length bufs"
  | (sent) bufs n where "e = ERR_OK" and "collectBufs h p [] 0 = Some (bufs, n)"
      and "length bufs \<le> 2 * unat (sAvaliableSize st)"
      and "tx_inv st'" and "unat (sAvaliableSize st') = unat (sAvaliableSize st) - needed bufs 0"
      and "sUnavailableTxDescIndex st' = sUnavailableTxDescIndex st"
      and "inflight st' = inflight st @ packed h p bufs n 0
             (ring_slice (sTxDescriptors st) (unat (sAvailableIndex st)) (needed bufs 0))"
      and "tx_calls st' = tx_calls st @ PbufRef p # replicate (needed bufs 0) Dmb @
             [Dmb, TailPointer (base + 24 * sAvailableIndex st')]"
proof -
  let ?A = "unat (sAvaliableSize st)"
  have A: "?A \<le> 4" using assms(1) by (simp add: tx_inv_def)
  then have twice: "unat (sAvaliableSize st * 2) = 2 * ?A"
    by (simp add: unat_word_ariths)
  show thesis
  proof (cases "collectBufs h p [] 0")
    case None
    then show thesis using assms(2) by (intro refused) (simp_all add: lowLevelOutput_def)
  next
    case (Some r)
    obtain bufs n where r: "r = (bufs, n)" by (cases r)
    show thesis
    proof (cases "2 * ?A < length bufs")
      case True
      then show thesis
        using assms(2) Some r twice by (intro refused) (simp_all add: lowLevelOutput_def)
    next
      case False
      let ?m = "needed bufs 0" and ?st = "emit [PbufRef p] st" and ?D = "sTxDescriptors st"
      let ?u = "unat (sUnavailableTxDescIndex st)" and ?a = "unat (sAvailableIndex st)"
      let ?r = "fillDescriptors h p bufs n 0 ?st"
      have m: "?m \<le> ?A" using False by (simp add: needed_def)
      have a': "(?u + (4 - ?A)) mod 4 = ?a" and D: "length ?D = 4" and u: "?u < 4"
        using assms(1) unfolding tx_inv_def by blast+
      note a = a' [symmetric]
      have st': "e = ERR_OK" "st' = emit [Dmb, TailPointer (base + 24 * sAvailableIndex ?r)] ?r"
        using assms(2) Some r twice False by (simp_all add: lowLevelOutput_def Let_def)
      have "fill_result h p bufs n 0 ?st ?r"
        using assms(1) m A by (intro fillDescriptors_result) (simp_all add: tx_inv_def emit_def)
      then have r': "sTxDescriptors st' = ring_store ?D ?a (packed h p bufs n 0 (ring_slice ?D ?a ?m))"
          "unat (sAvailableIndex st') = (?a + ?m) mod 4" "unat (sAvaliableSize st') = ?A - ?m"
          "sUnavailableTxDescIndex st' = sUnavailableTxDescIndex st"
          "tx_calls st' = tx_calls st @ PbufRef p # replicate ?m Dmb @
             [Dmb, TailPointer (base + 24 * sAvailableIndex st')]"
        by (simp_all add: st'(2) fill_result_def Let_def emit_def)
      have inv: "tx_inv st'"
        using u D A m unfolding tx_inv_def r' a by (simp add: mod_simps add.assoc)
      have "inflight st' = inflight st @ packed h p bufs n 0 (ring_slice ?D ?a ?m)"
        using ring_slice_store_fits [of ?u ?D "4 - ?A" "packed h p bufs n 0 (ring_slice ?D ?a ?m)"]
          u D A m unfolding inflight_def r' by (simp add: a)
      with st'(1) Some r False r' inv show thesis by (intro sent) auto
    qed
  qed
qed


section \<open>Releasing\<close>

lemma length_inflight [simp]: "length (inflight st) = 4 - unat (sAvaliableSize st)"
  by (simp add: inflight_def)

lemma indices_equal_iff:
  assumes "tx_inv st"
  shows "sAvailableIndex st = sUnavailableTxDescIndex st \<longleftrightarrow>
    unat (sAvaliableSize st) = 0 \<or> unat (sAvaliableSize st) = 4"
proof -
  let ?u = "unat (sUnavailableTxDescIndex st)" and ?A = "unat (sAvaliableSize st)"
  have "(?u + (4 - ?A)) mod 4 = unat (sAvailableIndex st)" and "?u < 4" and "?A \<le> 4"
    using assms unfolding tx_inv_def by blast+
  moreover from this have "?A = 0 \<or> ?A = 1 \<or> ?A = 2 \<or> ?A = 3 \<or> ?A = 4"
    and "?u = 0 \<or> ?u = 1 \<or> ?u = 2 \<or> ?u = 3"
    by linarith+
  ultimately have "unat (sAvailableIndex st) = ?u \<longleftrightarrow> ?A = 0 \<or> ?A = 4"
    by (elim disjE) simp_all
  then show ?thesis by (simp add: word_unat_eq_iff)
qed

lemma releaseDescriptor_step:
  assumes "tx_inv st" and "unat (sAvaliableSize st) < 4"
  shows "tx_inv (releaseDescriptor st)"
    and "inflight st = (sTxDescriptors st ! unat (sUnavailableTxDescIndex st)) #
           inflight (releaseDescriptor st)"
    and "unat (sAvaliableSize (releaseDescriptor st)) = Suc (unat (sAvaliableSize st))"
    and "sTxDescriptors (releaseDescriptor st) = sTxDescriptors st"
    and "sAvailableIndex (releaseDescriptor st) = sAvailableIndex st"
    and "tx_calls (releaseDescriptor st) = tx_calls st @ map PbufFree (filter (\<lambda>p. p \<noteq> 0)
           [getAppData0 (sTxDescriptors st ! unat (sUnavailableTxDescIndex st))])"
proof -
  let ?u = "unat (sUnavailableTxDescIndex st)" and ?A = "unat (sAvaliableSize st)"
  let ?r = "releaseDescriptor st"
  have a: "(?u + (4 - ?A)) mod 4 = unat (sAvailableIndex st)" and D: "length (sTxDescriptors st) = 4"
    and u: "?u < 4" and b: "unat (sAvailableIndex st) < 4"
    using assms(1) unfolding tx_inv_def by blast+
  show A: "unat (sAvaliableSize ?r) = Suc ?A"
    using assms(2) unat_plus_exact [of "sAvaliableSize st" 1]
    by (simp add: releaseDescriptor_def emit_def Let_def)
  show d: "sTxDescriptors ?r = sTxDescriptors st" and i: "sAvailableIndex ?r = sAvailableIndex st"
    by (simp_all add: releaseDescriptor_def emit_def Let_def)
  have u': "unat (sUnavailableTxDescIndex ?r) = Suc ?u mod 4"
    using u by (simp add: releaseDescriptor_def emit_def Let_def unat_nextIndex)
  have k: "4 - ?A = Suc (4 - Suc ?A)" using assms(2) by simp
  have "(Suc ?u mod 4 + (4 - Suc ?A)) mod 4 = (?u + (4 - ?A)) mod 4"
    unfolding k by (simp add: mod_simps)
  then show "tx_inv ?r"
    using assms(2) D b a u by (simp add: tx_inv_def A d i u')
  show "inflight st = (sTxDescriptors st ! ?u) # inflight ?r"
    unfolding inflight_def A d u' k using ring_slice_Suc [of ?u "sTxDescriptors st" "4 - Suc ?A"] D u
    by simp
  show "tx_calls ?r = tx_calls st @ map PbufFree (filter (\<lambda>p. p \<noteq> 0)
      [getAppData0 (sTxDescriptors st ! ?u)])"
    by (simp add: releaseDescriptor_def emit_def Let_def)
qed

definition done_with :: "TxDescriptor \<Rightarrow> bool" where
  "done_with d \<longleftrightarrow> \<not> ownedByDMA d"

lemma releaseTxBuffers_spec:
  assumes "tx_inv st" and "0 < unat (sAvaliableSize st)"
  shows "\<exists>r. releaseTxBuffers st = Some r \<and> tx_inv r \<and>
    inflight r = dropWhile done_with (inflight st) \<and>
    sTxDescriptors r = sTxDescriptors st \<and> sAvailableIndex r = sAvailableIndex st \<and>
    tx_calls r = tx_calls st @
      map PbufFree (filter (\<lambda>p. p \<noteq> 0) (map getAppData0 (takeWhile done_with (inflight st))))"
  using assms
proof (induction "4 - unat (sAvaliableSize st)" arbitrary: st)
  case 0
  then have "unat (sAvaliableSize st) = 4" by (simp add: tx_inv_def)
  then have "inflight st = []" and "sAvailableIndex st = sUnavailableTxDescIndex st"
    using indices_equal_iff [OF 0(2)] by (simp_all add: inflight_def)
  then show ?case
    using 0(2) by (subst releaseTxBuffers.simps) simp
next
  case (Suc k)
  let ?d = "sTxDescriptors st ! unat (sUnavailableTxDescIndex st)"
  have A: "unat (sAvaliableSize st) < 4" using Suc(2) by simp
  note step = releaseDescriptor_step [OF Suc(3) A]
  have ne: "sAvailableIndex st \<noteq> sUnavailableTxDescIndex st"
    using indices_equal_iff [OF Suc(3)] Suc(4) A by simp
  show ?case
  proof (cases "ownedByDMA ?d")
    case True
    then show ?thesis
      using ne Suc(3) by (subst releaseTxBuffers.simps) (simp add: step(2) done_with_def)
  next
    case False
    then have eq: "releaseTxBuffers st = releaseTxBuffers (releaseDescriptor st)"
      using ne by (subst releaseTxBuffers.simps) simp
    have "k = 4 - unat (sAvaliableSize (releaseDescriptor st))" using Suc(2) step(3) by simp
    from Suc(1) [OF this step(1)] step(3) obtain r where
      "releaseTxBuffers (releaseDescriptor st) = Some r" "tx_inv r"
      "inflight r = dropWhile done_with (inflight (releaseDescriptor st))"
      "sTxDescriptors r = sTxDescriptors (releaseDescriptor st)"
      "sAvailableIndex r = sAvailableIndex (releaseDescriptor st)"
      "tx_calls r = tx_calls (releaseDescriptor st) @ map PbufFree (filter (\<lambda>p. p \<noteq> 0)
        (map getAppData0 (takeWhile done_with (inflight (releaseDescriptor st)))))"
      by auto
    then show ?thesis
      using eq False by (simp add: step(2,4-6) done_with_def)
  qed
qed

text \<open>On a full ring the two indices are equal, and the loop stops before it looks at anything.\<close>

lemma releaseTxBuffers_full:
  "sAvailableIndex st = sUnavailableTxDescIndex st \<Longrightarrow> releaseTxBuffers st = Some st"
  by (subst releaseTxBuffers.simps) simp


section \<open>Steps of the driver and of the DMA\<close>

text \<open>
  The DMA may finish any descriptor it owns: it rewrites the descriptor's words and clears the
  ownership flag, and leaves the application data, which is not part of the hardware layout.
\<close>

inductive tx_step :: "eth_tx \<Rightarrow> eth_tx \<Rightarrow> bool" where
  transmit: "lowLevelOutput h base p st = (e, st') \<Longrightarrow> tx_step st st'"
| release: "releaseTxBuffers st = Some st' \<Longrightarrow> tx_step st st'"
| dma: "i < length (sTxDescriptors st) \<Longrightarrow> ownedByDMA (sTxDescriptors st ! i) \<Longrightarrow>
    \<not> ownedByDMA d \<Longrightarrow> mAppData0 d = mAppData0 (sTxDescriptors st ! i) \<Longrightarrow>
    tx_step st (st\<lparr>sTxDescriptors := (sTxDescriptors st)[i := d]\<rparr>)"

inductive tx_reachable :: "eth_tx \<Rightarrow> bool" where
  start: "tx_reachable eth_tx_init"
| step: "tx_reachable st \<Longrightarrow> tx_step st st' \<Longrightarrow> tx_reachable st'"

inductive_cases tx_stepE [consumes 1, case_names transmit release dma]: "tx_step st st'"

lemma tx_inv_cong:
  "length (sTxDescriptors r) = length (sTxDescriptors st) \<Longrightarrow> sAvaliableSize r = sAvaliableSize st \<Longrightarrow>
   sAvailableIndex r = sAvailableIndex st \<Longrightarrow>
   sUnavailableTxDescIndex r = sUnavailableTxDescIndex st \<Longrightarrow> tx_inv r \<longleftrightarrow> tx_inv st"
  by (simp only: tx_inv_def)

lemma dma_keeps:
  assumes "tx_inv st" and "mAppData0 d = mAppData0 (sTxDescriptors st ! i)"
  shows "tx_inv (st\<lparr>sTxDescriptors := (sTxDescriptors st)[i := d]\<rparr>)"
    and "pending (st\<lparr>sTxDescriptors := (sTxDescriptors st)[i := d]\<rparr>) = pending st"
proof -
  let ?st = "st\<lparr>sTxDescriptors := (sTxDescriptors st)[i := d]\<rparr>"
  have "tx_inv ?st \<longleftrightarrow> tx_inv st" by (rule tx_inv_cong) simp_all
  then show "tx_inv ?st" using assms(1) by simp
  have "map getAppData0 ((sTxDescriptors st)[i := d]) = map getAppData0 (sTxDescriptors st)"
    using assms(2) by (metis getAppData0_def list_update_beyond list_update_id map_update
        nth_map not_le)
  then have "map getAppData0 (inflight ?st) = map getAppData0 (inflight st)"
    using assms(1) by (simp add: inflight_def ring_slice_map tx_inv_def)
  then show "pending ?st = pending st" by (simp add: pending_def)
qed

lemma filter_takeWhile_dropWhile:
  "filter P (map f (takeWhile Q xs)) @ filter P (map f (dropWhile Q xs)) = filter P (map f xs)"
  by (simp flip: filter_append map_append)

lemma freed_map [simp]: "freed (map PbufFree ps) = ps" and taken_map [simp]: "taken (map PbufFree ps) = []"
  by (induction ps) auto

text \<open>One accepted packet adds itself at the end of the pending packets.\<close>

lemma pending_sent:
  assumes "collectBufs h p [] 0 = Some (bufs, n)" and "length bufs \<le> 8"
    and "length ds = needed bufs 0"
    and "inflight st' = inflight st @ packed h p bufs n 0 ds"
  shows "pending st' = pending st @ (if p = 0 then [] else [p])"
proof -
  obtain qs where qs: "bufs = qs" "is_chain h p qs"
    using collectBufs_Some [OF assms(1)] by auto
  show ?thesis
  proof (cases "p = 0")
    case True
    then have "ds = []" using assms(3) qs by (simp add: needed_def)
    then show ?thesis using assms(4) True by (simp add: pending_def)
  next
    case False
    then have "0 < length bufs" using qs by (cases qs) auto
    then show ?thesis
      using assms(4) packed_app0 [OF assms(3)] False
      by (simp add: pending_def filter_replicate del: map_eq_append_conv)
  qed
qed

lemma tx_step_keeps:
  assumes "tx_step st st'" and "tx_inv st" and "ledger st"
  shows "tx_inv st' \<and> ledger st'"
  using assms(1)
proof (cases rule: tx_stepE)
  case (transmit h base p e)
  from assms(2) transmit show ?thesis
  proof (cases rule: lowLevelOutput_cases)
    case refused
    then show ?thesis using assms by simp
  next
    case (sent bufs n)
    have "pending st' = pending st @ (if p = 0 then [] else [p])"
      using sent assms(2) by (intro pending_sent [of h p bufs n]) (auto simp: tx_inv_def)
    then show ?thesis
      using assms(3) sent by (simp add: ledger_def)
  qed
next
  case release
  show ?thesis
  proof (cases "unat (sAvaliableSize st) = 0")
    case True
    then show ?thesis
      using release assms indices_equal_iff [OF assms(2)] releaseTxBuffers_full [of st] by simp
  next
    case False
    then obtain r where "releaseTxBuffers st = Some r" "tx_inv r"
      "inflight r = dropWhile done_with (inflight st)"
      "tx_calls r = tx_calls st @
        map PbufFree (filter (\<lambda>p. p \<noteq> 0) (map getAppData0 (takeWhile done_with (inflight st))))"
      using releaseTxBuffers_spec [OF assms(2)] by auto
    then show ?thesis
      using release assms(3) by (simp add: ledger_def pending_def filter_takeWhile_dropWhile)
  qed
next
  case (dma i d)
  then show ?thesis
    using assms dma_keeps [OF assms(2), of d i] by (simp add: ledger_def)
qed

lemma tx_reachable_keeps: "tx_reachable st \<Longrightarrow> tx_inv st \<and> ledger st"
  by (induction rule: tx_reachable.induct) (auto simp: tx_init_inv tx_init_ledger tx_step_keeps)


section \<open>What the DMA gathers\<close>

lemma gathered_cong:
  "mDesc0 d = mDesc0 d' \<Longrightarrow> mDesc1 d = mDesc1 d' \<Longrightarrow> mDesc2 d = mDesc2 d' \<Longrightarrow> gathered d = gathered d'"
  by (simp only: gathered_def buffer1_length_def buffer2_length_def)

lemma gathered_frame [simp]:
  "gathered (setOwned d) = gathered d"
  "gathered (setAppData x y d) = gathered d"
  "gathered (setLastDescriptor d) = gathered d"
  by (rule gathered_cong; simp add: setOwned_def setAppData_def setLastDescriptor_def)+

lemma fillDescriptor_gathered:
  assumes "\<forall>q \<in> set bufs. unat (p_len (h q)) < 2 ^ 14" and "i < length bufs"
  shows "gathered (fst (fillDescriptor h p bufs n i d)) =
    filter (\<lambda>s. snd s \<noteq> 0) (take 2 (segments h (drop i bufs)))"
proof -
  have small: "unat (ucast (p_len (h (bufs ! j))) :: u32) < 2 ^ 14" if "j < length bufs" for j
    using assms(1) that by (simp add: unat_len)
  have seg: "segments h (drop i bufs) = (p_payload (h (bufs ! i)), ucast (p_len (h (bufs ! i)))) #
      segments h (drop (Suc i) bufs)"
    using assms(2) by (simp add: segments_def Cons_nth_drop_Suc [symmetric])
  show ?thesis
  proof (cases "Suc i < length bufs")
    case True
    then have "segments h (drop (Suc i) bufs) =
        (p_payload (h (bufs ! Suc i)), ucast (p_len (h (bufs ! Suc i)))) #
        segments h (drop (Suc (Suc i)) bufs)"
      by (simp add: segments_def Cons_nth_drop_Suc [symmetric])
    with True show ?thesis
      using assms(2) seg small [of i] small [of "Suc i"]
      by (simp add: fillDescriptor_def createSpan_def Let_def gathered_set)
  next
    case False
    then have "segments h (drop (Suc i) bufs) = []" by (simp add: segments_def)
    with False show ?thesis
      using assms(2) seg small [of i]
      by (simp add: fillDescriptor_def createSpan_def Let_def gathered_set)
  qed
qed

lemma packed_gathered:
  assumes "\<forall>q \<in> set bufs. unat (p_len (h q)) < 2 ^ 14" and "length ds = needed bufs i"
  shows "concat (map gathered (packed h p bufs n i ds)) =
    filter (\<lambda>s. snd s \<noteq> 0) (segments h (drop i bufs))"
  using assms(2)
proof (induction ds arbitrary: i)
  case Nil
  then have "length bufs \<le> i" by (simp add: needed_def)
  then show ?case by (simp add: segments_def)
next
  case (Cons d ds)
  then have i: "i < length bufs" by (metis needed_end not_less length_Cons nat.distinct(1))
  let ?i = "min (i + 2) (length bufs)"
  have m: "length ds = needed bufs ?i" using needed_step [OF i] Cons.prems by simp
  have "drop ?i bufs = drop 2 (drop i bufs)" by (simp add: min_def add.commute)
  then have "segments h (drop ?i bufs) = drop 2 (segments h (drop i bufs))"
    by (simp add: segments_def drop_map)
  then show ?case
    using Cons.IH [OF m] fillDescriptor_gathered [OF assms(1) i] fillDescriptor_index [OF i]
    by (simp add: Let_def flip: filter_append)
qed

text \<open>The flags of a packet's descriptors, when the free ones carried none.\<close>

lemma fillDescriptor_flags:
  assumes "unat n < 2 ^ 28"
  shows "is_first (fst (fillDescriptor h p bufs n i d)) \<longleftrightarrow> is_first d \<or> i = 0"
    and "is_last (fst (fillDescriptor h p bufs n i d)) \<longleftrightarrow>
      is_last d \<or> snd (fillDescriptor h p bufs n i d) = length bufs"
  using small_bits [OF assms, of 29] small_bits [OF assms, of 28]
  by (auto simp: fillDescriptor_def Let_def descriptor_bits setOwned_def setAppData_def
      setLastDescriptor_def setFirstDescriptor_def TxDescriptor_set_def bit_or_iff
      split: prod.splits)


lemma packed_hd_first:
  assumes "ds \<noteq> []"
  shows "is_first (hd (packed h p bufs n 0 ds))"
  using assms
  by (cases ds) (auto simp: Let_def fillDescriptor_def descriptor_bits setOwned_def setAppData_def
      setLastDescriptor_def setFirstDescriptor_def TxDescriptor_set_def bit_or_iff
      split: prod.splits)

lemma fillDescriptor_last:
  "snd (fillDescriptor h p bufs n i d) = length bufs \<Longrightarrow> is_last (fst (fillDescriptor h p bufs n i d))"
  by (auto simp: Let_def fillDescriptor_def descriptor_bits setOwned_def setAppData_def
      setLastDescriptor_def bit_or_iff split: prod.splits)

lemma packed_last_last:
  assumes "length ds = needed bufs i" and "i < length bufs"
  shows "is_last (last (packed h p bufs n i ds))"
  using assms
proof (induction ds arbitrary: i)
  case Nil
  then show ?case using needed_step [of i bufs] by simp
next
  case (Cons d ds)
  let ?i = "min (i + 2) (length bufs)"
  have m: "length ds = needed bufs ?i" using needed_step [OF Cons.prems(2)] Cons.prems(1) by simp
  show ?case
  proof (cases "?i < length bufs")
    case True
    then have "ds \<noteq> []" using m needed_step [OF True] by auto
    moreover have "packed h p bufs n ?i ds \<noteq> []"
      using calculation by (metis length_0_conv length_packed)
    ultimately show ?thesis
      using Cons.IH [OF m True] Cons.prems(2) by (simp add: Let_def fillDescriptor_index)
  next
    case False
    then show ?thesis
      using m Cons.prems(2) by (simp add: Let_def fillDescriptor_last fillDescriptor_index)
  qed
qed

section \<open>Accepting\<close>

lemma accepted_iff:
  assumes "tx_inv st" and "is_chain h p qs"
  shows "if length qs \<le> 4 \<and> length qs \<le> 2 * unat (sAvaliableSize st)
    then fst (lowLevelOutput h base p st) = ERR_OK \<and>
      unat (sAvaliableSize (snd (lowLevelOutput h base p st))) =
        unat (sAvaliableSize st) - (length qs + 1) div 2
    else lowLevelOutput h base p st = (ERR_IF, st)"
proof -
  have c: "collectBufs h p [] 0 = (if length qs \<le> 4 then Some (qs, \<Sum>x\<leftarrow>qs. ucast (p_len (h x))) else None)"
    using collectBufs_chain [OF assms(2), of "[]" 0] by auto
  from assms(1) surjective_pairing [of "lowLevelOutput h base p st"] show ?thesis
  proof (cases rule: lowLevelOutput_cases)
    case refused
    have "\<not> (length qs \<le> 4 \<and> length qs \<le> 2 * unat (sAvaliableSize st))"
      using refused(3) c by auto
    then show ?thesis using refused(1,2) by (simp add: prod_eq_iff)
  next
    case (sent bufs n)
    then show ?thesis using c by (auto simp: needed_def split: if_splits)
  qed
qed

text \<open>A packet of one buffer, to exercise the ring with.\<close>

definition one_buffer :: heap where
  "one_buffer = (\<lambda>_. \<lparr>p_next = 0, p_payload = 0x30044000, p_tot_len = 60, p_len = 60\<rparr>)"

lemma one_buffer_chain: "p \<noteq> 0 \<Longrightarrow> is_chain one_buffer p [p]"
  by (simp add: one_buffer_def)

lemma one_buffer_sent:
  assumes "tx_inv st" and "sAvaliableSize st \<noteq> 0" and "p \<noteq> 0"
  shows "lowLevelOutput one_buffer base p st = (ERR_OK, snd (lowLevelOutput one_buffer base p st))"
    and "unat (sAvaliableSize (snd (lowLevelOutput one_buffer base p st))) =
      unat (sAvaliableSize st) - 1"
proof -
  have "0 < unat (sAvaliableSize st)" using assms(2) by (simp add: unat_gt_0)
  then show "lowLevelOutput one_buffer base p st = (ERR_OK, snd (lowLevelOutput one_buffer base p st))"
    "unat (sAvaliableSize (snd (lowLevelOutput one_buffer base p st))) = unat (sAvaliableSize st) - 1"
    using accepted_iff [OF assms(1) one_buffer_chain [OF assms(3)], of base]
    by (simp_all add: prod_eq_iff)
qed

lemma tx_reachable_with: "n \<le> 4 \<Longrightarrow> \<exists>st. tx_reachable st \<and> unat (sAvaliableSize st) = 4 - n"
proof (induction n)
  case 0
  then show ?case using tx_reachable.start by (force simp: eth_tx_init_def sEthTxDescCount_def)
next
  case (Suc n)
  then obtain st where st: "tx_reachable st" "unat (sAvaliableSize st) = 4 - n" by auto
  let ?st = "snd (lowLevelOutput one_buffer 0 1 st)"
  have "tx_reachable ?st"
    by (rule tx_reachable.step [OF st(1) tx_step.transmit [OF surjective_pairing]])
  moreover have "sAvaliableSize st \<noteq> 0" using st(2) Suc.prems by auto
  then have "unat (sAvaliableSize ?st) = 4 - Suc n"
    using one_buffer_sent(2) [of st 1 0] tx_reachable_keeps [OF st(1)] st(2) by simp
  ultimately show ?case by blast
qed

lemma init_available: "sAvaliableSize eth_tx_init \<noteq> 0"
  by (simp add: eth_tx_init_def sEthTxDescCount_def)

lemma init_calls: "tx_calls eth_tx_init = []"
  by (simp add: eth_tx_init_def)

section \<open>Properties\<close>

text \<open>
  C5. In every state that the driver and the DMA can reach, the ring's indices and counts agree, and
  the references taken with \<open>pbuf_ref\<close> are exactly those given back with \<open>pbuf_free\<close>, in the same
  order, followed by the packets still in the ring: no packet is freed twice, freed without having
  been taken, freed out of order, or forgotten.
\<close>

theorem tx_references_balanced:
  assumes "tx_reachable st"
  shows "tx_inv st \<and> taken (tx_calls st) = freed (tx_calls st) @ pending st"
  using tx_reachable_keeps [OF assms] by (simp add: ledger_def)

theorem tx_references_balanced_witness:
  "\<exists>st. tx_reachable st \<and> taken (tx_calls st) = [7] \<and> freed (tx_calls st) @ pending st = [7]"
proof -
  have "lowLevelOutput one_buffer 0x30000400 7 eth_tx_init =
      (ERR_OK, snd (lowLevelOutput one_buffer 0x30000400 7 eth_tx_init))"
    by (rule one_buffer_sent(1) [OF tx_init_inv init_available]) simp
  then obtain st where st: "lowLevelOutput one_buffer 0x30000400 7 eth_tx_init = (ERR_OK, st)" ..
  then have r: "tx_reachable st"
    by (rule tx_reachable.step [OF tx_reachable.start tx_step.transmit])
  from tx_init_inv st have "taken (tx_calls st) = [7]"
    by (cases rule: lowLevelOutput_cases) (simp_all add: init_calls)
  then show ?thesis using r tx_references_balanced [OF r] by auto
qed

text \<open>
  C22. \<open>lowLevelOutput\<close> accepts a chain exactly when it has at most four buffers and the available
  descriptors hold two buffers each; it then uses up half as many descriptors as there are buffers,
  rounded up. A chain it refuses changes nothing.
\<close>

theorem lowLevelOutput_accepts:
  assumes "tx_inv st" and "is_chain h p qs"
  shows "if length qs \<le> 4 \<and> length qs \<le> 2 * unat (sAvaliableSize st)
    then fst (lowLevelOutput h base p st) = ERR_OK \<and>
      unat (sAvaliableSize (snd (lowLevelOutput h base p st))) =
        unat (sAvaliableSize st) - (length qs + 1) div 2
    else lowLevelOutput h base p st = (ERR_IF, st)"
  using assms by (rule accepted_iff)

theorem lowLevelOutput_accepts_witness:
  "fst (lowLevelOutput one_buffer 0x30000400 7 eth_tx_init) = ERR_OK"
  using lowLevelOutput_accepts [OF tx_init_inv one_buffer_chain [of 7], of "0x30000400"]
  by (simp add: eth_tx_init_def sEthTxDescCount_def)

text \<open>
  C6. The descriptors of an accepted packet come right after those in flight, which stay untouched;
  all are handed to the DMA, the first is marked first and the last is marked last and carries the
  packet; and the buffers the DMA gathers from them, in order, are the non-empty buffers of the
  chain, in order.
\<close>

theorem lowLevelOutput_gathers:
  assumes "tx_inv st" and "is_chain h p qs" and "qs \<noteq> []"
    and "\<forall>q \<in> set qs. unat (p_len (h q)) < 2 ^ 14"
    and "lowLevelOutput h base p st = (ERR_OK, st')"
  shows "\<exists>ds. inflight st' = inflight st @ ds \<and> (\<forall>d \<in> set ds. ownedByDMA d) \<and>
    is_first (hd ds) \<and> is_last (last ds) \<and>
    map getAppData0 ds = replicate (length ds - 1) 0 @ [p] \<and>
    concat (map gathered ds) = filter (\<lambda>s. snd s \<noteq> 0) (segments h qs)"
  using assms(1,5)
proof (cases rule: lowLevelOutput_cases)
  case (sent bufs n)
  let ?free = "ring_slice (sTxDescriptors st) (unat (sAvailableIndex st)) (needed bufs 0)"
  let ?ds = "packed h p bufs n 0 ?free"
  have qs: "bufs = qs" using collectBufs_Some [OF sent(2)] is_chain_unique [OF assms(2)] by auto
  then have pos: "0 < length bufs" using assms(3) by simp
  then have "?free \<noteq> []" by (metis length_0_conv length_ring_slice needed_step nat.distinct(1))
  then have "is_first (hd ?ds)" by (rule packed_hd_first)
  moreover have "is_last (last ?ds)" using pos by (intro packed_last_last) simp_all
  moreover have "map getAppData0 ?ds = replicate (length ?ds - 1) 0 @ [p]"
    using packed_app0 [of ?free bufs 0 h p n] pos by simp
  moreover have "concat (map gathered ?ds) = filter (\<lambda>s. snd s \<noteq> 0) (segments h qs)"
    using packed_gathered [of bufs h ?free 0 p n] assms(4) qs by simp
  ultimately show ?thesis
    using sent(7) packed_owned by blast
qed simp

theorem lowLevelOutput_gathers_witness:
  "\<exists>ds. inflight (snd (lowLevelOutput one_buffer 0x30000400 7 eth_tx_init)) =
       inflight eth_tx_init @ ds \<and> concat (map gathered ds) = [(0x30044000, 60)]"
proof -
  have ok: "lowLevelOutput one_buffer 0x30000400 7 eth_tx_init =
      (ERR_OK, snd (lowLevelOutput one_buffer 0x30000400 7 eth_tx_init))"
    by (rule one_buffer_sent(1) [OF tx_init_inv]) (simp_all add: eth_tx_init_def sEthTxDescCount_def)
  have "is_chain one_buffer 7 [7]" by (rule one_buffer_chain) simp
  from lowLevelOutput_gathers [OF tx_init_inv this _ _ ok] show ?thesis
    by (auto simp: segments_def one_buffer_def)
qed

text \<open>
  C21. While at least one descriptor is available, \<open>releaseTxBuffers\<close> returns, gives up exactly the
  descriptors that the DMA has finished at the front of the ring, frees their packets in order, and
  never frees a packet that the DMA may still read.
\<close>

theorem releaseTxBuffers_frees_finished:
  assumes "tx_inv st" and "0 < sAvaliableSize st"
  shows "\<exists>r ds. releaseTxBuffers st = Some r \<and> tx_inv r \<and> inflight st = ds @ inflight r \<and>
    freed (tx_calls r) = freed (tx_calls st) @ filter (\<lambda>p. p \<noteq> 0) (map getAppData0 ds) \<and>
    list_all (\<lambda>d. \<not> ownedByDMA d) ds \<and> (inflight r = [] \<or> ownedByDMA (hd (inflight r)))"
proof -
  have "0 < unat (sAvaliableSize st)" using assms(2) by (simp add: word_less_nat_alt)
  from releaseTxBuffers_spec [OF assms(1) this] obtain r where r:
    "releaseTxBuffers st = Some r" "tx_inv r" "inflight r = dropWhile done_with (inflight st)"
    "tx_calls r = tx_calls st @
      map PbufFree (filter (\<lambda>p. p \<noteq> 0) (map getAppData0 (takeWhile done_with (inflight st))))"
    by auto
  have "list_all (\<lambda>d. \<not> ownedByDMA d) (takeWhile done_with (inflight st))"
    by (auto simp: list_all_iff done_with_def dest: set_takeWhileD)
  moreover have "inflight r = [] \<or> ownedByDMA (hd (inflight r))"
    using r(3) hd_dropWhile [of done_with "inflight st"] by (auto simp: done_with_def)
  ultimately show ?thesis
    using r by (intro exI [of _ r] exI [of _ "takeWhile done_with (inflight st)"]) simp
qed

theorem releaseTxBuffers_frees_finished_witness:
  "\<exists>r. releaseTxBuffers (eth_tx_init\<lparr>sAvailableIndex := 1, sAvaliableSize := 3\<rparr>) = Some r \<and> tx_inv r"
  using releaseTxBuffers_frees_finished
    [of "eth_tx_init\<lparr>sAvailableIndex := 1, sAvaliableSize := 3\<rparr>"]
  by (auto simp: tx_inv_def eth_tx_init_def sEthTxDescCount_def)

text \<open>
  C38. Once all four descriptors are in use the driver is stuck for good: whatever the DMA finishes and
  however often \<open>releaseTxBuffers\<close> runs, it frees nothing, and every further packet is refused,
  because a full ring and an empty ring have equal indices and the release loop takes a full ring
  for an empty one.
\<close>

theorem tx_ring_full_is_stuck:
  assumes "tx_inv st" and "sAvaliableSize st = 0" and "tx_step\<^sup>*\<^sup>* st st'"
  shows "sAvaliableSize st' = 0 \<and> freed (tx_calls st') = freed (tx_calls st) \<and>
    releaseTxBuffers st' = Some st' \<and> (p = 0 \<or> fst (lowLevelOutput h base p st') = ERR_IF)"
proof -
  have refuse: "p = 0 \<or> fst (lowLevelOutput h base p r) = ERR_IF"
    and idle: "releaseTxBuffers r = Some r"
    if "tx_inv r" and "sAvaliableSize r = 0" for r p h base
  proof -
    show "releaseTxBuffers r = Some r"
      using that indices_equal_iff [of r] releaseTxBuffers_full by simp
    from that(1) surjective_pairing [of "lowLevelOutput h base p r"]
    show "p = 0 \<or> fst (lowLevelOutput h base p r) = ERR_IF"
    proof (cases rule: lowLevelOutput_cases)
      case (sent bufs n)
      then show ?thesis using that(2) collectBufs_Some [OF sent(2)] by auto
    qed simp
  qed
  have "tx_inv st' \<and> sAvaliableSize st' = 0 \<and> freed (tx_calls st') = freed (tx_calls st)"
    using assms(3)
  proof (induction rule: rtranclp_induct)
    case base
    then show ?case using assms(1,2) by simp
  next
    case (step r r')
    from step(2) show ?case
    proof (cases rule: tx_stepE)
      case (transmit h base p e)
      from step(3) transmit have "tx_inv r" by simp
      from this transmit show ?thesis
      proof (cases rule: lowLevelOutput_cases)
        case (sent bufs n)
        then show ?thesis using step(3) by (simp add: word_unat_eq_iff)
      qed (use step(3) in simp)
    next
      case release
      then show ?thesis using step(3) idle [of r] by simp
    next
      case (dma i d)
      then show ?thesis using step(3) dma_keeps(1) [of r d i] by simp
    qed
  qed
  then show ?thesis using refuse idle by blast
qed

theorem tx_ring_full_is_stuck_witness:
  "\<exists>st. tx_reachable st \<and> sAvaliableSize st = 0 \<and> releaseTxBuffers st = Some st \<and>
     fst (lowLevelOutput one_buffer 0x30000400 7 st) = ERR_IF"
proof -
  obtain st where st: "tx_reachable st" "unat (sAvaliableSize st) = 0"
    using tx_reachable_with [of 4] by auto
  then have "tx_inv st" and "sAvaliableSize st = 0"
    using tx_reachable_keeps by (auto simp: word_unat_eq_iff)
  from tx_ring_full_is_stuck [OF this rtranclp.rtrancl_refl, of 7 one_buffer "0x30000400"]
  show ?thesis using st(1) by auto
qed

end
