(* ===== verification/Eth_Rx.thy ===== *)
theory Eth_Rx
  imports Eth_Tx
begin

text \<open>
  The receive side of the Ethernet driver, \<open>src/stm32h7/Ethernetif.cpp\<close>: the two callbacks by which
  the HAL asks for a buffer and chains a received one, the free function of such a buffer, and the
  loop that passes received packets to lwIP. The pool of buffers, the HAL and lwIP's input function
  are the fields of \<open>rx_env\<close> over a world \<open>'w\<close>.
\<close>

section \<open>Model\<close>

definition ETH_RX_BUFFER_SIZE :: u16 where "ETH_RX_BUFFER_SIZE = 1000"

definition ETH_RX_BUFFER_CNT :: nat where "ETH_RX_BUFFER_CNT = 12"

text \<open>What the driver asks the HAL's cache functions and lwIP to do, in order.\<close>

datatype rx_call = AllocedCustom ptr ptr u16 | InvalidateDCache ptr u16 | Input ptr err_t | FreePbuf ptr

record eth_rx =
  rx_heap :: heap
  custom_free :: "ptr \<Rightarrow> bool"
  sRxBuffersAvailable :: bool
  rx_calls :: "rx_call list"

text \<open>
  \<open>mempool_alloc\<close> and \<open>mempool_free\<close> work on \<open>RX_POOL\<close>. The functions that can call back into the
  driver take and return its state: \<open>ReadData\<close> allocates and chains buffers, \<open>netif_input\<close> and
  \<open>rx_pbuf_free\<close> may free one.
\<close>

record 'w rx_env =
  mempool_alloc :: "'w \<Rightarrow> ptr \<times> 'w"
  mempool_free :: "ptr \<Rightarrow> 'w \<Rightarrow> 'w"
  HAL_ETH_ReadData :: "eth_rx \<times> 'w \<Rightarrow> ptr \<times> eth_rx \<times> 'w"
  netif_input :: "ptr \<Rightarrow> eth_rx \<times> 'w \<Rightarrow> err_t \<times> eth_rx \<times> 'w"
  rx_pbuf_free :: "ptr \<Rightarrow> eth_rx \<times> 'w \<Rightarrow> eth_rx \<times> 'w"

definition rx_emit :: "rx_call list \<Rightarrow> eth_rx \<Rightarrow> eth_rx" where
  "rx_emit cs s = s\<lparr>rx_calls := rx_calls s @ cs\<rparr>"

text \<open>\<open>off\<close> is \<open>offsetof(RxBuff_t, buff)\<close>, which depends on the layout of lwIP's \<open>struct pbuf_custom\<close>.\<close>

definition HAL_ETH_RxAllocateCallback ::
  "'w rx_env \<Rightarrow> u32 \<Rightarrow> eth_rx \<times> 'w \<Rightarrow> ptr \<times> eth_rx \<times> 'w" where
  "HAL_ETH_RxAllocateCallback env off = (\<lambda>(s, w).
     let (p, w) = mempool_alloc env w in
     if p \<noteq> 0 then
       let buff = p + off;
         s = s\<lparr>custom_free := (custom_free s)(p := True)\<rparr>
       in (buff, rx_emit [AllocedCustom p buff ETH_RX_BUFFER_SIZE] s, w)
     else (0, s\<lparr>sRxBuffersAvailable := False\<rparr>, w))"

definition pbuf_free_custom :: "'w rx_env \<Rightarrow> ptr \<Rightarrow> eth_rx \<times> 'w \<Rightarrow> eth_rx \<times> 'w" where
  "pbuf_free_custom env p = (\<lambda>(s, w).
     let w = mempool_free env p w in
     if \<not> sRxBuffersAvailable s then (s\<lparr>sRxBuffersAvailable := True\<rparr>, w) else (s, w))"

text \<open>The loop over the chain that adds the new length to every buffer.\<close>

partial_function (option) addLength :: "u16 \<Rightarrow> ptr \<Rightarrow> heap \<Rightarrow> heap option" where
  "addLength n p h =
     (if p = 0 then Some h
      else let h = h(p := (h p)\<lparr>p_tot_len := p_tot_len (h p) + n\<rparr>) in addLength n (p_next (h p)) h)"

definition HAL_ETH_RxLinkCallback ::
  "u32 \<Rightarrow> ptr \<Rightarrow> ptr \<Rightarrow> ptr \<Rightarrow> u16 \<Rightarrow> eth_rx \<Rightarrow> (ptr \<times> ptr \<times> eth_rx) option" where
  "HAL_ETH_RxLinkCallback off pStart pEnd buff Length s =
     (let p = buff - off;
        h = rx_heap s;
        h = h(p := (h p)\<lparr>p_next := 0, p_tot_len := 0, p_len := Length\<rparr>);
        (pStart, h) = (if pStart = 0 then (p, h) else (pStart, h(pEnd := (h pEnd)\<lparr>p_next := p\<rparr>)));
        pEnd = p
      in case addLength Length pStart h of
           None \<Rightarrow> None
         | Some h \<Rightarrow> Some (pStart, pEnd, rx_emit [InvalidateDCache buff Length] (s\<lparr>rx_heap := h\<rparr>)))"

definition low_level_input :: "'w rx_env \<Rightarrow> eth_rx \<times> 'w \<Rightarrow> ptr \<times> eth_rx \<times> 'w" where
  "low_level_input env = (\<lambda>(s, w).
     if sRxBuffersAvailable s then HAL_ETH_ReadData env (s, w) else (0, s, w))"

definition handle_packet :: "'w rx_env \<Rightarrow> ptr \<Rightarrow> eth_rx \<times> 'w \<Rightarrow> eth_rx \<times> 'w" where
  "handle_packet env p sw =
     (case netif_input env p sw of (err, s, w) \<Rightarrow>
        let s = rx_emit [Input p err] s in
        if err \<noteq> ERR_OK then rx_pbuf_free env p (rx_emit [FreePbuf p] s, w) else (s, w))"

partial_function (option) inputLoop :: "'w rx_env \<Rightarrow> eth_rx \<times> 'w \<Rightarrow> (eth_rx \<times> 'w) option" where
  "inputLoop env sw =
     (case low_level_input env sw of (p, sw1) \<Rightarrow>
        if p = 0 then Some sw1 else inputLoop env (handle_packet env p sw1))"

definition ethernetif_input ::
  "'w rx_env \<Rightarrow> eth_tx \<times> eth_rx \<times> 'w \<Rightarrow> (eth_tx \<times> eth_rx \<times> 'w) option" where
  "ethernetif_input env = (\<lambda>(tx, s, w).
     case releaseTxBuffers tx of
       None \<Rightarrow> None
     | Some tx \<Rightarrow> map_option (Pair tx) (inputLoop env (s, w)))"

section \<open>Chaining the buffers of a packet\<close>

text \<open>
  A packet as lwIP wants it: a chain of the buffers \<open>ps\<close> with the lengths \<open>ns\<close>, where each total
  length is that of the buffer and all that follow.
\<close>

definition packet :: "heap \<Rightarrow> ptr \<Rightarrow> (ptr \<times> u16) list \<Rightarrow> bool" where
  "packet h p bs \<longleftrightarrow> is_chain h p (map fst bs) \<and>
     (\<forall>i<length bs. p_len (h (fst (bs ! i))) = snd (bs ! i) \<and>
        p_tot_len (h (fst (bs ! i))) = sum_list (map snd (drop i bs)))"

lemma addLength_chain:
  assumes "is_chain h p ps"
  shows "addLength n p h = Some (\<lambda>q. if q \<in> set ps then (h q)\<lparr>p_tot_len := p_tot_len (h q) + n\<rparr> else h q)"
  using assms is_chain_distinct [OF assms]
proof (induction ps arbitrary: p h)
  case Nil
  then show ?case by (subst addLength.simps) simp
next
  case (Cons q qs)
  define h1 where "h1 = h(q := (h q)\<lparr>p_tot_len := p_tot_len (h q) + n\<rparr>)"
  have nxt: "p_next (h1 x) = p_next (h x)" for x by (simp add: h1_def)
  have "is_chain h1 (p_next (h1 q)) qs"
    using Cons.prems is_chain_cong [of qs h1 h] nxt by simp
  then have "addLength n (p_next (h1 q)) h1 =
      Some (\<lambda>x. if x \<in> set qs then (h1 x)\<lparr>p_tot_len := p_tot_len (h1 x) + n\<rparr> else h1 x)"
    using Cons.prems by (intro Cons.IH) auto
  moreover have "addLength n p h = addLength n (p_next (h1 q)) h1"
    using Cons.prems by (subst addLength.simps) (simp add: h1_def Let_def)
  ultimately show ?case
    using Cons.prems by (auto simp: h1_def fun_eq_iff)
qed

lemma link_chain:
  assumes "is_chain h p (qs @ [e])" and "b \<notin> set (qs @ [e])" and "b \<noteq> 0" and "p_next (h b) = 0"
  shows "is_chain (h(e := (h e)\<lparr>p_next := b\<rparr>)) p (qs @ [e, b])"
  using assms
proof (induction qs arbitrary: p)
  case (Cons q qs)
  have "q \<noteq> e" using is_chain_distinct [OF Cons.prems(1)] by auto
  then show ?case using Cons by auto
qed auto

lemma packet_single:
  assumes "b \<noteq> 0"
  shows "HAL_ETH_RxLinkCallback off 0 e (b + off) n s = Some (b, b, rx_emit [InvalidateDCache (b + off) n]
      (s\<lparr>rx_heap := (rx_heap s)(b := (rx_heap s b)\<lparr>p_next := 0, p_tot_len := n, p_len := n\<rparr>)\<rparr>))"
proof -
  let ?h = "(rx_heap s)(b := (rx_heap s b)\<lparr>p_next := 0, p_tot_len := 0, p_len := n\<rparr>)"
  have "is_chain ?h b [b]" using assms by simp
  from addLength_chain [OF this, of n]
  have "addLength n b ?h = Some ((rx_heap s)(b := (rx_heap s b)\<lparr>p_next := 0, p_tot_len := n, p_len := n\<rparr>))"
    by (auto simp: fun_eq_iff)
  then show ?thesis by (simp add: HAL_ETH_RxLinkCallback_def Let_def)
qed

lemma packet_append:
  assumes pk: "packet (rx_heap s) p (bs @ [(e, m)])" and b: "b \<noteq> 0" "b \<notin> fst ` set (bs @ [(e, m)])"
  obtains s' where "HAL_ETH_RxLinkCallback off p e (b + off) n s = Some (p, b, s')"
    and "packet (rx_heap s') p (bs @ [(e, m), (b, n)])"
    and "\<And>q. q \<noteq> b \<Longrightarrow> q \<notin> fst ` set (bs @ [(e, m)]) \<Longrightarrow> rx_heap s' q = rx_heap s q"
proof -
  let ?h = "rx_heap s" and ?ps = "map fst bs @ [e, b]"
  define h1 where "h1 = ?h(b := (?h b)\<lparr>p_next := 0, p_tot_len := 0, p_len := n\<rparr>)"
  define h2 where "h2 = h1(e := (h1 e)\<lparr>p_next := b\<rparr>)"
  define h3 where "h3 = (\<lambda>q. if q \<in> set ?ps then (h2 q)\<lparr>p_tot_len := p_tot_len (h2 q) + n\<rparr> else h2 q)"
  have chain: "is_chain ?h p (map fst bs @ [e])" using pk by (simp add: packet_def)
  have b': "b \<notin> set (map fst bs @ [e])" using b(2) by auto
  have "is_chain h1 p (map fst bs @ [e]) = is_chain ?h p (map fst bs @ [e])"
    using b' by (intro is_chain_cong) (auto simp: h1_def)
  with chain have "is_chain h1 p (map fst bs @ [e])" by simp
  then have c2: "is_chain h2 p ?ps"
    unfolding h2_def using b' b(1) by (intro link_chain) (auto simp: h1_def)
  have "p \<noteq> 0" using chain by (cases bs) auto
  then have run: "HAL_ETH_RxLinkCallback off p e (b + off) n s =
      Some (p, b, rx_emit [InvalidateDCache (b + off) n] (s\<lparr>rx_heap := h3\<rparr>))"
  proof -
    have "HAL_ETH_RxLinkCallback off p e (b + off) n s = (case addLength n p h2 of None \<Rightarrow> None
        | Some h \<Rightarrow> Some (p, b, rx_emit [InvalidateDCache (b + off) n] (s\<lparr>rx_heap := h\<rparr>)))"
      using \<open>p \<noteq> 0\<close> by (simp add: HAL_ETH_RxLinkCallback_def Let_def h1_def h2_def)
    moreover have "addLength n p h2 = Some h3"
      unfolding h3_def by (rule addLength_chain [OF c2])
    ultimately show ?thesis by simp
  qed
  have nxt: "p_next (h3 q) = p_next (h2 q)" for q by (simp add: h3_def)
  have "is_chain h3 p ?ps" using c2 is_chain_cong [of ?ps h3 h2] nxt by blast
  moreover have d: "distinct ?ps" by (rule is_chain_distinct [OF c2])
  have old: "p_len (h3 q) = p_len (?h q)" "p_tot_len (h3 q) = p_tot_len (?h q) + n"
    if "q \<in> set (map fst bs @ [e])" for q
    using that d by (auto simp: h3_def h2_def h1_def)
  have new: "p_len (h3 b) = n" "p_tot_len (h3 b) = n"
    using d by (auto simp: h3_def h2_def h1_def)
  have "p_len (h3 (fst ((bs @ [(e, m), (b, n)]) ! i))) = snd ((bs @ [(e, m), (b, n)]) ! i) \<and>
      p_tot_len (h3 (fst ((bs @ [(e, m), (b, n)]) ! i))) = sum_list (map snd (drop i (bs @ [(e, m), (b, n)])))"
    if i: "i < length (bs @ [(e, m), (b, n)])" for i
  proof (cases "i < length (bs @ [(e, m)])")
    case True
    let ?q = "(bs @ [(e, m)]) ! i"
    have nth: "(bs @ [(e, m), (b, n)]) ! i = ?q" using True by (auto simp: nth_append)
    have "?q \<in> set (bs @ [(e, m)])" using True by (rule nth_mem)
    then have "fst ?q \<in> set (map fst bs @ [e])" by auto
    then show ?thesis
      using old pk True unfolding nth by (auto simp: packet_def)
  next
    case False
    then have "i = Suc (length bs)" using i by simp
    then show ?thesis using new by (simp add: nth_append)
  qed
  ultimately have "packet h3 p (bs @ [(e, m), (b, n)])" by (simp add: packet_def)
  moreover have "h3 q = ?h q" if "q \<noteq> b" "q \<notin> fst ` set (bs @ [(e, m)])" for q
    using that by (auto simp: h3_def h2_def h1_def)
  ultimately show thesis using that run by (simp add: rx_emit_def)
qed

text \<open>The HAL calls the callback once for every buffer of a frame, with no start at first.\<close>

fun linkFrame ::
  "u32 \<Rightarrow> ptr \<times> ptr \<times> eth_rx \<Rightarrow> (ptr \<times> u16) list \<Rightarrow> (ptr \<times> ptr \<times> eth_rx) option" where
  "linkFrame off (p, e, s) [] = Some (p, e, s)"
| "linkFrame off (p, e, s) ((b, n) # bs) =
     (case HAL_ETH_RxLinkCallback off p e (b + off) n s of None \<Rightarrow> None | Some r \<Rightarrow> linkFrame off r bs)"

lemma linkFrame_extends:
  assumes "packet (rx_heap s) p (bs @ [(e, m)])"
    and "distinct (map fst (bs @ [(e, m)] @ cs))" and "0 \<notin> fst ` set cs"
  shows "\<exists>s'. linkFrame off (p, e, s) cs = Some (p, fst (last ((e, m) # cs)), s') \<and>
    packet (rx_heap s') p (bs @ [(e, m)] @ cs)"
  using assms
proof (induction cs arbitrary: bs e m s)
  case (Cons c cs)
  obtain b n where c: "c = (b, n)" by (cases c)
  have "b \<noteq> 0" "b \<notin> fst ` set (bs @ [(e, m)])" using Cons.prems c by auto
  then obtain s1 where s1: "HAL_ETH_RxLinkCallback off p e (b + off) n s = Some (p, b, s1)"
    "packet (rx_heap s1) p ((bs @ [(e, m)]) @ [(b, n)])"
    using packet_append [OF Cons.prems(1), of b off n] by (metis append_Cons append_Nil append_assoc)
  have "\<exists>s'. linkFrame off (p, b, s1) cs = Some (p, fst (last ((b, n) # cs)), s') \<and>
      packet (rx_heap s') p ((bs @ [(e, m)]) @ [(b, n)] @ cs)"
    using Cons.prems c by (intro Cons.IH [OF s1(2)]) auto
  then show ?case using s1(1) c by simp
qed simp

section \<open>The input loop\<close>

text \<open>The packets that are there, one after the other, and what is left when they are handled.\<close>

inductive drains :: "'w rx_env \<Rightarrow> eth_rx \<times> 'w \<Rightarrow> eth_rx \<times> 'w \<Rightarrow> bool" for env where
  empty: "low_level_input env sw = (0, sw') \<Longrightarrow> drains env sw sw'"
| packet: "low_level_input env sw = (p, sw1) \<Longrightarrow> p \<noteq> 0 \<Longrightarrow>
    drains env (handle_packet env p sw1) sw' \<Longrightarrow> drains env sw sw'"

lemma inputLoop_drains: "drains env sw sw' \<Longrightarrow> inputLoop env sw = Some sw'"
  by (induction rule: drains.induct) (subst inputLoop.simps; simp)+

lemma inputLoop_only_drains:
  assumes "inputLoop env sw = Some sw'" shows "drains env sw sw'"
proof (rule inputLoop.raw_induct [where P = "\<lambda>env sw sw'. drains env sw sw'", OF _ assms])
  fix f :: "'a rx_env \<Rightarrow> eth_rx \<times> 'a \<Rightarrow> (eth_rx \<times> 'a) option" and env :: "'a rx_env" and sw sw'
  assume IH: "\<And>env sw sw'. f env sw = Some sw' \<Longrightarrow> drains env sw sw'"
  assume run: "(case low_level_input env sw of (p, sw1) \<Rightarrow>
        if p = 0 then Some sw1 else f env (handle_packet env p sw1)) = Some sw'"
  obtain p sw1 where r: "low_level_input env sw = (p, sw1)" by (cases "low_level_input env sw")
  show "drains env sw sw'"
  proof (cases "p = 0")
    case True
    then show ?thesis using run r by (auto intro: drains.empty)
  next
    case False
    with run r have "f env (handle_packet env p sw1) = Some sw'" by simp
    then show ?thesis by (rule drains.packet [OF r False IH])
  qed
qed

text \<open>
  The HAL has only so many received packets: \<open>m\<close> bounds those still to come; reading a packet uses one up, and
  neither lwIP's input function nor freeing a buffer brings new ones. Then the loop comes to an end.
\<close>

definition finite_backlog :: "'w rx_env \<Rightarrow> ('w \<Rightarrow> nat) \<Rightarrow> bool" where
  "finite_backlog env m \<longleftrightarrow>
     (\<forall>s w. fst (HAL_ETH_ReadData env (s, w)) \<noteq> 0 \<longrightarrow> m (snd (snd (HAL_ETH_ReadData env (s, w)))) < m w) \<and>
     (\<forall>p s w. m (snd (snd (netif_input env p (s, w)))) \<le> m w) \<and>
     (\<forall>p s w. m (snd (rx_pbuf_free env p (s, w))) \<le> m w)"

lemma handle_packet_backlog:
  assumes "finite_backlog env m"
  shows "m (snd (handle_packet env p (s, w))) \<le> m w"
proof -
  obtain err s1 w1 where i: "netif_input env p (s, w) = (err, s1, w1)" by (metis prod.collapse)
  have "m w1 \<le> m w" using assms i by (metis finite_backlog_def snd_conv)
  moreover have "m (snd (rx_pbuf_free env p (x, w1))) \<le> m w1" for x using assms by (simp add: finite_backlog_def)
  ultimately show ?thesis using order_trans by (auto simp: handle_packet_def i Let_def)
qed

lemma backlog_drains:
  assumes "finite_backlog env m"
  shows "\<exists>sw'. drains env (s, w) sw'"
proof (induction "m w" arbitrary: s w rule: less_induct)
  case less
  obtain p s1 w1 where r: "low_level_input env (s, w) = (p, s1, w1)" by (metis prod.collapse)
  show ?case
  proof (cases "p = 0")
    case True
    then show ?thesis using r by (auto intro: drains.empty)
  next
    case False
    then have "HAL_ETH_ReadData env (s, w) = (p, s1, w1)" using r by (auto simp: low_level_input_def split: if_splits)
    then have "m w1 < m w" using assms False by (metis finite_backlog_def fst_conv snd_conv)
    then have "m (snd (handle_packet env p (s1, w1))) < m w"
      using handle_packet_backlog [OF assms, of p s1 w1] by simp
    from less [OF this] obtain sw' where "drains env (handle_packet env p (s1, w1)) sw'" by (metis prod.collapse)
    then show ?thesis using drains.packet [OF r False] by blast
  qed
qed

text \<open>
  A watched interface: the same functions, with the calls that the driver makes written down beside the
  world, and what they return.
\<close>

datatype rx_event = ReadPacket ptr | Passed ptr err_t | Freed ptr

definition watched :: "'w rx_env \<Rightarrow> ('w \<times> rx_event list) rx_env" where
  "watched env = \<lparr>
     mempool_alloc = (\<lambda>(w, l). let (p, w) = mempool_alloc env w in (p, w, l)),
     mempool_free = (\<lambda>p (w, l). (mempool_free env p w, l)),
     HAL_ETH_ReadData = (\<lambda>(s, w, l). let (p, s, w) = HAL_ETH_ReadData env (s, w) in (p, s, w, l @ [ReadPacket p])),
     netif_input = (\<lambda>p (s, w, l). let (e, s, w) = netif_input env p (s, w) in (e, s, w, l @ [Passed p e])),
     rx_pbuf_free = (\<lambda>p (s, w, l). let (s, w) = rx_pbuf_free env p (s, w) in (s, w, l @ [Freed p]))\<rparr>"

text \<open>What one packet is to lead to, given lwIP's answer.\<close>

definition once :: "ptr \<times> err_t \<Rightarrow> rx_event list" where
  "once pe = [ReadPacket (fst pe), Passed (fst pe) (snd pe)] @ (if snd pe = ERR_OK then [] else [Freed (fst pe)])"

lemma low_level_input_watched:
  "low_level_input env (s, w) = (p, s1, w1) \<Longrightarrow> low_level_input (watched env) (s, w, l) =
    (p, s1, w1, l @ (if sRxBuffersAvailable s then [ReadPacket p] else []))"
  by (auto simp: low_level_input_def watched_def)

lemma handle_packet_watched:
  assumes "handle_packet env p (s, w) = (s1, w1)"
  shows "\<exists>e. handle_packet (watched env) p (s, w, l @ [ReadPacket p]) = (s1, w1, l @ once (p, e))"
proof -
  obtain e s2 w2 where i: "netif_input env p (s, w) = (e, s2, w2)" by (metis prod.collapse)
  then show ?thesis
    using assms by (intro exI [of _ e]) (auto simp: handle_packet_def watched_def once_def Let_def split: if_splits)
qed

lemma drains_watched:
  assumes "drains env sw sw'"
  shows "\<exists>pes. 0 \<notin> fst ` set pes \<and> drains (watched env) (fst sw, snd sw, l) (fst sw', snd sw',
    l @ concat (map once pes) @ [ReadPacket 0]) \<or> 0 \<notin> fst ` set pes \<and> \<not> sRxBuffersAvailable (fst sw') \<and>
    drains (watched env) (fst sw, snd sw, l) (fst sw', snd sw', l @ concat (map once pes))"
  using assms
proof (induction arbitrary: l rule: drains.induct)
  case (empty sw sw')
  obtain s w s' w' where sw: "sw = (s, w)" "sw' = (s', w')" by fastforce
  then have "low_level_input (watched env) (s, w, l) =
      (0, s', w', l @ (if sRxBuffersAvailable s then [ReadPacket 0] else []))"
    using low_level_input_watched [of env s w 0 s' w' l] empty by simp
  from drains.empty [OF this] have d: "drains (watched env) (s, w, l)
      (s', w', l @ (if sRxBuffersAvailable s then [ReadPacket 0] else []))" .
  have "\<not> sRxBuffersAvailable s \<Longrightarrow> s' = s" using empty sw by (simp add: low_level_input_def)
  with d show ?case unfolding sw by (intro exI [of _ "[]"]) (auto split: if_splits)
next
  case (packet sw p sw1 sw')
  obtain s w s1 w1 s2 w2 where sw: "sw = (s, w)" "sw1 = (s1, w1)" "handle_packet env p (s1, w1) = (s2, w2)"
    by fastforce
  have "sRxBuffersAvailable s" using packet.hyps sw by (auto simp: low_level_input_def split: if_splits)
  then have r: "low_level_input (watched env) (s, w, l) = (p, s1, w1, l @ [ReadPacket p])"
    using low_level_input_watched packet.hyps(1) sw by fastforce
  obtain e where h: "handle_packet (watched env) p (s1, w1, l @ [ReadPacket p]) = (s2, w2, l @ once (p, e))"
    using handle_packet_watched [OF sw(3)] by blast
  note step = drains.packet [OF r packet.hyps(2), unfolded h]
  from packet.IH [of "l @ once (p, e)"] obtain pes where
    "0 \<notin> fst ` set pes" "drains (watched env) (s2, w2, l @ once (p, e)) (fst sw', snd sw',
      (l @ once (p, e)) @ concat (map once pes) @ [ReadPacket 0]) \<or> \<not> sRxBuffersAvailable (fst sw') \<and>
      drains (watched env) (s2, w2, l @ once (p, e)) (fst sw', snd sw', (l @ once (p, e)) @ concat (map once pes))"
    unfolding sw by auto
  then show ?case using step packet.hyps(2) unfolding sw by (intro exI [of _ "(p, e) # pes"]) auto
qed

section \<open>The pool of receive buffers\<close>

text \<open>
  What lwIP documents about a memory pool: \<open>avail\<close> counts the free elements, an allocation fails exactly when
  there is none, and nothing but the two functions concerns the pool.
\<close>

definition pool_laws :: "'w rx_env \<Rightarrow> ('w \<Rightarrow> nat) \<Rightarrow> bool" where
  "pool_laws env avail \<longleftrightarrow>
     (\<forall>w. if avail w = 0 then fst (mempool_alloc env w) = 0 \<and> avail (snd (mempool_alloc env w)) = 0
          else fst (mempool_alloc env w) \<noteq> 0 \<and> avail (snd (mempool_alloc env w)) = avail w - 1) \<and>
     (\<forall>p w. avail (mempool_free env p w) = avail w + 1)"

text \<open>
  What the HAL and lwIP do with the driver: ask for a buffer, report a received one, free one, or something
  else that does not concern the pool. The number is that of the buffers that are out.
\<close>

inductive rx_run ::
  "'w rx_env \<Rightarrow> ('w \<Rightarrow> nat) \<Rightarrow> eth_rx \<times> 'w \<Rightarrow> nat \<Rightarrow> eth_rx \<times> 'w \<Rightarrow> bool" for env avail sw0 where
  start: "rx_run env avail sw0 0 sw0"
| allocated: "rx_run env avail sw0 n sw \<Longrightarrow> HAL_ETH_RxAllocateCallback env off sw = (b, sw') \<Longrightarrow>
    rx_run env avail sw0 (if fst (mempool_alloc env (snd sw)) = 0 then n else Suc n) sw'"
| linked: "rx_run env avail sw0 n (s, w) \<Longrightarrow> HAL_ETH_RxLinkCallback off b e buff len s = Some (b', e', s') \<Longrightarrow>
    rx_run env avail sw0 n (s', w)"
| freed: "rx_run env avail sw0 (Suc n) sw \<Longrightarrow> rx_run env avail sw0 n (pbuf_free_custom env p sw)"
| outside: "rx_run env avail sw0 n (s, w) \<Longrightarrow> avail w' = avail w \<Longrightarrow> rx_run env avail sw0 n (s, w')"

lemma link_keeps_flag:
  "HAL_ETH_RxLinkCallback off b e buff len s = Some (b', e', s') \<Longrightarrow> sRxBuffersAvailable s' = sRxBuffersAvailable s"
  by (auto simp: HAL_ETH_RxLinkCallback_def rx_emit_def Let_def split: option.splits if_splits)

lemma rx_run_pool:
  assumes "rx_run env avail sw0 n sw" and "pool_laws env avail" and "sRxBuffersAvailable (fst sw0)"
  shows "avail (snd sw) + n = avail (snd sw0) \<and> (sRxBuffersAvailable (fst sw) \<or> avail (snd sw) = 0)"
  using assms
proof (induction rule: rx_run.induct)
  case (allocated n sw off b sw')
  obtain s w p w1 where sw: "sw = (s, w)" and a: "mempool_alloc env w = (p, w1)" by fastforce
  have "if avail w = 0 then p = 0 \<and> avail w1 = 0 else p \<noteq> 0 \<and> avail w1 = avail w - 1"
    using allocated.prems(1) a by (metis pool_laws_def fst_conv snd_conv)
  then show ?case
    using allocated by (auto simp: sw a HAL_ETH_RxAllocateCallback_def rx_emit_def Let_def split: if_splits)
next
  case (freed n sw p)
  then show ?case by (cases sw) (auto simp: pbuf_free_custom_def pool_laws_def Let_def)
qed (auto dest: link_keeps_flag)

section \<open>An example\<close>

definition rx_start :: eth_rx where
  "rx_start = \<lparr>rx_heap = (\<lambda>q. \<lparr>p_next = 9, p_payload = 0, p_tot_len = 9, p_len = 9\<rparr>),
     custom_free = (\<lambda>p. False), sRxBuffersAvailable = True, rx_calls = []\<rparr>"

text \<open>A HAL with a list of packets that are ready; lwIP takes the even ones.\<close>

definition rx_script :: "ptr list rx_env" where
  "rx_script = \<lparr>mempool_alloc = Pair 0, mempool_free = (\<lambda>p w. w),
     HAL_ETH_ReadData = (\<lambda>(s, w). case w of [] \<Rightarrow> (0, s, []) | p # ps \<Rightarrow> (p, s, ps)),
     netif_input = (\<lambda>p (s, w). (if even (unat p) then ERR_OK else ERR_MEM, s, w)),
     rx_pbuf_free = (\<lambda>p (s, w). (s, w))\<rparr>"

section \<open>Properties\<close>

text \<open>
  C9. Chaining: when the HAL reports the buffers of a frame one by one, the result is a chain of
  exactly these buffers in their order, each with its own length and, as lwIP requires, the sum of
  its length and those of all that follow; the start is the first buffer and the end the last.
\<close>

theorem frame_is_packet:
  assumes "bs \<noteq> []" and "distinct (map fst bs)" and "0 \<notin> fst ` set bs"
  shows "\<exists>s'. linkFrame off (0, e, s) bs = Some (fst (hd bs), fst (last bs), s') \<and>
    packet (rx_heap s') (fst (hd bs)) bs"
proof -
  obtain b n cs where bs: "bs = (b, n) # cs" using assms(1) by (metis list.exhaust surj_pair)
  let ?s = "rx_emit [InvalidateDCache (b + off) n]
      (s\<lparr>rx_heap := (rx_heap s)(b := (rx_heap s b)\<lparr>p_next := 0, p_tot_len := n, p_len := n\<rparr>)\<rparr>)"
  have b: "b \<noteq> 0" using assms(3) bs by auto
  have first: "HAL_ETH_RxLinkCallback off 0 e (b + off) n s = Some (b, b, ?s)"
    by (rule packet_single [OF b])
  have "packet (rx_heap ?s) b ([] @ [(b, n)])" using b by (simp add: packet_def rx_emit_def)
  from linkFrame_extends [OF this, of cs off] assms(2,3)
  show ?thesis by (auto simp: bs first)
qed

theorem frame_is_packet_witness:
  "\<exists>s'. linkFrame 64 (0, 0, rx_start) [(0x100, 1000), (0x200, 460)] = Some (0x100, 0x200, s') \<and>
    p_tot_len (rx_heap s' 0x100) = 1460 \<and> p_tot_len (rx_heap s' 0x200) = 460"
  using frame_is_packet [of "[(0x100, 1000), (0x200, 460)]" 64 0 rx_start]
  by (auto simp: packet_def less_Suc_eq)

text \<open>
  C32. The input loop deals with every packet exactly once. If it returns, the calls that it made are these,
  seen through the watched interface: for each packet that \<open>HAL_ETH_ReadData\<close> returned, one call of lwIP's
  input function, and freeing the packet if and only if lwIP did not accept it, before the next packet is
  read; at the end \<open>HAL_ETH_ReadData\<close> reported that there is none, or was not asked because the
  buffers had run out. And the loop returns as soon as the HAL has no more packets: it does not go on for
  ever when the backlog of packets is finite.
\<close>

theorem input_handles_each_once:
  "(\<forall>s' w'. inputLoop env (s, w) = Some (s', w') \<longrightarrow> (\<exists>pes tr. 0 \<notin> fst ` set pes \<and>
      inputLoop (watched env) (s, w, l) = Some (s', w', l @ concat (map once pes) @ tr) \<and>
      (tr = [ReadPacket 0] \<or> tr = [] \<and> \<not> sRxBuffersAvailable s'))) \<and>
    (finite_backlog env m \<longrightarrow> (\<exists>s' w'. inputLoop env (s, w) = Some (s', w')))"
proof (intro conjI allI impI)
  fix s' w' assume "inputLoop env (s, w) = Some (s', w')"
  from drains_watched [OF inputLoop_only_drains [OF this], of l]
  obtain pes where "0 \<notin> fst ` set pes" and "drains (watched env) (s, w, l) (s', w', l @ concat (map once pes) @ [ReadPacket 0])
      \<or> \<not> sRxBuffersAvailable s' \<and> drains (watched env) (s, w, l) (s', w', l @ concat (map once pes) @ [])"
    by auto
  then show "\<exists>pes tr. 0 \<notin> fst ` set pes \<and> inputLoop (watched env) (s, w, l) = Some (s', w', l @ concat (map once pes) @ tr) \<and>
      (tr = [ReadPacket 0] \<or> tr = [] \<and> \<not> sRxBuffersAvailable s')"
    using inputLoop_drains by blast
next
  assume "finite_backlog env m"
  then show "\<exists>s' w'. inputLoop env (s, w) = Some (s', w')"
    using backlog_drains inputLoop_drains by (metis prod.collapse)
qed

theorem input_handles_each_once_witness:
  "\<exists>s' w' pes tr. inputLoop (watched rx_script) (rx_start, [2, 3], []) = Some (s', w', concat (map once pes) @ tr) \<and>
    0 \<notin> fst ` set pes \<and> (tr = [ReadPacket 0] \<or> tr = [] \<and> \<not> sRxBuffersAvailable s')"
proof -
  have "finite_backlog rx_script length"
    by (simp add: finite_backlog_def rx_script_def split: list.splits)
  then obtain s' w' where "inputLoop rx_script (rx_start, [2, 3]) = Some (s', w')"
    using input_handles_each_once [of rx_script rx_start "[2, 3]" "[]" length] by blast
  then show ?thesis
    using input_handles_each_once [of rx_script rx_start "[2, 3]" "[]" length] unfolding append_Nil by blast
qed

text \<open>
  C19. Reception never stalls while there is a buffer: in every run of allocations, received frames and
  frees, in any order, the driver stops reading only while the pool is empty, and no buffer is lost, the free
  ones and those that are out are always as many as at the start.
\<close>

theorem reception_never_stalls:
  assumes "pool_laws env avail" and "sRxBuffersAvailable s0" and "rx_run env avail (s0, w0) n (s, w)"
  shows "avail w + n = avail w0 \<and> (0 < avail w \<longrightarrow> low_level_input env (s, w) = HAL_ETH_ReadData env (s, w))"
  using rx_run_pool [OF assms(3,1)] assms(2) by (auto simp: low_level_input_def)

text \<open>A pool that is only counted, all its buffers at the same address.\<close>

definition counted_pool :: "nat rx_env" where
  "counted_pool = \<lparr>mempool_alloc = (\<lambda>w. if w = 0 then (0, 0) else (0x200, w - 1)),
     mempool_free = (\<lambda>p w. w + 1), HAL_ETH_ReadData = (\<lambda>sw. (7, sw)),
     netif_input = (\<lambda>p. Pair ERR_OK), rx_pbuf_free = (\<lambda>p sw. sw)\<rparr>"

lemma counted_pool_laws: "pool_laws counted_pool (\<lambda>w. w)"
  by (simp add: pool_laws_def counted_pool_def)

lemma counted_pool_steps:
  "HAL_ETH_RxAllocateCallback counted_pool 64 (s, 0) = (0, s\<lparr>sRxBuffersAvailable := False\<rparr>, 0)"
  "HAL_ETH_RxAllocateCallback counted_pool 64 (s, Suc n) = (0x240,
     s\<lparr>custom_free := (custom_free s)(0x200 := True), rx_calls := rx_calls s @ [AllocedCustom 0x200 0x240 1000]\<rparr>, n)"
  "pbuf_free_custom counted_pool p (s, n) = (s\<lparr>sRxBuffersAvailable := True\<rparr>, Suc n)"
  by (simp_all add: HAL_ETH_RxAllocateCallback_def pbuf_free_custom_def counted_pool_def rx_emit_def
      ETH_RX_BUFFER_SIZE_def Let_def)

text \<open>One buffer: it is handed out, the next request fails, the buffer is freed, and reception goes on.\<close>

theorem reception_never_stalls_witness:
  "\<exists>s. rx_run counted_pool (\<lambda>w. w) (rx_start, 1) 0 (s, 1) \<and>
    rx_calls s = [AllocedCustom 0x200 0x240 1000] \<and> low_level_input counted_pool (s, 1) = (7, s, 1)"
proof -
  let ?s1 = "rx_start\<lparr>custom_free := (custom_free rx_start)(0x200 := True),
    rx_calls := rx_calls rx_start @ [AllocedCustom 0x200 0x240 1000]\<rparr>"
  let ?s2 = "?s1\<lparr>sRxBuffersAvailable := False\<rparr>" and ?s3 = "?s1\<lparr>sRxBuffersAvailable := True\<rparr>"
  have "rx_run counted_pool (\<lambda>w. w) (rx_start, Suc 0) (Suc 0) (?s1, 0)"
    using rx_run.allocated [OF rx_run.start counted_pool_steps(2)] by (simp add: counted_pool_def)
  from rx_run.allocated [OF this counted_pool_steps(1)]
  have "rx_run counted_pool (\<lambda>w. w) (rx_start, Suc 0) (Suc 0) (?s2, 0)" by (simp add: counted_pool_def)
  from rx_run.freed [OF this, where p = "0x200"]
  have 3: "rx_run counted_pool (\<lambda>w. w) (rx_start, 1) 0 (?s3, 1)" by (simp add: counted_pool_steps)
  have "low_level_input counted_pool (?s3, 1) = HAL_ETH_ReadData counted_pool (?s3, 1)"
    using reception_never_stalls [OF counted_pool_laws _ 3] by (simp add: rx_start_def)
  then show ?thesis using 3 by (intro exI [of _ ?s3]) (simp add: counted_pool_def rx_start_def)
qed

text \<open>
  Running out of buffers is not for ever: a failed allocation gives the HAL a null buffer and stops
  the driver from reading, without asking the HAL again, until one buffer has been freed.
\<close>

theorem allocation_backpressure:
  assumes "fst (mempool_alloc env w) = 0"
  shows "\<exists>s' w'. HAL_ETH_RxAllocateCallback env off (s, w) = (0, s', w') \<and>
    low_level_input env (s', w2) = (0, s', w2) \<and>
    low_level_input env (pbuf_free_custom env p (s', w2)) =
      HAL_ETH_ReadData env (s'\<lparr>sRxBuffersAvailable := True\<rparr>, mempool_free env p w2)"
  using assms
  by (auto simp: HAL_ETH_RxAllocateCallback_def low_level_input_def pbuf_free_custom_def split: prod.splits)

theorem allocation_backpressure_witness:
  "\<exists>s' w'. HAL_ETH_RxAllocateCallback rx_script 64 (rx_start, [2, 3]) = (0, s', w') \<and>
    low_level_input rx_script (s', [2, 3]) = (0, s', [2, 3])"
  using allocation_backpressure [of rx_script "[2, 3]" 64 rx_start "[2, 3]" 0]
  by (auto simp: rx_script_def)

end
