(* ===== verification/Lan_Phy.thy ===== *)
theory Lan_Phy
  imports Lwip_Prelude
begin

text \<open>
  The driver of the Ethernet PHY, \<open>include/lwipserver/drivers/Lan8742.h\<close>: finding the device on the
  management bus, the software reset with its timeout, and reading the state of the link. The
  template parameters \<open>Eth\<close> and \<open>Base\<close> are the fields of \<open>phy_env\<close>, over a world \<open>'w\<close> that holds the
  registers and the clock. A reset loop that never ends is \<open>None\<close>.
\<close>

section \<open>Model\<close>

definition sInitializationWaitTime_ms :: u32 where "sInitializationWaitTime_ms = 2000"
definition sMaxDevAddr :: u32 where "sMaxDevAddr = 31"
definition sResetTimeout_ms :: u32 where "sResetTimeout_ms = 500"

definition sAddr_BCR :: u32 where "sAddr_BCR = 0x00"
definition sAddr_BSR :: u32 where "sAddr_BSR = 0x01"
definition sAddr_SMR :: u32 where "sAddr_SMR = 0x12"
definition sAddr_PHYSCSR :: u32 where "sAddr_PHYSCSR = 0x1F"

definition sMask_BCR_SOFTRESET :: u32 where "sMask_BCR_SOFTRESET = 0x8000"
definition sMask_BCR_SPEED_SELECT :: u32 where "sMask_BCR_SPEED_SELECT = 0x2000"
definition sMask_BCR_AUTONEGO_EN :: u32 where "sMask_BCR_AUTONEGO_EN = 0x1000"
definition sMask_BCR_DUPLEX_MODE :: u32 where "sMask_BCR_DUPLEX_MODE = 0x0100"
definition sMask_BSR_LINK_STATUS :: u32 where "sMask_BSR_LINK_STATUS = 0x0004"
definition sMask_SMR_PHYSADDR :: u32 where "sMask_SMR_PHYSADDR = 0x1F"
definition sMask_PHYSCSR_AUTONEGO_DONE :: u32 where "sMask_PHYSCSR_AUTONEGO_DONE = 0x1000"
definition sMask_PHYSCSR_HCDSPEEDMASK :: u32 where "sMask_PHYSCSR_HCDSPEEDMASK = 0x001C"
definition sMask_PHYSCSR_10BT_HD :: u32 where "sMask_PHYSCSR_10BT_HD = 0x0004"
definition sMask_PHYSCSR_10BT_FD :: u32 where "sMask_PHYSCSR_10BT_FD = 0x0014"
definition sMask_PHYSCSR_100BTX_HD :: u32 where "sMask_PHYSCSR_100BTX_HD = 0x0008"
definition sMask_PHYSCSR_100BTX_FD :: u32 where "sMask_PHYSCSR_100BTX_FD = 0x0018"

lemmas phy_consts = sInitializationWaitTime_ms_def sMaxDevAddr_def sResetTimeout_ms_def
  sAddr_BCR_def sAddr_BSR_def sAddr_SMR_def sAddr_PHYSCSR_def sMask_BCR_SOFTRESET_def
  sMask_BCR_SPEED_SELECT_def sMask_BCR_AUTONEGO_EN_def sMask_BCR_DUPLEX_MODE_def
  sMask_BSR_LINK_STATUS_def sMask_SMR_PHYSADDR_def sMask_PHYSCSR_AUTONEGO_DONE_def
  sMask_PHYSCSR_HCDSPEEDMASK_def sMask_PHYSCSR_10BT_HD_def sMask_PHYSCSR_10BT_FD_def
  sMask_PHYSCSR_100BTX_HD_def sMask_PHYSCSR_100BTX_FD_def

datatype Status = Ok | ReadError | WriteError | AddressError | ResetTimeout | LinkDown
  | AutonegoNotDone | FullDuplex100Mbit | HalfDuplex100Mbit | FullDuplex10Mbit | HalfDuplex10Mbit

record 'w phy_env =
  readReg :: "u32 \<Rightarrow> u32 \<Rightarrow> 'w \<Rightarrow> (bool \<times> u32) \<times> 'w"
  writeReg :: "u32 \<Rightarrow> u32 \<Rightarrow> u32 \<Rightarrow> 'w \<Rightarrow> bool \<times> 'w"
  tick :: "'w \<Rightarrow> u32 \<times> 'w"
  wait :: "u32 \<Rightarrow> 'w \<Rightarrow> 'w"

record Lan8742 = mDevAddr :: u32

text \<open>The search loop, from \<open>addr\<close> on: the address found, or \<open>None\<close> for \<open>AddressError\<close>.\<close>

function findDevice :: "'w phy_env \<Rightarrow> u32 \<Rightarrow> 'w \<Rightarrow> u32 option \<times> 'w" where
  "findDevice env addr w =
     (if addr \<le> sMaxDevAddr then
        let ((ok, val), w) = readReg env addr sAddr_SMR w in
        if ok \<and> val AND sMask_SMR_PHYSADDR = addr then (Some addr, w)
        else if addr = sMaxDevAddr then (None, w)
        else findDevice env (addr + 1) w
      else (None, w))"
  by pat_completeness auto
termination
proof (relation "measure (\<lambda>(env, addr, w). 32 - unat addr)", goal_cases)
  case (2 env addr w)
  then have "unat addr < 31"
    by (auto simp: sMaxDevAddr_def word_le_nat_alt word_unat_eq_iff)
  then show ?case by (simp add: unat_word_ariths)
qed simp

declare findDevice.simps [simp del]

text \<open>The loop that waits for the reset bit to clear; \<open>Ok\<close> is leaving it with \<open>break\<close>.\<close>

partial_function (option) awaitReset :: "'w phy_env \<Rightarrow> u32 \<Rightarrow> u32 \<Rightarrow> 'w \<Rightarrow> (Status \<times> 'w) option" where
  "awaitReset env dev timeoutStart w =
     (case readReg env dev sAddr_BCR w of ((ok, val), w1) \<Rightarrow>
        if \<not> ok then Some (ReadError, w1)
        else if val AND sMask_BCR_SOFTRESET = 0 then Some (Ok, w1)
        else (case tick env w1 of (t, w2) \<Rightarrow>
           if sResetTimeout_ms < t - timeoutStart then Some (ResetTimeout, w2)
           else awaitReset env dev timeoutStart w2))"

definition Lan8742_init :: "'w phy_env \<Rightarrow> Lan8742 \<times> 'w \<Rightarrow> (Status \<times> Lan8742 \<times> 'w) option" where
  "Lan8742_init env = (\<lambda>(p, w).
     case findDevice env 0 w of
       (None, w) \<Rightarrow> Some (AddressError, p, w)
     | (Some addr, w) \<Rightarrow>
         let p = p\<lparr>mDevAddr := addr\<rparr>;
           (ok, w) = writeReg env (mDevAddr p) sAddr_BCR sMask_BCR_SOFTRESET w
         in if \<not> ok then Some (WriteError, p, w)
         else let (timeoutStart, w) = tick env w in
           (case awaitReset env (mDevAddr p) timeoutStart w of
              None \<Rightarrow> None
            | Some (st, w) \<Rightarrow>
                if st = Ok then Some (Ok, p, wait env sInitializationWaitTime_ms w)
                else Some (st, p, w)))"

definition getLinkState :: "'w phy_env \<Rightarrow> Lan8742 \<times> 'w \<Rightarrow> Status \<times> 'w" where
  "getLinkState env = (\<lambda>(p, w).
     let ((ok1, bsr), w) = readReg env (mDevAddr p) sAddr_BSR w in
     if \<not> ok1 then (ReadError, w)
     else if bsr AND sMask_BSR_LINK_STATUS = 0 then (LinkDown, w)
     else
       let ((ok2, bcr), w) = readReg env (mDevAddr p) sAddr_BCR w in
       if \<not> ok2 then (ReadError, w)
       else if bcr AND sMask_BCR_AUTONEGO_EN \<noteq> sMask_BCR_AUTONEGO_EN then
         if bcr AND sMask_BCR_SPEED_SELECT = sMask_BCR_SPEED_SELECT \<and>
            bcr AND sMask_BCR_DUPLEX_MODE = sMask_BCR_DUPLEX_MODE then (FullDuplex100Mbit, w)
         else if bcr AND sMask_BCR_SPEED_SELECT = sMask_BCR_SPEED_SELECT then (HalfDuplex100Mbit, w)
         else if bcr AND sMask_BCR_DUPLEX_MODE = sMask_BCR_DUPLEX_MODE then (FullDuplex10Mbit, w)
         else (HalfDuplex10Mbit, w)
       else
         let ((ok3, physcsr), w) = readReg env (mDevAddr p) sAddr_PHYSCSR w in
         if \<not> ok3 then (ReadError, w)
         else if physcsr AND sMask_PHYSCSR_AUTONEGO_DONE = 0 then (AutonegoNotDone, w)
         else if physcsr AND sMask_PHYSCSR_HCDSPEEDMASK = sMask_PHYSCSR_100BTX_FD then (FullDuplex100Mbit, w)
         else if physcsr AND sMask_PHYSCSR_HCDSPEEDMASK = sMask_PHYSCSR_100BTX_HD then (HalfDuplex100Mbit, w)
         else if physcsr AND sMask_PHYSCSR_HCDSPEEDMASK = sMask_PHYSCSR_10BT_FD then (FullDuplex10Mbit, w)
         else (HalfDuplex10Mbit, w))"

section \<open>Finding the device\<close>

text \<open>A device answers at its address when the read succeeds and the register holds that address.\<close>

definition answers :: "'w phy_env \<Rightarrow> u32 \<Rightarrow> 'w \<Rightarrow> bool" where
  "answers env addr w \<longleftrightarrow> fst (fst (readReg env addr sAddr_SMR w)) \<and>
     snd (fst (readReg env addr sAddr_SMR w)) AND sMask_SMR_PHYSADDR = addr"

text \<open>Reading the special mode register has no side effect.\<close>

definition quiet_smr :: "'w phy_env \<Rightarrow> bool" where
  "quiet_smr env \<longleftrightarrow> (\<forall>addr w. snd (readReg env addr sAddr_SMR w) = w)"

lemma findDevice_spec:
  assumes "quiet_smr env" and "unat addr \<le> 31"
  shows "case findDevice env addr w of
      (Some d, w') \<Rightarrow> w' = w \<and> addr \<le> d \<and> d \<le> 31 \<and> answers env d w \<and>
        (\<forall>d'. addr \<le> d' \<and> d' < d \<longrightarrow> \<not> answers env d' w)
    | (None, w') \<Rightarrow> w' = w \<and> (\<forall>d'. addr \<le> d' \<and> d' \<le> 31 \<longrightarrow> \<not> answers env d' w)"
  using assms(2)
proof (induction "31 - unat addr" arbitrary: addr rule: less_induct)
  case less
  obtain ok val where r: "readReg env addr sAddr_SMR w = ((ok, val), w)"
    using assms(1) by (metis prod.collapse quiet_smr_def)
  have le: "addr \<le> 31" using less.prems by (simp add: word_le_nat_alt)
  show ?case
  proof (cases "answers env addr w")
    case True
    then have "findDevice env addr w = (Some addr, w)"
      using r le by (subst findDevice.simps) (simp add: answers_def sMaxDevAddr_def)
    then show ?thesis using True le by auto
  next
    case no: False
    show ?thesis
    proof (cases "addr = 31")
      case True
      then have "findDevice env addr w = (None, w)"
        using r no by (subst findDevice.simps) (auto simp: answers_def sMaxDevAddr_def)
      then show ?thesis using True no by (auto dest: antisym)
    next
      case False
      then have lt: "unat addr < 31" using less.prems by (auto simp: word_unat_eq_iff)
      then have suc: "unat (addr + 1) = Suc (unat addr)" by (simp add: unat_word_ariths)
      have step: "findDevice env addr w = findDevice env (addr + 1) w"
        using r no le False by (subst findDevice.simps) (auto simp: answers_def sMaxDevAddr_def)
      have skip: "addr + 1 \<le> d \<longleftrightarrow> addr \<le> d \<and> d \<noteq> addr" for d
        by (auto simp: word_le_nat_alt suc word_unat_eq_iff)
      have "case findDevice env (addr + 1) w of
          (Some d, w') \<Rightarrow> w' = w \<and> addr + 1 \<le> d \<and> d \<le> 31 \<and> answers env d w \<and>
            (\<forall>d'. addr + 1 \<le> d' \<and> d' < d \<longrightarrow> \<not> answers env d' w)
        | (None, w') \<Rightarrow> w' = w \<and> (\<forall>d'. addr + 1 \<le> d' \<and> d' \<le> 31 \<longrightarrow> \<not> answers env d' w)"
        using lt suc by (intro less.hyps) auto
      then show ?thesis
        unfolding step skip using no by (fastforce split: option.splits prod.splits)
    qed
  qed
qed

section \<open>Reset\<close>

text \<open>One round of the reset loop: reading the register and the clock.\<close>

definition round_world :: "'w phy_env \<Rightarrow> u32 \<Rightarrow> 'w \<Rightarrow> 'w" where
  "round_world env dev w = snd (tick env (snd (readReg env dev sAddr_BCR w)))"

definition round_time :: "'w phy_env \<Rightarrow> u32 \<Rightarrow> 'w \<Rightarrow> u32" where
  "round_time env dev w = fst (tick env (snd (readReg env dev sAddr_BCR w)))"

lemma awaitReset_returns:
  assumes "sResetTimeout_ms < round_time env dev ((round_world env dev ^^ n) w) - timeoutStart"
  shows "\<exists>st w'. awaitReset env dev timeoutStart w = Some (st, w') \<and> st \<in> {Ok, ReadError, ResetTimeout}"
  using assms
proof (induction n arbitrary: w)
  case 0
  then show ?case
    by (subst awaitReset.simps) (auto simp: round_time_def split: prod.splits)
next
  case (Suc n)
  obtain ok val w1 where r: "readReg env dev sAddr_BCR w = ((ok, val), w1)" by (metis prod.collapse)
  obtain t w2 where t: "tick env w1 = (t, w2)" by force
  have w2: "round_world env dev w = w2" using r t by (simp add: round_world_def)
  have "\<exists>st w'. awaitReset env dev timeoutStart w2 = Some (st, w') \<and> st \<in> {Ok, ReadError, ResetTimeout}"
    using Suc.prems w2 by (intro Suc.IH) (simp add: funpow_swap1)
  then show ?case using r t by (subst awaitReset.simps) auto
qed

section \<open>Reading the link\<close>

text \<open>
  The registers as the data sheet of the LAN8742 describes them: bit 2 of the basic status register is
  the link; bits 12, 13 and 8 of the basic control register are auto-negotiation, speed and duplex
  mode; bit 12 of the special control and status register tells that auto-negotiation is done, and
  bits 4 to 2 hold the mode that was chosen.
\<close>

definition data_sheet :: "u32 \<Rightarrow> u32 \<Rightarrow> u32 \<Rightarrow> Status" where
  "data_sheet bsr bcr physcsr =
     (if \<not> bit bsr 2 then LinkDown
      else if \<not> bit bcr 12 then
        (case (bit bcr 13, bit bcr 8) of
           (True, True) \<Rightarrow> FullDuplex100Mbit | (True, False) \<Rightarrow> HalfDuplex100Mbit
         | (False, True) \<Rightarrow> FullDuplex10Mbit | (False, False) \<Rightarrow> HalfDuplex10Mbit)
      else if \<not> bit physcsr 12 then AutonegoNotDone
      else
        (case (bit physcsr 4, bit physcsr 3, bit physcsr 2) of
           (True, True, False) \<Rightarrow> FullDuplex100Mbit | (False, True, False) \<Rightarrow> HalfDuplex100Mbit
         | (True, False, True) \<Rightarrow> FullDuplex10Mbit | _ \<Rightarrow> HalfDuplex10Mbit))"

lemma mask_words:
  "sMask_BSR_LINK_STATUS = push_bit 2 1" "sMask_BCR_AUTONEGO_EN = push_bit 12 1"
  "sMask_BCR_SPEED_SELECT = push_bit 13 1" "sMask_BCR_DUPLEX_MODE = push_bit 8 1"
  "sMask_PHYSCSR_AUTONEGO_DONE = push_bit 12 1"
  "sMask_PHYSCSR_HCDSPEEDMASK = push_bit 4 1 OR push_bit 3 1 OR push_bit 2 1"
  "sMask_PHYSCSR_100BTX_FD = push_bit 4 1 OR push_bit 3 1" "sMask_PHYSCSR_100BTX_HD = push_bit 3 1"
  "sMask_PHYSCSR_10BT_FD = push_bit 4 1 OR push_bit 2 1"
  by (simp_all add: phy_consts push_bit_eq_mult)

lemma eq_bits: "(a :: u32) = b \<longleftrightarrow> (\<forall>n. bit a n \<longleftrightarrow> bit b n)"
  by (auto intro: bit_word_eqI)

lemma and_exp_zero:
  fixes w :: u32
  assumes "n < 32"
  shows "w AND push_bit n 1 = 0 \<longleftrightarrow> \<not> bit w n"
  by (auto simp: eq_bits bit_and_iff bit_exp [OF assms] simp del: push_bit_of_1)

lemma mode_field:
  fixes w :: u32
  shows "w AND (push_bit 4 1 OR push_bit 3 1 OR push_bit 2 1) = push_bit 4 1 OR push_bit 3 1 \<longleftrightarrow>
      bit w 4 \<and> bit w 3 \<and> \<not> bit w 2"
    and "w AND (push_bit 4 1 OR push_bit 3 1 OR push_bit 2 1) = push_bit 3 1 \<longleftrightarrow>
      \<not> bit w 4 \<and> bit w 3 \<and> \<not> bit w 2"
    and "w AND (push_bit 4 1 OR push_bit 3 1 OR push_bit 2 1) = push_bit 4 1 OR push_bit 2 1 \<longleftrightarrow>
      bit w 4 \<and> \<not> bit w 3 \<and> bit w 2"
  by (auto simp: eq_bits bit_and_iff bit_or_iff bit_exp simp del: push_bit_of_1
    dest: spec [of _ 2] spec [of _ 3] spec [of _ 4])

lemma awaitReset_status:
  assumes "awaitReset env dev t w = Some r"
  shows "fst r \<in> {Ok, ReadError, ResetTimeout}"
proof (rule awaitReset.raw_induct
    [where P = "\<lambda>env dev t w r. fst r \<in> {Ok, ReadError, ResetTimeout}", OF _ assms])
  fix f :: "'a phy_env \<Rightarrow> u32 \<Rightarrow> u32 \<Rightarrow> 'a \<Rightarrow> (Status \<times> 'a) option"
    and env :: "'a phy_env" and dev t w r
  assume IH: "\<And>env dev t w r. f env dev t w = Some r \<Longrightarrow> fst r \<in> {Ok, ReadError, ResetTimeout}"
  assume "(case readReg env dev sAddr_BCR w of ((ok, val), w1) \<Rightarrow>
        if \<not> ok then Some (ReadError, w1)
        else if val AND sMask_BCR_SOFTRESET = 0 then Some (Ok, w1)
        else (case tick env w1 of (t', w2) \<Rightarrow>
           if sResetTimeout_ms < t' - t then Some (ResetTimeout, w2) else f env dev t w2)) = Some r"
  then show "fst r \<in> {Ok, ReadError, ResetTimeout}"
    by (auto split: prod.splits if_splits dest: IH)
qed

lemma init_found:
  assumes "findDevice env 0 w = (Some d, w1)" and "Lan8742_init env (p, w) = Some (st, p', w')"
  shows "p' = p\<lparr>mDevAddr := d\<rparr> \<and> st \<noteq> AddressError"
  using assms
  by (auto simp: Lan8742_init_def Let_def dest!: awaitReset_status split: prod.splits if_splits option.splits)

section \<open>Properties\<close>

text \<open>
  \<open>init\<close> uses the first device on the bus: the least of the 32 addresses at which a register read
  succeeds and returns that very address. When there is none, it reports \<open>AddressError\<close>, keeps the
  old address and has not written to any device.
\<close>

theorem init_uses_first_device:
  assumes "quiet_smr env" and "Lan8742_init env (p, w) = Some (st, p', w')"
  shows "if \<exists>d\<le>31. answers env d w
    then mDevAddr p' \<le> 31 \<and> answers env (mDevAddr p') w \<and>
      (\<forall>d. d < mDevAddr p' \<longrightarrow> \<not> answers env d w) \<and> st \<noteq> AddressError
    else st = AddressError \<and> p' = p \<and> w' = w"
proof (cases "findDevice env 0 w")
  case (Pair res w1)
  note spec = findDevice_spec [OF assms(1), of 0 w, unfolded Pair]
  show ?thesis
  proof (cases res)
    case None
    then have "\<not> (\<exists>d\<le>31. answers env d w)" and "w1 = w" using spec by auto
    moreover have "st = AddressError \<and> p' = p \<and> w' = w1"
      using assms(2) None Pair by (simp add: Lan8742_init_def)
    ultimately show ?thesis by simp
  next
    case (Some d)
    then have "d \<le> 31 \<and> answers env d w \<and> (\<forall>d'. d' < d \<longrightarrow> \<not> answers env d' w)" using spec by simp
    moreover have "p' = p\<lparr>mDevAddr := d\<rparr> \<and> st \<noteq> AddressError"
      using init_found [OF _ assms(2)] Pair Some by simp
    ultimately show ?thesis by auto
  qed
qed

text \<open>A bus with one device at an address, whose reset takes for ever, and a clock that counts its readings.\<close>

definition stuck_phy :: "u32 \<Rightarrow> u32 phy_env" where
  "stuck_phy dev = \<lparr>readReg = (\<lambda>d r w. ((d = dev, if r = sAddr_SMR then d else 0xFFFF), w)),
     writeReg = (\<lambda>d r v w. (True, w)), tick = (\<lambda>w. (w, w + 1)), wait = (\<lambda>n w. w + n)\<rparr>"

lemma stuck_round:
  "round_world (stuck_phy d) dev w = w + 1" "round_time (stuck_phy d) dev w = w"
  by (simp_all add: round_world_def round_time_def stuck_phy_def)

lemma stuck_rounds: "(round_world (stuck_phy d) dev ^^ n) w = w + of_nat n"
  by (induction n) (simp_all add: stuck_round)

lemma stuck_clock:
  "\<exists>n. sResetTimeout_ms < round_time (stuck_phy d) dev ((round_world (stuck_phy d) dev ^^ n) w) - start"
proof -
  have "(w + of_nat (unat (start - w + 501))) - start = 501" by simp
  then have "sResetTimeout_ms < (w + of_nat (unat (start - w + 501))) - start"
    by (simp add: sResetTimeout_ms_def)
  then show ?thesis unfolding stuck_rounds stuck_round by blast
qed

lemma Lan8742_init_returns:
  assumes "\<And>dev start w. \<exists>n. sResetTimeout_ms < round_time env dev ((round_world env dev ^^ n) w) - start"
  shows "\<exists>st p' w'. Lan8742_init env (p, w) = Some (st, p', w')"
proof -
  have "\<exists>st w'. awaitReset env dev start w = Some (st, w')" for dev start w
    using awaitReset_returns assms by metis
  then have "\<forall>dev start w. \<exists>r. awaitReset env dev start w = Some r" by blast
  then obtain g where g: "\<forall>dev start w. awaitReset env dev start w = Some (g dev start w)" by metis
  have "Lan8742_init env (p, w) \<noteq> None"
    by (auto simp: g Lan8742_init_def Let_def split: prod.splits option.splits)
  then show ?thesis by (metis not_None_eq prod_cases3)
qed

theorem init_uses_first_device_witness:
  "\<exists>st p' w'. Lan8742_init (stuck_phy 3) (\<lparr>mDevAddr = 0\<rparr>, 0) = Some (st, p', w') \<and> mDevAddr p' = 3"
proof -
  obtain st p' w' where i: "Lan8742_init (stuck_phy 3) (\<lparr>mDevAddr = 0\<rparr>, 0) = Some (st, p', w')"
    using Lan8742_init_returns [OF stuck_clock] by blast
  have "answers (stuck_phy 3) d w \<longleftrightarrow> d = 3" for d w
    by (auto simp: answers_def stuck_phy_def phy_consts)
  then have "mDevAddr p' = 3"
    using init_uses_first_device [OF _ i]
    by (auto simp: quiet_smr_def stuck_phy_def split: if_splits)
  with i show ?thesis by blast
qed

text \<open>
  \<open>init\<close> always returns, whatever the device does, as long as the clock runs: from any moment on
  there is a round of the reset loop at which more than the timeout has passed, also across the
  overflow of the 32-bit tick.
\<close>

theorem init_terminates:
  assumes "\<And>dev start w. \<exists>n. sResetTimeout_ms < round_time env dev ((round_world env dev ^^ n) w) - start"
  shows "\<exists>st p' w'. Lan8742_init env (p, w) = Some (st, p', w')"
  by (rule Lan8742_init_returns) (rule assms)

theorem init_terminates_witness:
  "\<exists>st p' w'. Lan8742_init (stuck_phy 3) (\<lparr>mDevAddr = 0\<rparr>, 0xFFFFFF00) = Some (st, p', w')"
  by (rule init_terminates) (rule stuck_clock)

text \<open>
  A device on the bus that keeps a log of all that the driver does, with arbitrary answers: what a read
  returns may depend on everything that happened before.
\<close>

datatype phy_op = ReadReg u32 u32 | WriteReg u32 u32 u32 | TickRead | Wait u32

definition logging_phy ::
  "(phy_op list \<Rightarrow> u32 \<Rightarrow> u32 \<Rightarrow> bool \<times> u32) \<Rightarrow> (phy_op list \<Rightarrow> bool) \<Rightarrow> (phy_op list \<Rightarrow> u32) \<Rightarrow> phy_op list phy_env" where
  "logging_phy ans wr clk = \<lparr>readReg = (\<lambda>d r l. (ans l d r, l @ [ReadReg d r])),
     writeReg = (\<lambda>d r v l. (wr l, l @ [WriteReg d r v])), tick = (\<lambda>l. (clk l, l @ [TickRead])),
     wait = (\<lambda>n l. l @ [Wait n])\<rparr>"

text \<open>The registers that decide the state of the link, given whether the first two reads succeed and what they return.\<close>

definition needed_registers :: "bool \<times> u32 \<Rightarrow> bool \<times> u32 \<Rightarrow> u32 list" where
  "needed_registers bsr bcr = sAddr_BSR #
     (if fst bsr \<and> bit (snd bsr) 2
      then sAddr_BCR # (if fst bcr \<and> bit (snd bcr) 12 then [sAddr_PHYSCSR] else []) else [])"

text \<open>
  C15. Whatever the device answers, \<open>getLinkState\<close> reads just the registers that decide the answer, each
  once and in order, and does nothing else: the basic status register; the basic control register if the link is up;
  the special control and status register if auto-negotiation is enabled. If one of these reads fails, it
  reports \<open>ReadError\<close>, else the link, speed and duplex mode that the bits read stand for in the data
  sheet. A mode field with a reserved value is reported as 10 Mbit half duplex.
\<close>

theorem link_state_matches_data_sheet:
  "let d = mDevAddr p;
       bsr = ans l d sAddr_BSR;
       bcr = ans (l @ [ReadReg d sAddr_BSR]) d sAddr_BCR;
       physcsr = ans (l @ [ReadReg d sAddr_BSR, ReadReg d sAddr_BCR]) d sAddr_PHYSCSR
   in getLinkState (logging_phy ans wr clk) (p, l) =
     (if \<not> fst bsr \<or> bit (snd bsr) 2 \<and> (\<not> fst bcr \<or> bit (snd bcr) 12 \<and> \<not> fst physcsr) then ReadError
      else data_sheet (snd bsr) (snd bcr) (snd physcsr),
      l @ map (ReadReg d) (needed_registers bsr bcr))"
  by (simp add: getLinkState_def logging_phy_def needed_registers_def data_sheet_def mask_words and_exp_iff and_exp_zero
      mode_field Let_def case_prod_unfold del: push_bit_of_1 split: bool.splits)

theorem link_state_matches_data_sheet_witness:
  "getLinkState (logging_phy (\<lambda>l d r. (True, if r = sAddr_BSR then 4 else if r = sAddr_BCR then 0x1000 else 0x1018))
      (\<lambda>l. True) (\<lambda>l. 0)) (\<lparr>mDevAddr = 1\<rparr>, []) =
    (FullDuplex100Mbit, [ReadReg 1 sAddr_BSR, ReadReg 1 sAddr_BCR, ReadReg 1 sAddr_PHYSCSR])"
  using link_state_matches_data_sheet [of "\<lparr>mDevAddr = 1\<rparr>" "\<lambda>l d r. (True, if r = sAddr_BSR then 4
      else if r = sAddr_BCR then 0x1000 else 0x1018)" "[]" "\<lambda>l. True" "\<lambda>l. 0"]
  by (simp add: data_sheet_def needed_registers_def phy_consts)

end
