(* ===== verification/Hal_Types.thy ===== *)
theory Hal_Types
  imports Lwip_Prelude
begin

text \<open>
  Types of the STM32 HAL that several components use: the status of a call, and the description of
  the pins. Only the values that occur in the program are listed.
\<close>

datatype hal_status = HAL_OK | HAL_ERROR | HAL_BUSY | HAL_TIMEOUT

datatype gpio_port = GPIOA | GPIOB | GPIOC | GPIOD | GPIOG

datatype gpio_mode = GPIO_MODE_INPUT | GPIO_MODE_AF_PP

datatype gpio_pull = GPIO_NOPULL | GPIO_PULLUP

datatype gpio_speed = GPIO_SPEED_FREQ_LOW | GPIO_SPEED_FREQ_HIGH | GPIO_SPEED_FREQ_VERY_HIGH

datatype gpio_alternate = GPIO_AF0 | GPIO_AF7_USART3 | GPIO_AF11_ETH

record gpio_init =
  Pin :: "nat list"
  Mode :: gpio_mode
  Pull :: gpio_pull
  GpioSpeed :: gpio_speed
  Alternate :: gpio_alternate

end
