(* ===== verification/Eth_Link.thy ===== *)
theory Eth_Link
  imports Lan_Phy Hal_Types
begin

text \<open>
  Setting up the Ethernet interface and following the state of the link, \<open>src/stm32h7/Ethernetif.cpp\<close>:
  the class \<open>Ether\<close> that gives the PHY driver its registers, the initialisation of the interface and
  of the pins, and \<open>ethernet_link_check_state\<close>, which starts and stops the MAC. Calls of the HAL and
  of lwIP that return nothing the driver uses are recorded in order.
\<close>

section \<open>Model\<close>

datatype duplex_mode = ETH_HALFDUPLEX_MODE | ETH_FULLDUPLEX_MODE

datatype eth_speed = ETH_SPEED_10M | ETH_SPEED_100M

record 'm mac_config =
  DuplexMode :: duplex_mode
  Speed :: eth_speed
  other_settings :: 'm

datatype 'm link_op = HAL_ETH_Stop | Netif_set_down | Netif_set_link_down
  | HAL_ETH_SetMACConfig "'m mac_config" | HAL_ETH_Start | Netif_set_up | Netif_set_link_up

datatype media_interface = HAL_ETH_MII_MODE | HAL_ETH_RMII_MODE

record eth_init_config =
  MACAddr :: "u8 list"
  MediaInterface :: media_interface
  RxBuffLen :: u32

datatype 'm init_op = HAL_ETH_Init eth_init_config | MEMPOOL_INIT_RX_POOL | HAL_ETH_SetMDIOClockRange
  | Link_op "'m link_op"

text \<open>
  The HAL and the part of lwIP that is called here: a register access gives a status and a value, and
  every call may change the outside world \<open>'w\<close>.
\<close>

record ('w, 'm) eth_hal =
  HAL_ETH_ReadPHYRegister :: "u32 \<Rightarrow> u32 \<Rightarrow> 'w \<Rightarrow> (hal_status \<times> u32) \<times> 'w"
  HAL_ETH_WritePHYRegister :: "u32 \<Rightarrow> u32 \<Rightarrow> u32 \<Rightarrow> 'w \<Rightarrow> hal_status \<times> 'w"
  HAL_GetTick :: "'w \<Rightarrow> u32 \<times> 'w"
  HAL_Delay :: "u32 \<Rightarrow> 'w \<Rightarrow> 'w"
  HAL_ETH_GetMACConfig :: "'w \<Rightarrow> 'm mac_config"
  effect :: "'m init_op \<Rightarrow> 'w \<Rightarrow> 'w"

definition Ether_readReg :: "('w, 'm) eth_hal \<Rightarrow> u32 \<Rightarrow> u32 \<Rightarrow> 'w \<Rightarrow> (bool \<times> u32) \<times> 'w" where
  "Ether_readReg hal devAddr regAddr w =
     (case HAL_ETH_ReadPHYRegister hal devAddr regAddr w of ((st, regval), w) \<Rightarrow>
        if st \<noteq> HAL_OK then ((False, 0), w) else ((True, regval), w))"

definition Ether_writeReg :: "('w, 'm) eth_hal \<Rightarrow> u32 \<Rightarrow> u32 \<Rightarrow> u32 \<Rightarrow> 'w \<Rightarrow> bool \<times> 'w" where
  "Ether_writeReg hal devAddr regAddr regVal w =
     (case HAL_ETH_WritePHYRegister hal devAddr regAddr regVal w of (st, w) \<Rightarrow>
        if st \<noteq> HAL_OK then (False, w) else (True, w))"

text \<open>The template arguments of the PHY driver: \<open>Ether\<close>, and \<open>Base\<close> with its tick and its wait.\<close>

definition Ether :: "('w, 'm) eth_hal \<Rightarrow> 'w phy_env" where
  "Ether hal = \<lparr>readReg = Ether_readReg hal, writeReg = Ether_writeReg hal,
     tick = HAL_GetTick hal, wait = HAL_Delay hal\<rparr>"

text \<open>The \<open>switch\<close>: duplex mode and speed for \<open>linkchanged = 1\<close>.\<close>

fun link_mode :: "Status \<Rightarrow> (duplex_mode \<times> eth_speed) option" where
  "link_mode FullDuplex100Mbit = Some (ETH_FULLDUPLEX_MODE, ETH_SPEED_100M)"
| "link_mode HalfDuplex100Mbit = Some (ETH_HALFDUPLEX_MODE, ETH_SPEED_100M)"
| "link_mode FullDuplex10Mbit = Some (ETH_FULLDUPLEX_MODE, ETH_SPEED_10M)"
| "link_mode HalfDuplex10Mbit = Some (ETH_HALFDUPLEX_MODE, ETH_SPEED_10M)"
| "link_mode st = None"

text \<open>\<open>up\<close> is \<open>netif_is_link_up\<close>, \<open>mac\<close> the result of \<open>HAL_ETH_GetMACConfig\<close>.\<close>

definition link_ops :: "Status \<Rightarrow> bool \<Rightarrow> 'm mac_config \<Rightarrow> 'm link_op list" where
  "link_ops status up mac =
     (let linkStatusDown = (status = LinkDown \<or> status = ReadError) in
      if up \<and> linkStatusDown then [HAL_ETH_Stop, Netif_set_down, Netif_set_link_down]
      else if \<not> up \<and> \<not> linkStatusDown then
        (case link_mode status of
           None \<Rightarrow> []
         | Some (duplex, speed) \<Rightarrow>
             [HAL_ETH_SetMACConfig (mac\<lparr>DuplexMode := duplex, Speed := speed\<rparr>), HAL_ETH_Start,
              Netif_set_up, Netif_set_link_up])
      else [])"

text \<open>The calls that the check makes, and the world after them.\<close>

definition ethernet_link_check_state ::
  "('w, 'm) eth_hal \<Rightarrow> bool \<Rightarrow> Lan8742 \<times> 'w \<Rightarrow> 'm link_op list \<times> 'w" where
  "ethernet_link_check_state hal up = (\<lambda>(p, w).
     case getLinkState (Ether hal) (p, w) of (status, w) \<Rightarrow>
       let ops = link_ops status up (HAL_ETH_GetMACConfig hal w)
       in (ops, fold (effect hal) (map Link_op ops) w))"

subsection \<open>Initialisation\<close>

text \<open>Constants of lwIP and the HAL.\<close>

record eth_consts =
  ETH_HWADDR_LEN :: u8
  ETH_MAX_PAYLOAD :: u16
  NETIF_FLAG_BROADCAST :: u8
  NETIF_FLAG_ETHARP :: u8

datatype output_function = No_output | Etharp_output | LowLevelOutput

text \<open>The fields of lwIP's \<open>struct netif\<close> that are set here.\<close>

record netif =
  netif_name :: "char \<times> char"
  netif_output :: output_function
  linkoutput :: output_function
  hwaddr_len :: u8
  hwaddr :: "u8 list"
  mtu :: u16
  netif_flags :: u8

definition macaddress :: "u8 list" where
  "macaddress = [0x00, 0x80, 0xE1, 0x00, 0x00, 0x00]"

definition set_hardware :: "eth_consts \<Rightarrow> netif \<Rightarrow> netif" where
  "set_hardware k n = n\<lparr>hwaddr_len := ETH_HWADDR_LEN k, hwaddr := macaddress, mtu := ETH_MAX_PAYLOAD k,
     netif_flags := netif_flags n OR (NETIF_FLAG_BROADCAST k OR NETIF_FLAG_ETHARP k)\<rparr>"

text \<open>The status of the PHY driver's \<open>init\<close> is not used; \<open>None\<close> is its reset loop not ending.\<close>

definition low_level_init ::
  "('w, 'm) eth_hal \<Rightarrow> eth_consts \<Rightarrow> bool \<Rightarrow> netif \<times> Lan8742 \<times> 'w \<Rightarrow>
    (netif \<times> Lan8742 \<times> 'm init_op list \<times> 'w) option" where
  "low_level_init hal k up = (\<lambda>(n, p, w).
     let config = \<lparr>MACAddr = macaddress, MediaInterface = HAL_ETH_RMII_MODE, RxBuffLen = 1000\<rparr>;
       w = effect hal (HAL_ETH_Init config) w;
       n = set_hardware k n;
       w = effect hal MEMPOOL_INIT_RX_POOL w;
       w = effect hal HAL_ETH_SetMDIOClockRange w
     in case Lan8742_init (Ether hal) (p, w) of
          None \<Rightarrow> None
        | Some (st, p, w) \<Rightarrow>
            let (ops, w) = ethernet_link_check_state hal up (p, w)
            in Some (n, p, [HAL_ETH_Init config, MEMPOOL_INIT_RX_POOL, HAL_ETH_SetMDIOClockRange] @
                 map Link_op ops, w))"

definition ethernetif_init ::
  "('w, 'm) eth_hal \<Rightarrow> eth_consts \<Rightarrow> bool \<Rightarrow> netif option \<Rightarrow> Lan8742 \<times> 'w \<Rightarrow>
    (err_t \<times> netif option \<times> Lan8742 \<times> 'm init_op list \<times> 'w) option" where
  "ethernetif_init hal k up netif = (\<lambda>(p, w).
     case netif of
       None \<Rightarrow> Some (ERR_ARG, None, p, [], w)
     | Some n \<Rightarrow>
         let n = n\<lparr>netif_name := (CHR ''l'', CHR ''s''), netif_output := Etharp_output\<rparr> in
         (case low_level_init hal k up (n, p, w) of
            None \<Rightarrow> None
          | Some (n, p, ops, w) \<Rightarrow> Some (ERR_OK, Some (n\<lparr>linkoutput := LowLevelOutput\<rparr>), p, ops, w)))"

subsection \<open>Pins\<close>

datatype msp_op = GPIO_CLK_ENABLE gpio_port | HAL_GPIO_Init gpio_port gpio_init
  | ETH1MAC_CLK_ENABLE | ETH1TX_CLK_ENABLE | ETH1RX_CLK_ENABLE

definition HAL_ETH_MspInit :: "msp_op list" where
  "HAL_ETH_MspInit =
     (let g = \<lparr>Pin = [], Mode = GPIO_MODE_INPUT, Pull = GPIO_NOPULL, GpioSpeed = GPIO_SPEED_FREQ_LOW,
            Alternate = GPIO_AF0\<rparr>;
        clocks = map GPIO_CLK_ENABLE [GPIOA, GPIOB, GPIOC, GPIOG];
        g = g\<lparr>Pin := [1, 2, 7], GpioSpeed := GPIO_SPEED_FREQ_HIGH, Mode := GPIO_MODE_AF_PP,
            Pull := GPIO_NOPULL, Alternate := GPIO_AF11_ETH\<rparr>;
        a = HAL_GPIO_Init GPIOA g;
        g = g\<lparr>Pin := [13]\<rparr>;
        b = HAL_GPIO_Init GPIOB g;
        g = g\<lparr>Pin := [1, 4, 5]\<rparr>;
        c = HAL_GPIO_Init GPIOC g;
        g = g\<lparr>Pin := [11, 13]\<rparr>;
        d = HAL_GPIO_Init GPIOG g
      in clocks @ [a, b, c, d, ETH1MAC_CLK_ENABLE, ETH1TX_CLK_ENABLE, ETH1RX_CLK_ENABLE])"

definition sys_now :: "('w, 'm) eth_hal \<Rightarrow> 'w \<Rightarrow> u32 \<times> 'w" where
  "sys_now hal w = HAL_GetTick hal w"

section \<open>Following the link\<close>

text \<open>lwIP's link flag after the calls: the last one that sets it counts.\<close>

fun flag_after :: "bool \<Rightarrow> 'm link_op list \<Rightarrow> bool" where
  "flag_after up [] = up"
| "flag_after up (Netif_set_link_up # ops) = flag_after True ops"
| "flag_after up (Netif_set_link_down # ops) = flag_after False ops"
| "flag_after up (op # ops) = flag_after up ops"

text \<open>A run of checks: all calls made for a sequence of states of the PHY.\<close>

fun check_run :: "(Status \<times> 'm mac_config) list \<Rightarrow> bool \<Rightarrow> 'm link_op list" where
  "check_run [] up = []"
| "check_run ((st, mac) # sts) up =
     (let ops = link_ops st up mac in ops @ check_run sts (flag_after up ops))"

text \<open>
  The MAC is used in phases: configured, started, stopped, and so on. \<open>None\<close> is a MAC that is
  stopped, \<open>Some (d, s)\<close> one that runs with this mode.
\<close>

fun mac_phase ::
  "(duplex_mode \<times> eth_speed) option \<times> (duplex_mode \<times> eth_speed) option \<Rightarrow> 'm link_op list \<Rightarrow>
    ((duplex_mode \<times> eth_speed) option \<times> (duplex_mode \<times> eth_speed) option) option" where
  "mac_phase (run, conf) [] = Some (run, conf)"
| "mac_phase (run, conf) (HAL_ETH_SetMACConfig m # ops) =
     (if run = None then mac_phase (None, Some (DuplexMode m, Speed m)) ops else None)"
| "mac_phase (run, conf) (HAL_ETH_Start # ops) =
     (if run = None \<and> conf \<noteq> None then mac_phase (conf, conf) ops else None)"
| "mac_phase (run, conf) (HAL_ETH_Stop # ops) = (if run \<noteq> None then mac_phase (None, conf) ops else None)"
| "mac_phase rc (op # ops) = mac_phase rc ops"

definition link_is_down :: "Status \<Rightarrow> bool" where
  "link_is_down st \<longleftrightarrow> st = LinkDown \<or> st = ReadError"

lemma link_ops_cases:
  obtains (stop) "up" and "link_is_down st"
      and "link_ops st up mac = [HAL_ETH_Stop, Netif_set_down, Netif_set_link_down]"
  | (start) d s where "\<not> up" and "link_mode st = Some (d, s)"
      and "link_ops st up mac = [HAL_ETH_SetMACConfig (mac\<lparr>DuplexMode := d, Speed := s\<rparr>), HAL_ETH_Start,
          Netif_set_up, Netif_set_link_up]"
  | (nothing) "link_ops st up mac = []" and "up \<longrightarrow> \<not> link_is_down st" and "\<not> up \<longrightarrow> link_mode st = None"
proof -
  consider "up" "link_is_down st" | d s where "\<not> up" "link_mode st = Some (d, s)"
    | "up \<longrightarrow> \<not> link_is_down st" "\<not> up \<longrightarrow> link_mode st = None"
    by (cases "link_mode st") (auto simp: split_paired_all)
  then show thesis
  proof cases
    case 1
    then show thesis by (intro stop) (simp_all add: link_ops_def link_is_down_def)
  next
    case (2 d s)
    then have "link_ops st up mac = [HAL_ETH_SetMACConfig (mac\<lparr>DuplexMode := d, Speed := s\<rparr>), HAL_ETH_Start,
          Netif_set_up, Netif_set_link_up]"
      by (auto simp: link_ops_def)
    with 2 show thesis by (intro start)
  next
    case 3
    then have "link_ops st up mac = []"
      by (cases st) (auto simp: link_ops_def link_is_down_def split: if_splits)
    show thesis
      by (rule nothing) (fact \<open>link_ops st up mac = []\<close>, fact 3(1), fact 3(2))
  qed
qed

lemma link_down_mode: "link_is_down st \<Longrightarrow> link_mode st = None"
  by (auto simp: link_is_down_def)

lemma flag_after_check:
  "flag_after up (link_ops st up mac) = (if link_is_down st then False else if link_mode st \<noteq> None then True else up)"
  by (cases rule: link_ops_cases [of up st mac]) (auto dest: link_down_mode)

lemma mac_phase_append:
  "mac_phase rc (ops @ ops') = (case mac_phase rc ops of None \<Rightarrow> None | Some rc \<Rightarrow> mac_phase rc ops')"
  by (induction rc ops rule: mac_phase.induct) auto

lemma check_run_phases:
  assumes "run \<noteq> None \<longleftrightarrow> up"
  shows "\<exists>run' conf'. mac_phase (run, conf) (check_run sts up) = Some (run', conf') \<and>
    (run' \<noteq> None \<longleftrightarrow> flag_after up (check_run sts up))"
  using assms
proof (induction sts up arbitrary: run conf rule: check_run.induct)
  case (2 st mac sts up)
  let ?ops = "link_ops st up mac"
  have flags: "flag_after x (?ops @ ops') = flag_after (flag_after x ?ops) ops'" for x and ops' :: "'a link_op list"
    by (cases rule: link_ops_cases [of up st mac]) simp_all
  have "\<exists>run1 conf1. mac_phase (run, conf) ?ops = Some (run1, conf1) \<and> (run1 \<noteq> None \<longleftrightarrow> flag_after up ?ops)"
    using "2.prems" by (cases rule: link_ops_cases [of up st mac]) auto
  then obtain run1 conf1 where one: "mac_phase (run, conf) ?ops = Some (run1, conf1)"
    "run1 \<noteq> None \<longleftrightarrow> flag_after up ?ops" by blast
  then show ?case using "2.IH" [OF refl one(2)] by (simp add: Let_def mac_phase_append flags)
qed simp

section \<open>Properties\<close>

text \<open>
  C26. Over any run of link checks that starts with the link down and the MAC stopped, the MAC is only
  configured while it is stopped, only started after it has been configured, and only stopped while
  it runs; it runs exactly as long as lwIP's link flag is set.
\<close>

theorem mac_follows_protocol:
  "\<exists>run conf. mac_phase (None, None) (check_run sts False) = Some (run, conf) \<and>
    (run \<noteq> None \<longleftrightarrow> flag_after False (check_run sts False))"
  by (rule check_run_phases) simp

text \<open>
  After a check, lwIP's link flag says what the PHY says: down if the link is down or cannot be
  read, up if the PHY reports a mode, and unchanged while auto-negotiation is not done.
\<close>

theorem link_flag_follows_phy:
  "flag_after up (fst (ethernet_link_check_state hal up (p, w))) =
    (case fst (getLinkState (Ether hal) (p, w)) of
       LinkDown \<Rightarrow> False | ReadError \<Rightarrow> False
     | FullDuplex100Mbit \<Rightarrow> True | HalfDuplex100Mbit \<Rightarrow> True
     | FullDuplex10Mbit \<Rightarrow> True | HalfDuplex10Mbit \<Rightarrow> True
     | _ \<Rightarrow> up)"
  by (cases "getLinkState (Ether hal) (p, w)")
    (auto simp: ethernet_link_check_state_def Let_def flag_after_check link_is_down_def split: Status.split)

text \<open>
  A mode that changes while the link stays up between two checks is not noticed: the MAC keeps
  running with the old speed and duplex mode.
\<close>

theorem mode_change_unnoticed:
  assumes "link_mode st1 = Some m1" and "link_mode st2 = Some m2"
  shows "mac_phase (None, None) (check_run [(st1, mac1), (st2, mac2)] False) = Some (Some m1, Some m1)"
  using assms by (cases st1; cases st2) (auto simp: link_ops_def)

definition sample_mac :: "unit mac_config" where
  "sample_mac = \<lparr>DuplexMode = ETH_HALFDUPLEX_MODE, Speed = ETH_SPEED_10M, other_settings = ()\<rparr>"

theorem mode_change_unnoticed_witness:
  "mac_phase (None, None) (check_run [(FullDuplex100Mbit, sample_mac), (HalfDuplex10Mbit, sample_mac)] False) =
    Some (Some (ETH_FULLDUPLEX_MODE, ETH_SPEED_100M), Some (ETH_FULLDUPLEX_MODE, ETH_SPEED_100M))"
proof -
  have "link_mode FullDuplex100Mbit = Some (ETH_FULLDUPLEX_MODE, ETH_SPEED_100M)"
    and "link_mode HalfDuplex10Mbit = Some (ETH_HALFDUPLEX_MODE, ETH_SPEED_10M)" by simp_all
  then show ?thesis by (rule mode_change_unnoticed)
qed

text \<open>
  A missing PHY does not stop the interface from coming up: when no device answers on the management
  bus, \<open>ethernetif_init\<close> still returns \<open>ERR_OK\<close> with the output functions in place.
\<close>

theorem missing_phy_ignored:
  assumes "quiet_smr (Ether hal)" and "\<And>d w. \<not> answers (Ether hal) d w"
  shows "\<exists>n' ops w'. ethernetif_init hal k up (Some n) (p, w) = Some (ERR_OK, Some n', p, ops, w') \<and>
    linkoutput n' = LowLevelOutput \<and> netif_output n' = Etharp_output"
proof -
  have "Lan8742_init (Ether hal) (p, w) = Some (AddressError, p, w)" for w
    using findDevice_spec [OF assms(1), of 0 w] assms(2)
    by (auto simp: Lan8742_init_def split: option.splits)
  then show ?thesis
    by (simp add: ethernetif_init_def low_level_init_def Let_def set_hardware_def split: prod.splits)
qed

text \<open>A HAL whose register accesses all time out.\<close>

definition dead_hal :: "(unit, unit) eth_hal" where
  "dead_hal = \<lparr>HAL_ETH_ReadPHYRegister = (\<lambda>d r. Pair (HAL_TIMEOUT, 0)),
     HAL_ETH_WritePHYRegister = (\<lambda>d r v. Pair HAL_TIMEOUT), HAL_GetTick = Pair 0, HAL_Delay = (\<lambda>n w. w),
     HAL_ETH_GetMACConfig = (\<lambda>w. sample_mac),
     effect = (\<lambda>op w. w)\<rparr>"

definition sample_consts :: eth_consts where
  "sample_consts = \<lparr>ETH_HWADDR_LEN = 6, ETH_MAX_PAYLOAD = 1500, NETIF_FLAG_BROADCAST = 2, NETIF_FLAG_ETHARP = 8\<rparr>"

definition sample_netif :: netif where
  "sample_netif = \<lparr>netif_name = (CHR ''x'', CHR ''x''), netif_output = No_output, linkoutput = No_output,
     hwaddr_len = 0, hwaddr = [], mtu = 0, netif_flags = 0\<rparr>"

theorem missing_phy_ignored_witness:
  "\<exists>n' ops w'. ethernetif_init dead_hal sample_consts False (Some sample_netif) (\<lparr>mDevAddr = 0\<rparr>, ()) =
      Some (ERR_OK, Some n', \<lparr>mDevAddr = 0\<rparr>, ops, w')"
  using missing_phy_ignored [of dead_hal sample_consts False sample_netif "\<lparr>mDevAddr = 0\<rparr>" "()"]
  by (fastforce simp: quiet_smr_def answers_def Ether_def Ether_readReg_def dead_hal_def)

end
