(* ===== verification/Network_RTOS.thy ===== *)
theory Network_RTOS
  imports Eth_Link Eth_Rx Loop_Timer
begin

text \<open>
  The network loop, \<open>include/lwipserver/network/NetworkRTOS.h\<close>, with the interface it drives,
  \<open>include/lwipserver/stm32h7/Ethernetif.h\<close>: the timers that check the link and run the DHCP process,
  the state machine of the DHCP process, and the link callback that lwIP calls when its link flag
  changes. The addresses that are set and the services that are called are recorded in order.
\<close>

section \<open>Model\<close>

definition sLinkTimerPeriod_ms :: u32 where "sLinkTimerPeriod_ms = 100"
definition sDhcpTimerPeriod_ms :: u32 where "sDhcpTimerPeriod_ms = 500"
definition sMaxDhcpTries :: u32 where "sMaxDhcpTries = 2"

text \<open>\<open>DhcpLinkDown\<close> is the source's \<open>DhcpState::LinkDown\<close>; the PHY driver has a \<open>LinkDown\<close> of its own.\<close>

datatype DhcpState = Off | Start | WaitAddress | AddressAssigned | Timeout | DhcpLinkDown

datatype net_callback = CheckLinkState | DhcpProcess

type_synonym ip4 = "u8 list"

definition IP_ADDR :: ip4 where "IP_ADDR = [192, 168, 112, 10]"
definition NETMASK_ADDR :: ip4 where "NETMASK_ADDR = [255, 255, 255, 0]"
definition GW_ADDR :: ip4 where "GW_ADDR = [192, 168, 112, 1]"
text \<open>\<open>lwipopts.h\<close> defines \<open>LWIP_DHCP\<close> as 1.\<close>

definition sUseDHCP :: bool where "sUseDHCP = True"

definition zero_ip4 :: ip4 where "zero_ip4 = [0, 0, 0, 0]"

text \<open>The calls of lwIP that are made here. Each may change the outside world.\<close>

datatype net_call = Lwip_init | Netif_add ip4 ip4 ip4 | Netif_set_default | Netif_set_link_callback
  | Netif_clear_addresses | Dhcp_start | Netif_set_addr ip4 ip4 ip4 | Sys_check_timeouts

record ('w, 'm) net_env =
  hal :: "('w, 'm) eth_hal"
  eth_constants :: eth_consts
  rx_functions :: "'w rx_env"
  dhcp_supplied_address :: "'w \<Rightarrow> bool"
  dhcp_tries :: "'w \<Rightarrow> u32"
  lwip_effect :: "net_call \<Rightarrow> 'w \<Rightarrow> 'w"

text \<open>
  The network object with its interface and the driver's static state: \<open>link_flag\<close> is lwIP's link flag
  of \<open>gnetif\<close>, \<open>link_registered\<close> tells whether lwIP knows the interface's link callback and \<open>mLinkCallback\<close>
  whether the interface has one to pass it on to, which can only be \<open>linkStatusUpdated\<close>; \<open>net_calls\<close> and
  \<open>link_calls\<close> are the calls made so far.
\<close>

record 'm network =
  mDhcpState :: DhcpState
  mDHCPTimer :: "net_callback LoopTimer"
  mLinkTimer :: "net_callback LoopTimer"
  link_flag :: bool
  link_registered :: bool
  mLinkCallback :: bool
  gnetif :: netif
  sLan8742 :: Lan8742
  tx_ring :: eth_tx
  rx_state :: eth_rx
  net_calls :: "net_call list"
  link_calls :: "'m init_op list"

definition lwip_call ::
  "('w, 'm) net_env \<Rightarrow> net_call \<Rightarrow> 'm network \<times> 'w \<Rightarrow> 'm network \<times> 'w" where
  "lwip_call env c = (\<lambda>(n, w). (n\<lparr>net_calls := net_calls n @ [c]\<rparr>, lwip_effect env c w))"

definition isLinkUp :: "'m network \<Rightarrow> bool" where "isLinkUp n = link_flag n"

definition linkStatusUpdated :: "'m network \<Rightarrow> 'm network" where
  "linkStatusUpdated n =
     (if isLinkUp n then n\<lparr>mDhcpState := Start\<rparr> else n\<lparr>mDhcpState := DhcpLinkDown\<rparr>)"

definition lwipLinkCallback :: "'m network \<Rightarrow> 'm network" where
  "lwipLinkCallback n = (if mLinkCallback n then linkStatusUpdated n else n)"

definition registerLinkCallback :: "'m network \<Rightarrow> 'm network" where
  "registerLinkCallback n = n\<lparr>mLinkCallback := True\<rparr>"

text \<open>
  lwIP's link flag under one of the calls of the link check: setting it to what it is does nothing,
  changing it calls the link callback that is registered.
\<close>

definition set_link_flag :: "bool \<Rightarrow> 'm network \<Rightarrow> 'm network" where
  "set_link_flag up n =
     (if link_flag n = up then n
      else let n = n\<lparr>link_flag := up\<rparr> in if link_registered n then lwipLinkCallback n else n)"

fun do_link_op :: "'m link_op \<Rightarrow> 'm network \<Rightarrow> 'm network" where
  "do_link_op Netif_set_link_up n = set_link_flag True n"
| "do_link_op Netif_set_link_down n = set_link_flag False n"
| "do_link_op op n = n"

fun do_init_op :: "'m init_op \<Rightarrow> 'm network \<Rightarrow> 'm network" where
  "do_init_op (Link_op op) n = do_link_op op (n\<lparr>link_calls := link_calls n @ [Link_op op]\<rparr>)"
| "do_init_op op n = n\<lparr>link_calls := link_calls n @ [op]\<rparr>"

definition checkLinkState :: "('w, 'm) net_env \<Rightarrow> 'm network \<times> 'w \<Rightarrow> 'm network \<times> 'w" where
  "checkLinkState env = (\<lambda>(n, w).
     case ethernet_link_check_state (hal env) (link_flag n) (sLan8742 n, w) of
       (ops, w) \<Rightarrow> (fold do_init_op (map Link_op ops) n, w))"

definition dhcpStart :: "('w, 'm) net_env \<Rightarrow> 'm network \<times> 'w \<Rightarrow> 'm network \<times> 'w" where
  "dhcpStart env nw =
     (if sUseDHCP then lwip_call env Dhcp_start (lwip_call env Netif_clear_addresses nw) else nw)"

definition isDhcpSuppliedAddress :: "('w, 'm) net_env \<Rightarrow> 'w \<Rightarrow> bool" where
  "isDhcpSuppliedAddress env w = (if sUseDHCP then dhcp_supplied_address env w else False)"

definition dhcpTries :: "('w, 'm) net_env \<Rightarrow> 'w \<Rightarrow> u32" where
  "dhcpTries env w = (if sUseDHCP then dhcp_tries env w else 0)"

definition setStaticIp :: "('w, 'm) net_env \<Rightarrow> 'm network \<times> 'w \<Rightarrow> 'm network \<times> 'w" where
  "setStaticIp env nw = lwip_call env (Netif_set_addr IP_ADDR NETMASK_ADDR GW_ADDR) nw"

definition dhcpProcess :: "('w, 'm) net_env \<Rightarrow> 'm network \<times> 'w \<Rightarrow> 'm network \<times> 'w" where
  "dhcpProcess env = (\<lambda>(n, w).
     case mDhcpState n of
       Start \<Rightarrow>
         let (n, w) = dhcpStart env (n, w)
         in (n\<lparr>mDhcpState := WaitAddress\<rparr>, w)
     | WaitAddress \<Rightarrow>
         if isDhcpSuppliedAddress env w then (n\<lparr>mDhcpState := AddressAssigned\<rparr>, w)
         else if sMaxDhcpTries < dhcpTries env w then
           setStaticIp env (n\<lparr>mDhcpState := Timeout\<rparr>, w)
         else (n, w)
     | DhcpLinkDown \<Rightarrow> (n\<lparr>mDhcpState := Off\<rparr>, w)
     | _ \<Rightarrow> (n, w))"

fun run_callback ::
  "('w, 'm) net_env \<Rightarrow> net_callback option \<Rightarrow> 'm network \<times> 'w \<Rightarrow> 'm network \<times> 'w" where
  "run_callback env None nw = nw"
| "run_callback env (Some CheckLinkState) nw = checkLinkState env nw"
| "run_callback env (Some DhcpProcess) nw = dhcpProcess env nw"

text \<open>
  \<open>Ethernetif::init\<close>: \<open>netif_add\<close> enters the interface and calls \<open>ethernetif_init\<close>; the link callback
  is called once, and only then registered with lwIP. \<open>None\<close> is the reset loop of the PHY not ending.
\<close>

definition Ethernetif_init ::
  "('w, 'm) net_env \<Rightarrow> 'm network \<times> 'w \<Rightarrow> ('m network \<times> 'w) option" where
  "Ethernetif_init env = (\<lambda>nw.
     let (n, w) = lwip_call env
           (if sUseDHCP then Netif_add zero_ip4 zero_ip4 zero_ip4 else Netif_add IP_ADDR NETMASK_ADDR GW_ADDR) nw
     in case ethernetif_init (hal env) (eth_constants env) (link_flag n) (Some (gnetif n)) (sLan8742 n, w) of
          None \<Rightarrow> None
        | Some (err, g, p, ops, w) \<Rightarrow>
            let n = fold do_init_op ops
                      (n\<lparr>gnetif := (case g of Some g \<Rightarrow> g | None \<Rightarrow> gnetif n), sLan8742 := p\<rparr>);
              (n, w) = lwip_call env Netif_set_default (n, w);
              n = (if mLinkCallback n then linkStatusUpdated n else n);
              (n, w) = lwip_call env Netif_set_link_callback (n, w)
            in Some (n\<lparr>link_registered := True\<rparr>, w))"

definition Network_init :: "('w, 'm) net_env \<Rightarrow> 'm network \<times> 'w \<Rightarrow> ('m network \<times> 'w) option" where
  "Network_init env nw =
     (case Ethernetif_init env (apfst registerLinkCallback (lwip_call env Lwip_init nw)) of
       None \<Rightarrow> None
     | Some (n, w) \<Rightarrow> Some (n\<lparr>
         mLinkTimer := registerCallback CheckLinkState (setExpiry sLinkTimerPeriod_ms (mLinkTimer n)),
         mDHCPTimer := registerCallback DhcpProcess (setExpiry sDhcpTimerPeriod_ms (mDHCPTimer n))\<rparr>, w))"

definition Ethernetif_service ::
  "('w, 'm) net_env \<Rightarrow> 'm network \<times> 'w \<Rightarrow> ('m network \<times> 'w) option" where
  "Ethernetif_service env = (\<lambda>(n, w).
     case ethernetif_input (rx_functions env) (tx_ring n, rx_state n, w) of
       None \<Rightarrow> None
     | Some (tx, rx, w) \<Rightarrow> Some (n\<lparr>tx_ring := tx, rx_state := rx\<rparr>, w))"

definition poll_link_timer :: "('w, 'm) net_env \<Rightarrow> 'm network \<times> 'w \<Rightarrow> 'm network \<times> 'w" where
  "poll_link_timer env = (\<lambda>(n, w).
     let (t, w) = HAL_GetTick (hal env) w;
       (timer, cb) = poll t (mLinkTimer n)
     in run_callback env cb (n\<lparr>mLinkTimer := timer\<rparr>, w))"

definition poll_dhcp_timer :: "('w, 'm) net_env \<Rightarrow> 'm network \<times> 'w \<Rightarrow> 'm network \<times> 'w" where
  "poll_dhcp_timer env = (\<lambda>(n, w).
     let (t, w) = HAL_GetTick (hal env) w;
       (timer, cb) = poll t (mDHCPTimer n)
     in run_callback env cb (n\<lparr>mDHCPTimer := timer\<rparr>, w))"

definition lwipThread ::
  "('w, 'm) net_env \<Rightarrow> 'm network \<times> 'w \<Rightarrow> ('m network \<times> 'w) option" where
  "lwipThread env nw =
     (case Ethernetif_service env nw of
        None \<Rightarrow> None
      | Some nw \<Rightarrow>
          Some (poll_dhcp_timer env (poll_link_timer env (lwip_call env Sys_check_timeouts nw))))"

text \<open>The idle task calls the thread over and over.\<close>

fun lwip_loop ::
  "('w, 'm) net_env \<Rightarrow> nat \<Rightarrow> 'm network \<times> 'w \<Rightarrow> ('m network \<times> 'w) option" where
  "lwip_loop env 0 nw = Some nw"
| "lwip_loop env (Suc k) nw = (case lwipThread env nw of None \<Rightarrow> None | Some nw \<Rightarrow> lwip_loop env k nw)"

definition Network_new :: "netif \<Rightarrow> eth_tx \<Rightarrow> eth_rx \<Rightarrow> 'm network" where
  "Network_new g tx rx = \<lparr>mDhcpState = DhcpLinkDown, mDHCPTimer = LoopTimer_new, mLinkTimer = LoopTimer_new,
     link_flag = False, link_registered = False, mLinkCallback = False, gnetif = g, sLan8742 = \<lparr>mDevAddr = 0\<rparr>, tx_ring = tx,
     rx_state = rx, net_calls = [], link_calls = []\<rparr>"

section \<open>The state of the link and the state of DHCP\<close>

text \<open>
  With the link down there is no attempt to get an address; with the link up there has been one or
  there will be one. The timers run the callback they were set up with.
\<close>

definition calls_back :: "'m network \<Rightarrow> bool" where
  "calls_back n \<longleftrightarrow> link_registered n \<and> mLinkCallback n"

lemma dhcp_used [simp]:
  "dhcpStart env nw = lwip_call env Dhcp_start (lwip_call env Netif_clear_addresses nw)"
  "isDhcpSuppliedAddress env w = dhcp_supplied_address env w" "dhcpTries env w = dhcp_tries env w"
  by (simp_all add: dhcpStart_def isDhcpSuppliedAddress_def dhcpTries_def sUseDHCP_def)

definition net_inv :: "'m network \<Rightarrow> bool" where
  "net_inv n \<longleftrightarrow> calls_back n \<and> (link_flag n \<longleftrightarrow> mDhcpState n \<notin> {DhcpLinkDown, Off}) \<and>
     mCallback (mLinkTimer n) = Some CheckLinkState \<and> mCallback (mDHCPTimer n) = Some DhcpProcess"

lemma lwip_call_pair: "lwip_call env c (n, w) = (n\<lparr>net_calls := net_calls n @ [c]\<rparr>, lwip_effect env c w)"
  by (simp add: lwip_call_def)

lemma lwip_call_inv: "net_inv (fst (lwip_call env c nw)) \<longleftrightarrow> net_inv (fst nw)"
  by (cases nw) (simp add: lwip_call_def net_inv_def calls_back_def isLinkUp_def)

lemma set_link_flag_inv [inv_intros]: "net_inv n \<Longrightarrow> net_inv (set_link_flag up n)"
  by (auto simp: net_inv_def calls_back_def isLinkUp_def set_link_flag_def lwipLinkCallback_def linkStatusUpdated_def isLinkUp_def Let_def)

lemma do_link_op_inv [inv_intros]: "net_inv n \<Longrightarrow> net_inv (do_link_op op n)"
  by (cases op) (auto intro: inv_intros)

lemma net_inv_log: "net_inv (n\<lparr>link_calls := cs\<rparr>) \<longleftrightarrow> net_inv n"
  by (simp add: net_inv_def calls_back_def isLinkUp_def)

lemma do_init_op_inv [inv_intros]: "net_inv n \<Longrightarrow> net_inv (do_init_op op n)"
  by (cases op) (auto simp: net_inv_log intro: inv_intros)

lemma fold_init_op_inv [inv_intros]: "net_inv n \<Longrightarrow> net_inv (fold do_init_op ops n)"
  by (induction ops arbitrary: n) (auto intro: inv_intros)

lemma checkLinkState_inv [inv_intros]: "net_inv (fst nw) \<Longrightarrow> net_inv (fst (checkLinkState env nw))"
  by (cases nw) (auto simp: checkLinkState_def split: prod.splits intro: inv_intros)

lemma dhcpProcess_inv [inv_intros]: "net_inv (fst nw) \<Longrightarrow> net_inv (fst (dhcpProcess env nw))"
  by (cases nw) (auto simp: net_inv_def calls_back_def isLinkUp_def dhcpProcess_def dhcpStart_def setStaticIp_def lwip_call_def
      split: DhcpState.splits)

lemma run_callback_inv [inv_intros]: "net_inv (fst nw) \<Longrightarrow> net_inv (fst (run_callback env cb nw))"
  by (cases "(env, cb, nw)" rule: run_callback.cases) (auto intro: inv_intros)

lemma poll_link_timer_inv [inv_intros]:
  assumes "net_inv (fst nw)"
  shows "net_inv (fst (poll_link_timer env nw))"
proof (cases nw)
  case (Pair n w)
  obtain t w1 where t: "HAL_GetTick (hal env) w = (t, w1)" by fastforce
  obtain timer cb where p: "poll t (mLinkTimer n) = (timer, cb)" by fastforce
  have "net_inv (n\<lparr>mLinkTimer := timer\<rparr>)"
    using assms ltimer.keeps_callback [of t "mLinkTimer n"] Pair p by (simp add: net_inv_def calls_back_def isLinkUp_def)
  then show ?thesis by (simp add: poll_link_timer_def Pair t p run_callback_inv)
qed

lemma poll_dhcp_timer_inv [inv_intros]:
  assumes "net_inv (fst nw)"
  shows "net_inv (fst (poll_dhcp_timer env nw))"
proof (cases nw)
  case (Pair n w)
  obtain t w1 where t: "HAL_GetTick (hal env) w = (t, w1)" by fastforce
  obtain timer cb where p: "poll t (mDHCPTimer n) = (timer, cb)" by fastforce
  have "net_inv (n\<lparr>mDHCPTimer := timer\<rparr>)"
    using assms ltimer.keeps_callback [of t "mDHCPTimer n"] Pair p by (simp add: net_inv_def calls_back_def isLinkUp_def)
  then show ?thesis by (simp add: poll_dhcp_timer_def Pair t p run_callback_inv)
qed

lemma lwipThread_inv:
  assumes "net_inv (fst nw)" and "lwipThread env nw = Some nw'"
  shows "net_inv (fst nw')"
proof -
  obtain s where s: "Ethernetif_service env nw = Some s"
    and nw': "nw' = poll_dhcp_timer env (poll_link_timer env (lwip_call env Sys_check_timeouts s))"
    using assms(2) by (auto simp: lwipThread_def split: option.splits)
  have "net_inv (fst s)"
    using s assms(1) by (cases nw) (auto simp: Ethernetif_service_def net_inv_def calls_back_def isLinkUp_def split: option.splits)
  then show ?thesis by (auto simp: nw' lwip_call_inv intro!: inv_intros)
qed

lemma lwip_loop_inv:
  "net_inv (fst nw) \<Longrightarrow> lwip_loop env k nw = Some nw' \<Longrightarrow> net_inv (fst nw')"
  by (induction k arbitrary: nw) (auto split: option.splits dest: lwipThread_inv)

lemma linkStatusUpdated_state:
  "link_flag (linkStatusUpdated n) = link_flag n"
  "mDhcpState (linkStatusUpdated n) = (if link_flag n then Start else DhcpLinkDown)"
  by (simp_all add: linkStatusUpdated_def isLinkUp_def)

lemma do_init_op_callback: "mLinkCallback (fold do_init_op ops n) = mLinkCallback n"
proof (induction ops arbitrary: n)
  case (Cons op ops)
  have "mLinkCallback (do_link_op lop n) = mLinkCallback n" for lop and n :: "'a network"
    by (cases lop) (simp_all add: set_link_flag_def lwipLinkCallback_def linkStatusUpdated_def isLinkUp_def Let_def)
  then have "mLinkCallback (do_init_op op n) = mLinkCallback n" by (cases op) simp_all
  then show ?case using Cons by simp
qed simp

lemma Ethernetif_init_state:
  assumes "Ethernetif_init env nw = Some nw'" and "mLinkCallback (fst nw)"
  shows "calls_back (fst nw')"
    and "link_flag (fst nw') \<longleftrightarrow> mDhcpState (fst nw') \<noteq> DhcpLinkDown \<and> mDhcpState (fst nw') \<noteq> Off"
    and "mDhcpState (fst nw') \<in> {Start, DhcpLinkDown}"
proof -
  let ?add = "if sUseDHCP then Netif_add zero_ip4 zero_ip4 zero_ip4 else Netif_add IP_ADDR NETMASK_ADDR GW_ADDR"
  obtain n0 w0 where c: "lwip_call env ?add nw = (n0, w0)" by fastforce
  then have cb: "mLinkCallback n0" using assms(2) by (cases nw) (auto simp: lwip_call_def)
  obtain err g p ops w1 where e: "ethernetif_init (hal env) (eth_constants env) (link_flag n0) (Some (gnetif n0))
      (sLan8742 n0, w0) = Some (err, g, p, ops, w1)"
    using assms(1) c by (auto simp: Ethernetif_init_def Let_def split: option.splits prod.splits)
  let ?n = "fold do_init_op ops (n0\<lparr>gnetif := case g of Some g \<Rightarrow> g | None \<Rightarrow> gnetif n0, sLan8742 := p\<rparr>)"
  define n1 where "n1 = ?n\<lparr>net_calls := net_calls ?n @ [Netif_set_default]\<rparr>"
  have "mLinkCallback n1" using cb by (simp add: n1_def do_init_op_callback)
  moreover from this have "fst nw' = (linkStatusUpdated n1)
      \<lparr>net_calls := net_calls (linkStatusUpdated n1) @ [Netif_set_link_callback], link_registered := True\<rparr>"
    using assms(1) by (auto simp: Ethernetif_init_def c e lwip_call_pair Let_def n1_def)
  ultimately obtain n1 where "mLinkCallback n1" and "fst nw' = (linkStatusUpdated n1)
      \<lparr>net_calls := net_calls (linkStatusUpdated n1) @ [Netif_set_link_callback], link_registered := True\<rparr>"
    by blast
  then show "calls_back (fst nw')"
    and "link_flag (fst nw') \<longleftrightarrow> mDhcpState (fst nw') \<noteq> DhcpLinkDown \<and> mDhcpState (fst nw') \<noteq> Off"
    and "mDhcpState (fst nw') \<in> {Start, DhcpLinkDown}"
    by (simp_all add: linkStatusUpdated_def isLinkUp_def calls_back_def)
qed

lemma Network_init_inv:
  assumes "Network_init env nw = Some nw'"
  shows "net_inv (fst nw')"
proof -
  obtain n w where e: "Ethernetif_init env (apfst registerLinkCallback (lwip_call env Lwip_init nw)) = Some (n, w)"
    and nw': "fst nw' = n\<lparr>
      mLinkTimer := registerCallback CheckLinkState (setExpiry sLinkTimerPeriod_ms (mLinkTimer n)),
      mDHCPTimer := registerCallback DhcpProcess (setExpiry sDhcpTimerPeriod_ms (mDHCPTimer n))\<rparr>"
    using assms by (auto simp: Network_init_def split: option.splits)
  then show ?thesis
    using Ethernetif_init_state [OF e] by (simp add: net_inv_def calls_back_def registerLinkCallback_def registerCallback_def)
qed

lemma Network_init_dhcp:
  assumes "Network_init env nw = Some nw'"
  shows "mDhcpState (fst nw') \<in> {Start, DhcpLinkDown}"
proof -
  obtain n w where e: "Ethernetif_init env (apfst registerLinkCallback (lwip_call env Lwip_init nw)) = Some (n, w)"
    and "mDhcpState (fst nw') = mDhcpState n"
    using assms by (auto simp: Network_init_def split: option.splits)
  then show ?thesis using Ethernetif_init_state(3) [OF e] by (simp add: registerLinkCallback_def)
qed

subsection \<open>Initialisation and the loop end\<close>

text \<open>The clock runs: from any moment on, a read of the PHY comes at which the timeout is over.\<close>

definition clock_runs :: "'w phy_env \<Rightarrow> bool" where
  "clock_runs env \<longleftrightarrow> (\<forall>dev start w. \<exists>n. sResetTimeout_ms <
     round_time env dev ((round_world env dev ^^ n) w) - start)"

lemma Network_init_returns:
  assumes "clock_runs (Ether (hal env))"
  shows "\<exists>n' w'. Network_init env (n, w) = Some (n', w')"
proof -
  have "\<forall>p w. \<exists>r. Lan8742_init (Ether (hal env)) (p, w) = Some r"
    using Lan8742_init_returns [of "Ether (hal env)"] assms by (auto simp: clock_runs_def)
  then obtain f where "Lan8742_init (Ether (hal env)) (p, w) = Some (f p w)" for p w by metis
  then have "\<forall>k up g p w. \<exists>r. ethernetif_init (hal env) k up g (p, w) = Some r"
    by (auto simp: ethernetif_init_def low_level_init_def Let_def split: option.split prod.split)
  then obtain e where "ethernetif_init (hal env) k up g (p, w) = Some (e k up g p w)" for k up g p w by metis
  then have "Network_init env (n, w) \<noteq> None"
    by (simp add: Network_init_def Ethernetif_init_def Let_def split: prod.split)
  then show ?thesis by auto
qed

lemma releaseTxBuffers_returns: "tx_inv tx \<Longrightarrow> \<exists>tx'. releaseTxBuffers tx = Some tx'"
  using releaseTxBuffers_spec [of tx] releaseTxBuffers_full [of tx] indices_equal_iff [of tx]
  by (cases "0 < unat (sAvaliableSize tx)") blast+

lemma lwipThread_returns:
  assumes "tx_inv (tx_ring n)" and "drains (rx_functions env) (rx_state n, w) sw"
  shows "\<exists>n' w'. lwipThread env (n, w) = Some (n', w')"
proof -
  obtain tx where "releaseTxBuffers (tx_ring n) = Some tx" using releaseTxBuffers_returns [OF assms(1)] ..
  then have "Ethernetif_service env (n, w) \<noteq> None"
    using inputLoop_drains [OF assms(2)] by (simp add: Ethernetif_service_def ethernetif_input_def split: prod.split)
  then have "lwipThread env (n, w) \<noteq> None" by (auto simp: lwipThread_def)
  then show ?thesis by auto
qed

subsection \<open>The transmit ring in the network loop\<close>

text \<open>Nothing here changes the ring but the release of finished packets in the service function.\<close>

lemma lwip_call_ring [simp]: "tx_ring (fst (lwip_call env c nw)) = tx_ring (fst nw)"
  by (cases nw) (simp add: lwip_call_def)

lemma set_link_flag_ring [simp]: "tx_ring (set_link_flag up n) = tx_ring n"
  by (simp add: set_link_flag_def lwipLinkCallback_def linkStatusUpdated_def isLinkUp_def Let_def)

lemma do_link_op_ring [simp]: "tx_ring (do_link_op op n) = tx_ring n"
  by (cases op) simp_all

lemma do_init_op_ring [simp]: "tx_ring (do_init_op op n) = tx_ring n"
  by (cases op) simp_all

lemma fold_init_op_ring [simp]: "tx_ring (fold do_init_op ops n) = tx_ring n"
  by (induction ops arbitrary: n) simp_all

lemma run_callback_ring [simp]: "tx_ring (fst (run_callback env cb nw)) = tx_ring (fst nw)"
proof -
  have "tx_ring (fst (checkLinkState env (n, w))) = tx_ring n" for n w
    by (simp add: checkLinkState_def split: prod.split)
  moreover have "tx_ring (fst (dhcpProcess env (n, w))) = tx_ring n" for n w
    by (simp add: dhcpProcess_def dhcpStart_def setStaticIp_def lwip_call_def split: DhcpState.split)
  ultimately show ?thesis by (cases nw) (cases "(env, cb, nw)" rule: run_callback.cases; simp)
qed

lemma poll_timers_ring:
  "tx_ring (fst (poll_link_timer env nw)) = tx_ring (fst nw)"
  "tx_ring (fst (poll_dhcp_timer env nw)) = tx_ring (fst nw)"
  by (cases nw; simp add: poll_link_timer_def poll_dhcp_timer_def split: prod.split)+

lemma lwipThread_ring:
  assumes "lwipThread env nw = Some nw'"
  shows "releaseTxBuffers (tx_ring (fst nw)) = Some (tx_ring (fst nw'))"
proof -
  obtain s where s: "Ethernetif_service env nw = Some s"
    and nw': "nw' = poll_dhcp_timer env (poll_link_timer env (lwip_call env Sys_check_timeouts s))"
    using assms by (auto simp: lwipThread_def split: option.splits)
  from s have "releaseTxBuffers (tx_ring (fst nw)) = Some (tx_ring (fst s))"
    by (cases nw) (auto simp: Ethernetif_service_def ethernetif_input_def split: option.splits)
  then show ?thesis by (simp add: nw' poll_timers_ring)
qed

lemma Network_init_ring:
  assumes "Network_init env nw = Some nw'"
  shows "tx_ring (fst nw') = tx_ring (fst nw)"
  using assms
  by (cases nw) (auto simp: Network_init_def Ethernetif_init_def lwip_call_def linkStatusUpdated_def isLinkUp_def
      registerLinkCallback_def Let_def split: option.splits prod.splits if_splits)

subsection \<open>Checks of the link\<close>

lemma do_init_op_idle:
  assumes "op \<noteq> Netif_set_link_up" and "op \<noteq> Netif_set_link_down"
  shows "link_flag (do_init_op (Link_op op) n) = link_flag n"
    "mDhcpState (do_init_op (Link_op op) n) = mDhcpState n"
    "calls_back (do_init_op (Link_op op) n) = calls_back n"
  using assms by (cases op; simp add: calls_back_def)+

lemma do_init_op_flag:
  "calls_back n \<Longrightarrow> link_flag (do_init_op (Link_op Netif_set_link_up) n) = True"
  "calls_back n \<Longrightarrow> link_flag (do_init_op (Link_op Netif_set_link_down) n) = False"
  "calls_back n \<Longrightarrow>
    mDhcpState (do_init_op (Link_op Netif_set_link_up) n) = (if link_flag n then mDhcpState n else Start)"
  "calls_back n \<Longrightarrow>
    mDhcpState (do_init_op (Link_op Netif_set_link_down) n) = (if link_flag n then DhcpLinkDown else mDhcpState n)"
  by (auto simp: set_link_flag_def lwipLinkCallback_def linkStatusUpdated_def isLinkUp_def calls_back_def Let_def)

lemma link_ops_effect:
  assumes "calls_back n"
  shows "link_flag (fold do_init_op (map Link_op (link_ops st (link_flag n) mac)) n) =
      (if link_is_down st then False else if link_mode st \<noteq> None then True else link_flag n)"
    and "mDhcpState (fold do_init_op (map Link_op (link_ops st (link_flag n) mac)) n) =
      (if link_flag n \<and> link_is_down st then DhcpLinkDown
       else if \<not> link_flag n \<and> link_mode st \<noteq> None then Start else mDhcpState n)"
proof -
  note steps = do_init_op_idle do_init_op_flag assms
  show "link_flag (fold do_init_op (map Link_op (link_ops st (link_flag n) mac)) n) =
      (if link_is_down st then False else if link_mode st \<noteq> None then True else link_flag n)"
    by (cases rule: link_ops_cases [of "link_flag n" st mac])
      (auto simp del: do_init_op.simps simp: steps dest: link_down_mode)
  show "mDhcpState (fold do_init_op (map Link_op (link_ops st (link_flag n) mac)) n) =
      (if link_flag n \<and> link_is_down st then DhcpLinkDown
       else if \<not> link_flag n \<and> link_mode st \<noteq> None then Start else mDhcpState n)"
    by (cases rule: link_ops_cases [of "link_flag n" st mac])
      (auto simp del: do_init_op.simps simp: steps dest: link_down_mode)
qed

subsection \<open>Runs of the DHCP process\<close>

text \<open>The process called once for each of the worlds \<open>ws\<close>, with nothing else in between.\<close>

fun dhcp_run :: "('w, 'm) net_env \<Rightarrow> 'w list \<Rightarrow> 'm network \<Rightarrow> 'm network" where
  "dhcp_run env [] n = n"
| "dhcp_run env (w # ws) n = dhcp_run env ws (fst (dhcpProcess env (n, w)))"

text \<open>What decides a run: the first poll at which lwIP has an address or has tried too often.\<close>

fun dhcp_verdict :: "('w, 'm) net_env \<Rightarrow> 'w list \<Rightarrow> DhcpState" where
  "dhcp_verdict env [] = WaitAddress"
| "dhcp_verdict env (w # ws) =
     (if dhcp_supplied_address env w then AddressAssigned
      else if 2 < dhcp_tries env w then Timeout else dhcp_verdict env ws)"

lemma dhcp_run_settled:
  "mDhcpState n \<in> {AddressAssigned, Timeout, Off} \<Longrightarrow> dhcp_run env ws n = n"
  by (induction ws) (auto simp: dhcpProcess_def)

lemma dhcp_run_waiting:
  assumes "mDhcpState n = WaitAddress"
  shows "mDhcpState (dhcp_run env ws n) = dhcp_verdict env ws \<and>
    net_calls (dhcp_run env ws n) = net_calls n @
      (if dhcp_verdict env ws = Timeout then [Netif_set_addr IP_ADDR NETMASK_ADDR GW_ADDR] else [])"
  using assms
proof (induction ws)
  case (Cons w ws)
  consider "dhcp_supplied_address env w" | "\<not> dhcp_supplied_address env w" "2 < dhcp_tries env w"
    | "\<not> dhcp_supplied_address env w" "\<not> 2 < dhcp_tries env w" by blast
  then show ?case
  proof cases
    case 3
    then have "fst (dhcpProcess env (n, w)) = n"
      using Cons.prems by (simp add: dhcpProcess_def sMaxDhcpTries_def)
    then show ?thesis using 3 Cons by simp
  qed (use Cons.prems in \<open>simp_all add: dhcpProcess_def sMaxDhcpTries_def setStaticIp_def lwip_call_def
      dhcp_run_settled\<close>)
qed simp

section \<open>An example\<close>

text \<open>
  A board whose PHY answers at address 0 with a link that is up at 10 Mbit half duplex; the world is
  the tick counter, which advances by a second with each reading. DHCP gets no answer.
\<close>

definition sample_hal :: "(u32, unit) eth_hal" where
  "sample_hal = \<lparr>HAL_ETH_ReadPHYRegister = (\<lambda>d r w. ((HAL_OK, if r = sAddr_BSR then 4 else 0), w)),
     HAL_ETH_WritePHYRegister = (\<lambda>d r v w. (HAL_OK, w)), HAL_GetTick = (\<lambda>w. (w, w + 1000)),
     HAL_Delay = (\<lambda>n w. w + n),
     HAL_ETH_GetMACConfig = (\<lambda>w. \<lparr>DuplexMode = ETH_FULLDUPLEX_MODE, Speed = ETH_SPEED_100M, other_settings = ()\<rparr>),
     effect = (\<lambda>op w. w)\<rparr>"

definition sample_rx :: "u32 rx_env" where
  "sample_rx = \<lparr>mempool_alloc = Pair 0, mempool_free = (\<lambda>p w. w), HAL_ETH_ReadData = (\<lambda>(s, w). (0, s, w)),
     netif_input = (\<lambda>p (s, w). (ERR_OK, s, w)), rx_pbuf_free = (\<lambda>p (s, w). (s, w))\<rparr>"

definition sample_env :: "(u32, unit) net_env" where
  "sample_env = \<lparr>hal = sample_hal,
     eth_constants = sample_consts, rx_functions = sample_rx, dhcp_supplied_address = (\<lambda>w. False), dhcp_tries = (\<lambda>w. w),
     lwip_effect = (\<lambda>c w. w)\<rparr>"

lemma sample_find: "findDevice (Ether sample_hal) 0 w = (Some 0, w)"
  by (simp add: findDevice.simps [of _ 0] Ether_def Ether_readReg_def sample_hal_def phy_consts)

lemma sample_reset: "awaitReset (Ether sample_hal) 0 t w = Some (Ok, w)"
  by (simp add: awaitReset.simps [of _ 0] Ether_def Ether_readReg_def sample_hal_def phy_consts)

lemma sample_link: "getLinkState (Ether sample_hal) (p, w) = (HalfDuplex10Mbit, w)"
  by (simp add: getLinkState_def Ether_def Ether_readReg_def sample_hal_def phy_consts)

lemma sample_phy: "Lan8742_init (Ether sample_hal) (p, w) = Some (Ok, \<lparr>mDevAddr = 0\<rparr>, w + 3000)"
proof -
  have "writeReg (Ether sample_hal) 0 r v w = (True, w)" for r v w
    by (simp add: Ether_def Ether_writeReg_def sample_hal_def)
  moreover have "tick (Ether sample_hal) w = (w, w + 1000)" and "wait (Ether sample_hal) n w = w + n" for w n
    by (simp_all add: Ether_def sample_hal_def)
  ultimately show ?thesis
    by (simp add: Lan8742_init_def sample_find sample_reset sInitializationWaitTime_ms_def add.assoc)
qed

lemma sample_service:
  assumes "tx_ring n = eth_tx_init"
  shows "Ethernetif_service sample_env (n, w) = Some (n, w)"
proof -
  have "releaseTxBuffers eth_tx_init = Some eth_tx_init"
    by (subst releaseTxBuffers.simps) (simp add: eth_tx_init_def)
  moreover have "inputLoop sample_rx (s, w) = Some (s, w)" for s w
    by (subst inputLoop.simps) (simp add: low_level_input_def sample_rx_def)
  ultimately show ?thesis
    using assms by (simp add: Ethernetif_service_def ethernetif_input_def sample_env_def)
qed

lemma sample_init:
  "\<exists>n w. Network_init sample_env (Network_new sample_netif eth_tx_init rx_start, 0) = Some (n, w) \<and>
    tx_ring n = eth_tx_init"
  by (simp add: Network_init_def Ethernetif_init_def ethernetif_init_def low_level_init_def sample_env_def
      sample_phy ethernet_link_check_state_def sample_link lwip_call_def Network_new_def link_ops_def
      set_link_flag_def linkStatusUpdated_def isLinkUp_def registerLinkCallback_def Let_def)

section \<open>Properties\<close>

text \<open>
  C10. At every point of the network loop, after initialisation, the DHCP state machine agrees with lwIP's
  link flag: it is in one of its link-down states exactly while the link is down.
\<close>

theorem dhcp_state_follows_link:
  assumes "Network_init env (Network_new g tx rx, w) = Some nw" and "lwip_loop env k nw = Some (n, w')"
  shows "link_flag n \<longleftrightarrow> mDhcpState n \<noteq> DhcpLinkDown \<and> mDhcpState n \<noteq> Off"
  using lwip_loop_inv [OF Network_init_inv [OF assms(1)] assms(2)] by (simp add: net_inv_def calls_back_def isLinkUp_def)

theorem dhcp_state_follows_link_witness:
  "\<exists>nw n w'. Network_init sample_env (Network_new sample_netif eth_tx_init rx_start, 0) = Some nw \<and>
    lwip_loop sample_env 1 nw = Some (n, w') \<and>
    (link_flag n \<longleftrightarrow> mDhcpState n \<noteq> DhcpLinkDown \<and> mDhcpState n \<noteq> Off)"
proof -
  obtain n0 w0 where i: "Network_init sample_env (Network_new sample_netif eth_tx_init rx_start, 0) = Some (n0, w0)"
    and t: "tx_ring n0 = eth_tx_init" using sample_init by blast
  obtain n w' where l: "lwip_loop sample_env 1 (n0, w0) = Some (n, w')"
    using sample_service [OF t] by (metis One_nat_def lwipThread_def lwip_loop.simps option.simps(5) surj_pair)
  show ?thesis using i l dhcp_state_follows_link [OF i l] by blast
qed

text \<open>
  A link check that sees the cable pulled puts DHCP into \<open>LinkDown\<close>, one that sees the link come back
  with any of the four modes makes it start again, and every other check leaves it alone.
\<close>

theorem check_drives_dhcp:
  assumes "calls_back n" and "getLinkState (Ether (hal env)) (sLan8742 n, w) = (st, w')"
  shows "link_flag (fst (checkLinkState env (n, w))) =
      (if link_is_down st then False else if link_mode st \<noteq> None then True else link_flag n) \<and>
    mDhcpState (fst (checkLinkState env (n, w))) =
      (if link_flag n \<and> link_is_down st then DhcpLinkDown
       else if \<not> link_flag n \<and> link_mode st \<noteq> None then Start else mDhcpState n)"
  using link_ops_effect [OF assms(1), of st "HAL_ETH_GetMACConfig (hal env) w'"] assms(2)
  by (simp_all add: checkLinkState_def ethernet_link_check_state_def Let_def)

theorem check_drives_dhcp_witness:
  "\<exists>n. \<not> link_flag n \<and> link_flag (fst (checkLinkState sample_env (n, 0))) \<and>
    mDhcpState (fst (checkLinkState sample_env (n, 0))) = Start"
proof -
  define n :: "unit network" where "n = (Network_new sample_netif eth_tx_init rx_start)\<lparr>link_registered := True, mLinkCallback := True\<rparr>"
  have "calls_back n" and "\<not> link_flag n" by (simp_all add: n_def Network_new_def calls_back_def)
  moreover have "getLinkState (Ether (hal sample_env)) (sLan8742 n, 0) = (HalfDuplex10Mbit, 0)"
    by (simp add: sample_env_def sample_link)
  ultimately show ?thesis
    using check_drives_dhcp [of n sample_env 0 HalfDuplex10Mbit 0]
    by (intro exI [of _ n]) (simp add: link_is_down_def)
qed

text \<open>
  Once the link is up, the DHCP process clears the addresses and starts DHCP exactly once, then waits
  until lwIP has an address or has tried more than twice; in the second case, and only then, it sets
  the static address, exactly once. It then stays where it is.
\<close>

theorem dhcp_outcome:
  assumes "mDhcpState n = Start"
  shows "mDhcpState (dhcp_run env (w # ws) n) = dhcp_verdict env ws \<and>
    net_calls (dhcp_run env (w # ws) n) = net_calls n @ [Netif_clear_addresses, Dhcp_start] @
      (if dhcp_verdict env ws = Timeout then [Netif_set_addr IP_ADDR NETMASK_ADDR GW_ADDR] else [])"
proof -
  define n1 where "n1 = fst (dhcpProcess env (n, w))"
  have "mDhcpState n1 = WaitAddress" and "net_calls n1 = net_calls n @ [Netif_clear_addresses, Dhcp_start]"
    using assms by (simp_all add: n1_def dhcpProcess_def dhcpStart_def lwip_call_def)
  then show ?thesis using dhcp_run_waiting [of n1 env ws] by (simp add: n1_def)
qed

theorem dhcp_outcome_witness:
  "\<exists>n. mDhcpState (dhcp_run sample_env [0, 1, 2, 3, 4] n) = Timeout \<and>
    net_calls (dhcp_run sample_env [0, 1, 2, 3, 4] n) =
      [Netif_clear_addresses, Dhcp_start, Netif_set_addr IP_ADDR NETMASK_ADDR GW_ADDR]"
proof -
  define n :: "unit network" where "n = (Network_new sample_netif eth_tx_init rx_start)\<lparr>mDhcpState := Start\<rparr>"
  have "mDhcpState n = Start" and "net_calls n = []" by (simp_all add: n_def Network_new_def)
  then show ?thesis
    using dhcp_outcome [of n sample_env 0 "[1, 2, 3, 4]"]
    by (intro exI [of _ n]) (simp add: sample_env_def)
qed

end
