(* ===== verification/Lwip_Api.thy ===== *)
theory Lwip_Api
  imports Pbuf
begin

text \<open>
  The functions of lwIP that the TCP server calls. lwIP is not part of the repository, so the record
  \<open>lwip\<close> that holds them is an argument of every definition that calls one; \<open>'w\<close> is everything that
  lwIP, the heap of pbufs and the rest of the machine keep. \<open>lwip_laws\<close> states what lwIP documents
  about packet buffers and about \<open>tcp_write\<close>; only the theorems that name it rely on it.
\<close>

section \<open>The interface\<close>

text \<open>The static functions of \<open>TcpServer\<close> that are registered with lwIP.\<close>

datatype server_callback = Accept_cb | Recv_cb | Error_cb | Poll_cb | Sent_cb

text \<open>What \<open>tcp_arg\<close> stores: the address of the listening connection or of a list entry.\<close>

datatype conn_ref = Listening_conn | Accepted_conn nat

record 'w lwip =
  pbuf_mem :: "'w \<Rightarrow> heap"
  pbuf_ref :: "ptr \<Rightarrow> 'w \<Rightarrow> 'w"
  pbuf_free :: "ptr \<Rightarrow> 'w \<Rightarrow> u8 \<times> 'w"
  pbuf_chain :: "ptr \<Rightarrow> ptr \<Rightarrow> 'w \<Rightarrow> 'w"
  tcp_new :: "'w \<Rightarrow> ptr \<times> 'w"
  tcp_bind :: "ptr \<Rightarrow> ptr \<Rightarrow> u16 \<Rightarrow> 'w \<Rightarrow> err_t \<times> 'w"
  tcp_listen :: "ptr \<Rightarrow> 'w \<Rightarrow> ptr \<times> 'w"
  tcp_close :: "ptr \<Rightarrow> 'w \<Rightarrow> err_t \<times> 'w"
  tcp_abort :: "ptr \<Rightarrow> 'w \<Rightarrow> 'w"
  tcp_arg :: "ptr \<Rightarrow> conn_ref \<Rightarrow> 'w \<Rightarrow> 'w"
  tcp_accept :: "ptr \<Rightarrow> server_callback \<Rightarrow> 'w \<Rightarrow> 'w"
  tcp_recv :: "ptr \<Rightarrow> server_callback \<Rightarrow> 'w \<Rightarrow> 'w"
  tcp_err :: "ptr \<Rightarrow> server_callback \<Rightarrow> 'w \<Rightarrow> 'w"
  tcp_poll :: "ptr \<Rightarrow> server_callback \<Rightarrow> u8 \<Rightarrow> 'w \<Rightarrow> 'w"
  tcp_sent :: "ptr \<Rightarrow> server_callback \<Rightarrow> 'w \<Rightarrow> 'w"
  tcp_setprio_min :: "ptr \<Rightarrow> 'w \<Rightarrow> 'w"
  tcp_recved :: "ptr \<Rightarrow> u16 \<Rightarrow> 'w \<Rightarrow> 'w"
  tcp_sndbuf :: "ptr \<Rightarrow> 'w \<Rightarrow> u16"
  tcp_write_copy :: "ptr \<Rightarrow> ptr \<Rightarrow> u16 \<Rightarrow> 'w \<Rightarrow> err_t \<times> 'w"
  tcp_output :: "ptr \<Rightarrow> 'w \<Rightarrow> 'w"

section \<open>What lwIP documents\<close>

text \<open>
  A view of the world: \<open>refs\<close> counts the references to a pbuf that the application holds, directly
  or through a chain it holds; \<open>read_mem\<close> reads bytes of memory; \<open>queued\<close> is everything that
  \<open>tcp_write\<close> has accepted on a control block so far, in order.
\<close>

record 'w lwip_view =
  refs :: "'w \<Rightarrow> ptr \<Rightarrow> nat"
  read_mem :: "'w \<Rightarrow> ptr \<Rightarrow> u16 \<Rightarrow> u8 list"
  queued :: "'w \<Rightarrow> ptr \<Rightarrow> u8 list"

definition bytes :: "'w lwip \<Rightarrow> 'w lwip_view \<Rightarrow> 'w \<Rightarrow> ptr \<Rightarrow> u8 list" where
  "bytes api v w q = read_mem v w (p_payload (pbuf_mem api w q)) (p_len (pbuf_mem api w q))"

definition live :: "'w lwip_view \<Rightarrow> 'w \<Rightarrow> ptr set" where
  "live v w = {q. 0 < refs v w q}"

text \<open>The pbufs of a set keep their fields and their data.\<close>

definition untouched :: "'w lwip \<Rightarrow> 'w lwip_view \<Rightarrow> ptr set \<Rightarrow> 'w \<Rightarrow> 'w \<Rightarrow> bool" where
  "untouched api v S w w' \<longleftrightarrow>
     (\<forall>q\<in>S. pbuf_mem api w' q = pbuf_mem api w q \<and> bytes api v w' q = bytes api v w q)"

text \<open>A call that changes neither the application's pbufs nor the data queued for sending.\<close>

definition quiet :: "'w lwip \<Rightarrow> 'w lwip_view \<Rightarrow> 'w \<Rightarrow> 'w \<Rightarrow> bool" where
  "quiet api v w w' \<longleftrightarrow> refs v w' = refs v w \<and> queued v w' = queued v w \<and> untouched api v (live v w) w w'"

text \<open>
  \<open>pbuf_free\<close> takes one reference from the first buffer of a chain; a buffer that had one only is
  deallocated and gives up its reference to the next one.
\<close>

fun drop_refs :: "ptr list \<Rightarrow> (ptr \<Rightarrow> nat) \<Rightarrow> ptr \<Rightarrow> nat" where
  "drop_refs [] r = r"
| "drop_refs (q # qs) r = (if r q = 1 then drop_refs qs (r(q := 0)) else r(q := r q - 1))"

definition ref_law :: "'w lwip \<Rightarrow> 'w lwip_view \<Rightarrow> bool" where
  "ref_law api v \<longleftrightarrow> (\<forall>w p. p \<in> live v w \<longrightarrow>
     refs v (pbuf_ref api p w) = (refs v w)(p := Suc (refs v w p)) \<and>
     queued v (pbuf_ref api p w) = queued v w \<and>
     untouched api v (live v w) w (pbuf_ref api p w))"

definition free_law :: "'w lwip \<Rightarrow> 'w lwip_view \<Rightarrow> bool" where
  "free_law api v \<longleftrightarrow> (\<forall>w p ps. is_chain (pbuf_mem api w) p ps \<longrightarrow> ps \<noteq> [] \<longrightarrow> set ps \<subseteq> live v w \<longrightarrow>
     (let w' = snd (pbuf_free api p w) in
       refs v w' = drop_refs ps (refs v w) \<and> queued v w' = queued v w \<and>
       untouched api v (live v w') w w'))"

definition chain_law :: "'w lwip \<Rightarrow> 'w lwip_view \<Rightarrow> bool" where
  "chain_law api v \<longleftrightarrow> (\<forall>w h hs t ts.
     is_chain (pbuf_mem api w) h hs \<longrightarrow> is_chain (pbuf_mem api w) t ts \<longrightarrow> hs \<noteq> [] \<longrightarrow> ts \<noteq> [] \<longrightarrow>
     set hs \<inter> set ts = {} \<longrightarrow> set hs \<union> set ts \<subseteq> live v w \<longrightarrow>
     (let w' = pbuf_chain api h t w in
       refs v w' = (refs v w)(t := Suc (refs v w t)) \<and> queued v w' = queued v w \<and>
       untouched api v (live v w - set hs) w w' \<and>
       is_chain (pbuf_mem api w') h (hs @ ts) \<and>
       (\<forall>q\<in>set hs. bytes api v w' q = bytes api v w q \<and>
          p_len (pbuf_mem api w' q) = p_len (pbuf_mem api w q))))"

definition write_law :: "'w lwip \<Rightarrow> 'w lwip_view \<Rightarrow> bool" where
  "write_law api v \<longleftrightarrow> (\<forall>w pcb a n. case tcp_write_copy api pcb a n w of (err, w') \<Rightarrow>
     refs v w' = refs v w \<and> untouched api v (live v w) w w' \<and>
     queued v w' = (if err = ERR_OK then (queued v w)(pcb := queued v w pcb @ read_mem v w a n)
                    else queued v w))"

definition quiet_law :: "'w lwip \<Rightarrow> 'w lwip_view \<Rightarrow> bool" where
  "quiet_law api v \<longleftrightarrow> (\<forall>w pcb n. quiet api v w (tcp_output api pcb w) \<and>
     quiet api v w (tcp_recved api pcb n w))"

text \<open>
  \<open>pbuf_free\<close> of \<open>nullptr\<close> is reported by an assertion of lwIP; with assertions off it does nothing.
\<close>

definition free_null_quiet :: "'w lwip \<Rightarrow> 'w lwip_view \<Rightarrow> bool" where
  "free_null_quiet api v \<longleftrightarrow> (\<forall>w. quiet api v w (snd (pbuf_free api 0 w)))"

definition lwip_laws :: "'w lwip \<Rightarrow> 'w lwip_view \<Rightarrow> bool" where
  "lwip_laws api v \<longleftrightarrow> ref_law api v \<and> free_law api v \<and> chain_law api v \<and> write_law api v \<and>
     quiet_law api v"

section \<open>Consequences\<close>

lemma untouchedD:
  "untouched api v S w w' \<Longrightarrow> q \<in> S \<Longrightarrow> pbuf_mem api w' q = pbuf_mem api w q"
  "untouched api v S w w' \<Longrightarrow> q \<in> S \<Longrightarrow> bytes api v w' q = bytes api v w q"
  by (auto simp: untouched_def)

lemma untouched_mono: "untouched api v S w w' \<Longrightarrow> T \<subseteq> S \<Longrightarrow> untouched api v T w w'"
  by (auto simp: untouched_def)

lemma untouched_trans:
  "untouched api v S w w' \<Longrightarrow> untouched api v T w' w'' \<Longrightarrow> untouched api v (S \<inter> T) w w''"
  by (auto simp: untouched_def)

lemma untouched_chain:
  "untouched api v S w w' \<Longrightarrow> set ps \<subseteq> S \<Longrightarrow>
    is_chain (pbuf_mem api w') p ps = is_chain (pbuf_mem api w) p ps"
  by (rule is_chain_cong) (auto simp: untouched_def)

lemma untouched_bytes:
  "untouched api v S w w' \<Longrightarrow> set ps \<subseteq> S \<Longrightarrow> map (bytes api v w') ps = map (bytes api v w) ps"
  by (auto simp: untouched_def)

lemma quiet_refl [simp]: "quiet api v w w"
  by (simp add: quiet_def untouched_def)

lemma live_iff [simp]: "q \<in> live v w \<longleftrightarrow> 0 < refs v w q"
  by (simp add: live_def)

lemma live_cong: "refs v w' = refs v w \<Longrightarrow> live v w' = live v w"
  by (simp add: live_def)

lemma quiet_trans: "quiet api v w w' \<Longrightarrow> quiet api v w' w'' \<Longrightarrow> quiet api v w w''"
  by (auto simp: quiet_def untouched_def)

text \<open>One buffer freed and one more reference on the next: what one round of sending does.\<close>

lemma drop_refs_other: "q \<notin> set ps \<Longrightarrow> drop_refs ps r q = r q"
  by (induction ps arbitrary: r) auto

lemma drop_refs_le: "drop_refs ps r q \<le> r q"
proof (induction ps arbitrary: r)
  case (Cons p ps)
  have "drop_refs ps (r(p := 0)) q \<le> r q"
    by (rule le_trans [OF Cons.IH]) simp
  then show ?case by simp
qed simp

lemma drop_refs_all_one:
  assumes "distinct ps" and "\<forall>q\<in>set ps. r q = 1"
  shows "drop_refs ps r = (\<lambda>q. if q \<in> set ps then 0 else r q)"
  using assms
proof (induction ps arbitrary: r)
  case (Cons p ps)
  then have "drop_refs ps (r(p := 0)) = (\<lambda>q. if q \<in> set ps then 0 else (r(p := 0)) q)"
    by (intro Cons.IH) auto
  then show ?case using Cons.prems by (auto simp: fun_eq_iff)
qed auto

lemma drop_refs_stop:
  assumes "distinct (xs @ p # qs)" and "\<forall>q\<in>set xs. r q = 1" and "r p \<noteq> 1"
  shows "drop_refs (xs @ p # qs) r = (\<lambda>q. if q \<in> set xs then 0 else if q = p then r p - 1 else r q)"
  using assms
proof (induction xs arbitrary: r)
  case (Cons x xs)
  then have "drop_refs (xs @ p # qs) (r(x := 0)) =
      (\<lambda>q. if q \<in> set xs then 0 else if q = p then (r(x := 0)) p - 1 else (r(x := 0)) q)"
    by (intro Cons.IH) auto
  then show ?case using Cons.prems by (auto simp: fun_eq_iff)
qed (auto simp: fun_eq_iff)

end
