(* ===== verification/Lwip_Instance.thy ===== *)
theory Lwip_Instance
  imports Lwip_Api
begin

text \<open>
  A small implementation of the functions in \<open>lwip\<close> for which \<open>lwip_laws\<close> is proved, so that the
  laws are known to be consistent and the theorems that rest on them can be applied. It stands for
  nothing in the repository: the byte at an address is the low byte of the address, and a control
  block accepts writes of at most \<open>room\<close> bytes.
\<close>

record mini =
  mini_mem :: heap
  mini_refs :: "ptr \<Rightarrow> nat"
  mini_out :: "ptr \<Rightarrow> u8 list"

fun walk :: "nat \<Rightarrow> heap \<Rightarrow> ptr \<Rightarrow> ptr list" where
  "walk 0 h p = []"
| "walk (Suc n) h p = (if p = 0 then [] else p # walk n h (p_next (h p)))"

definition whole_chain :: "heap \<Rightarrow> ptr \<Rightarrow> ptr list" where
  "whole_chain h p = walk (2 ^ 32) h p"

definition mini_read :: "ptr \<Rightarrow> u16 \<Rightarrow> u8 list" where
  "mini_read a n = map (\<lambda>i. ucast (a + of_nat i)) [0..<unat n]"

definition mini_link :: "ptr \<Rightarrow> ptr \<Rightarrow> heap \<Rightarrow> heap" where
  "mini_link h t m = (let hs = whole_chain m h in
     (\<lambda>q. if q \<in> set hs
          then (m q)\<lparr>p_next := if q = last hs then t else p_next (m q),
                     p_tot_len := p_tot_len (m q) + p_tot_len (m t)\<rparr>
          else m q))"

definition mini_api :: "u16 \<Rightarrow> err_t \<Rightarrow> mini lwip" where
  "mini_api room on_close = \<lparr>pbuf_mem = mini_mem,
     pbuf_ref = (\<lambda>p w. w\<lparr>mini_refs := (mini_refs w)(p := Suc (mini_refs w p))\<rparr>),
     pbuf_free = (\<lambda>p w. (0, w\<lparr>mini_refs := drop_refs (whole_chain (mini_mem w) p) (mini_refs w)\<rparr>)),
     pbuf_chain = (\<lambda>h t w. w\<lparr>mini_mem := mini_link h t (mini_mem w),
        mini_refs := (mini_refs w)(t := Suc (mini_refs w t))\<rparr>),
     tcp_new = Pair 0x100, tcp_bind = (\<lambda>pcb ip port. Pair ERR_OK), tcp_listen = (\<lambda>pcb. Pair 0x200),
     tcp_close = (\<lambda>pcb. Pair on_close), tcp_abort = (\<lambda>pcb w. w),
     tcp_arg = (\<lambda>pcb arg w. w), tcp_accept = (\<lambda>pcb cb w. w), tcp_recv = (\<lambda>pcb cb w. w),
     tcp_err = (\<lambda>pcb cb w. w), tcp_poll = (\<lambda>pcb cb n w. w), tcp_sent = (\<lambda>pcb cb w. w),
     tcp_setprio_min = (\<lambda>pcb w. w), tcp_recved = (\<lambda>pcb n w. w), tcp_sndbuf = (\<lambda>pcb w. room),
     tcp_write_copy = (\<lambda>pcb a n w. if n \<le> room
        then (ERR_OK, w\<lparr>mini_out := (mini_out w)(pcb := mini_out w pcb @ mini_read a n)\<rparr>)
        else (ERR_MEM, w)),
     tcp_output = (\<lambda>pcb w. w)\<rparr>"

definition mini_view :: "mini lwip_view" where
  "mini_view = \<lparr>refs = mini_refs, read_mem = (\<lambda>w. mini_read), queued = mini_out\<rparr>"

section \<open>The laws hold\<close>

lemma walk_chain: "is_chain h p ps \<Longrightarrow> length ps \<le> n \<Longrightarrow> walk n h p = ps"
proof (induction ps arbitrary: p n)
  case Nil
  then show ?case by (cases n) auto
next
  case (Cons q qs)
  then show ?case by (cases n) auto
qed

lemma whole_chain_eq:
  assumes "is_chain h p ps"
  shows "whole_chain h p = ps"
proof -
  have "length ps = card (set ps)"
    using is_chain_distinct [OF assms] by (simp add: distinct_card)
  also have "\<dots> \<le> card (UNIV :: ptr set)" by (intro card_mono) auto
  also have "\<dots> = 2 ^ 32" by (simp add: card_word)
  finally show ?thesis unfolding whole_chain_def by (rule walk_chain [OF assms])
qed

lemma whole_chain_null [simp]: "whole_chain h 0 = []"
  by (rule whole_chain_eq) simp

lemma relink_chain:
  assumes "is_chain m h hs" and "is_chain m t ts" and "hs \<noteq> []" and "distinct hs"
    and "set hs \<inter> set ts = {}" and "\<And>q. q \<notin> set hs \<Longrightarrow> p_next (m' q) = p_next (m q)"
    and "\<And>q. q \<in> set hs \<Longrightarrow> p_next (m' q) = (if q = last hs then t else p_next (m q))"
  shows "is_chain m' h (hs @ ts)"
  using assms(3) assms(1,2,4-7)
proof (induction hs arbitrary: h m rule: list_nonempty_induct)
  case (single x)
  moreover have "is_chain m' t ts = is_chain m t ts"
    using single.prems(4,5) by (intro is_chain_cong single.prems(5)) auto
  ultimately show ?case by auto
next
  case (cons x xs)
  define M where "M = m(x := m' x)"
  have x: "p_next (m' x) = p_next (m x)" using cons.prems cons.hyps by auto
  then have M: "p_next (M q) = p_next (m q)" for q by (simp add: M_def)
  have "is_chain M (p_next (m x)) xs" "is_chain M t ts"
    using cons.prems is_chain_cong [of _ M m] M by auto
  then have "is_chain m' (p_next (m x)) (xs @ ts)"
  proof (intro cons.IH [of M])
    show "p_next (m' q) = p_next (M q)" if "q \<notin> set xs" for q
      using that cons.prems(5) x M by (cases "q = x") auto
    show "p_next (m' q) = (if q = last xs then t else p_next (M q))" if "q \<in> set xs" for q
      using that cons.prems(6) cons.hyps M by auto
  qed (use cons.prems in auto)
  then show ?case using cons.prems x by auto
qed

lemma mini_link_chain:
  assumes "is_chain m h hs" and "is_chain m t ts" and "hs \<noteq> []" and "set hs \<inter> set ts = {}"
  shows "is_chain (mini_link h t m) h (hs @ ts)"
  using assms is_chain_distinct [OF assms(1)] whole_chain_eq [OF assms(1)]
  by (intro relink_chain [OF assms(1,2)]) (auto simp: mini_link_def Let_def)

lemma mini_simps [simp]:
  "pbuf_mem (mini_api r e) = mini_mem" "refs mini_view = mini_refs"
  "queued mini_view = mini_out" "read_mem mini_view w = mini_read"
  "tcp_sndbuf (mini_api r e) pcb w = r" "tcp_close (mini_api r e) pcb w = (e, w)"
  "tcp_output (mini_api r e) pcb w = w" "tcp_recved (mini_api r e) pcb n w = w"
  by (simp_all add: mini_api_def mini_view_def)

lemma mini_bytes: "bytes (mini_api r e) mini_view w q =
    mini_read (p_payload (mini_mem w q)) (p_len (mini_mem w q))"
  by (simp add: bytes_def)

lemma mini_laws: "lwip_laws (mini_api r e) mini_view"
proof -
  have "ref_law (mini_api r e) mini_view"
    by (simp add: ref_law_def untouched_def mini_bytes) (simp add: mini_api_def)
  moreover have "free_law (mini_api r e) mini_view"
    by (simp add: free_law_def untouched_def mini_bytes Let_def whole_chain_eq)
      (simp add: mini_api_def whole_chain_eq)
  moreover have "chain_law (mini_api r e) mini_view"
    unfolding chain_law_def
    by (simp add: untouched_def mini_bytes Let_def)
      (auto simp: mini_api_def mini_link_chain, auto simp: mini_link_def whole_chain_eq Let_def)
  moreover have "write_law (mini_api r e) mini_view"
    by (simp add: write_law_def untouched_def mini_bytes split: prod.splits)
      (auto simp: mini_api_def split: if_splits)
  moreover have "quiet_law (mini_api r e) mini_view"
    by (simp add: quiet_law_def)
  ultimately show ?thesis by (simp add: lwip_laws_def)
qed

lemma mini_free_null: "free_null_quiet (mini_api r e) mini_view"
  by (simp add: free_null_quiet_def quiet_def untouched_def mini_bytes) (simp add: mini_api_def)

section \<open>A world with one packet\<close>

text \<open>A packet of two buffers at 0x10 and 0x20, of two bytes each, held once.\<close>

definition mini_start :: mini where
  "mini_start = \<lparr>mini_mem = (\<lambda>q. \<lparr>p_next = if q = 0x10 then 0x20 else 0, p_payload = q,
       p_tot_len = if q = 0x10 then 4 else 2, p_len = 2\<rparr>),
     mini_refs = (\<lambda>q. if q = 0x10 \<or> q = 0x20 then 1 else 0), mini_out = (\<lambda>pcb. [])\<rparr>"

lemma mini_start_packet:
  "is_chain (mini_mem mini_start) 0x10 [0x10, 0x20]" "\<forall>q\<in>set [0x10, 0x20]. mini_refs mini_start q = 1"
  "p_tot_len (mini_mem mini_start 0x10) = 4"
  by (simp_all add: mini_start_def)

lemma mini_start_bytes:
  "bytes (mini_api r e) mini_view mini_start 0x10 = [0x10, 0x11]"
  "bytes (mini_api r e) mini_view mini_start 0x20 = [0x20, 0x21]"
  by (simp_all add: mini_bytes mini_start_def mini_read_def upt_conv_Cons)

end
