(* ===== verification/Tcp_Server.thy ===== *)
theory Tcp_Server
  imports Lwip_Instance
begin

text \<open>
  The TCP server, \<open>include/lwipserver/network/TcpServer.h\<close> and \<open>src/network/TcpServer.cpp\<close>. The
  member functions that work on one connection take and return that connection with the world of
  lwIP; the static functions that lwIP calls find the connection by the argument they are given. A
  dereference of \<open>nullptr\<close> and a loop that never ends are \<open>None\<close>.
\<close>

section \<open>Model\<close>

datatype ConnectionState = Closed | Listening | Established | Closing

text \<open>The pointer to the server that owns a connection is \<open>nullptr\<close> or \<open>this\<close>.\<close>

datatype server_ref = This_server

record tcp_connection =
  conn_state :: ConnectionState
  server :: "server_ref option"
  controlBlock :: ptr
  writeBuffer :: ptr
  readBuffer :: ptr
  writeOffset :: u16
  readOffset :: u16

definition TcpConnection_new :: tcp_connection where
  "TcpConnection_new = \<lparr>conn_state = Closed, server = None, controlBlock = 0, writeBuffer = 0,
     readBuffer = 0, writeOffset = 0, readOffset = 0\<rparr>"

text \<open>The delegate acts on the connection it is given and on the world.\<close>

type_synonym 'w RecvCallback = "tcp_connection \<times> 'w \<Rightarrow> (tcp_connection \<times> 'w) option"

definition sMaxConnections :: nat where "sMaxConnections = 10"

definition sPollInterval :: u8 where "sPollInterval = 0"

record 'w tcp_server =
  mListeningConnection :: tcp_connection
  mConnections :: "tcp_connection list"
  mRecvCallback :: "'w RecvCallback option"

definition TcpServer_new :: "'w tcp_server" where
  "TcpServer_new = \<lparr>mListeningConnection = TcpConnection_new, mConnections = [],
     mRecvCallback = None\<rparr>"

definition registerRecvCallback :: "'w RecvCallback \<Rightarrow> 'w tcp_server \<Rightarrow> 'w tcp_server" where
  "registerRecvCallback cb s = s\<lparr>mRecvCallback := Some cb\<rparr>"

definition close_connection :: "'w lwip \<Rightarrow> tcp_connection \<times> 'w \<Rightarrow> tcp_connection \<times> 'w" where
  "close_connection api = (\<lambda>(c, w).
     let (err, w) = tcp_close api (controlBlock c) w in
     if err = ERR_MEM then (c, w)
     else let w = (if err \<noteq> ERR_OK then tcp_abort api (controlBlock c) w else w)
       in (c\<lparr>conn_state := Closed\<rparr>, w))"

text \<open>The loop of \<open>writeToTcp\<close>; leaving it with \<open>break\<close> is returning from the loop.\<close>

partial_function (option) writeLoop ::
  "'w lwip \<Rightarrow> tcp_connection \<Rightarrow> 'w \<Rightarrow> (tcp_connection \<times> 'w) option" where
  "writeLoop api c w =
     (if writeBuffer c = 0 then Some (c, w)
      else let pbuf = writeBuffer c; available = tcp_sndbuf api (controlBlock c) w in
        if available < p_len (pbuf_mem api w pbuf) then Some (c, w)
        else let (err, w1) = tcp_write_copy api (controlBlock c)
                 (p_payload (pbuf_mem api w pbuf)) (p_len (pbuf_mem api w pbuf)) w in
          if err = ERR_MEM then Some (c, w1)
          else if err \<noteq> ERR_OK then Some (c, w1)
          else let nxt = p_next (pbuf_mem api w1 pbuf);
                 c1 = c\<lparr>writeBuffer := nxt\<rparr>;
                 w2 = (if nxt \<noteq> 0 then pbuf_ref api nxt w1 else w1);
                 w3 = snd (pbuf_free api pbuf w2)
               in writeLoop api c1 w3)"

definition writeToTcp ::
  "'w lwip \<Rightarrow> tcp_connection \<times> 'w \<Rightarrow> (tcp_connection \<times> 'w) option" where
  "writeToTcp api = (\<lambda>(c, w).
     map_option (\<lambda>(c, w). (c, tcp_output api (controlBlock c) w)) (writeLoop api c w))"

definition TcpServer_init :: "'w lwip \<Rightarrow> ptr \<Rightarrow> u16 \<Rightarrow> 'w tcp_server \<times> 'w \<Rightarrow> 'w tcp_server \<times> 'w" where
  "TcpServer_init api ipAddr port = (\<lambda>(s, w).
     if conn_state (mListeningConnection s) \<noteq> Closed then (s, w)
     else
       let l = (mListeningConnection s)\<lparr>server := Some This_server\<rparr>;
         (pcb, w) = tcp_new api w;
         l = l\<lparr>controlBlock := pcb\<rparr>
       in
       if pcb = 0 then (s\<lparr>mListeningConnection := l\<rparr>, w)
       else
         let (err, w) = tcp_bind api pcb ipAddr port w in
         if err \<noteq> ERR_OK
         then let (l, w) = close_connection api (l, w) in (s\<lparr>mListeningConnection := l\<rparr>, w)
         else
           let (pcb, w) = tcp_listen api pcb w;
             l = l\<lparr>controlBlock := pcb\<rparr>;
             w = tcp_accept api pcb Accept_cb w;
             w = tcp_arg api pcb Listening_conn w;
             l = l\<lparr>conn_state := Listening\<rparr>
           in (s\<lparr>mListeningConnection := l\<rparr>, w))"

definition TcpServer_write ::
  "'w lwip \<Rightarrow> ptr \<Rightarrow> tcp_connection \<times> 'w \<Rightarrow> (tcp_connection \<times> 'w) option" where
  "TcpServer_write api pbuf = (\<lambda>(c, w).
     if conn_state c \<noteq> Established then Some (c, w)
     else if pbuf = 0 then Some (c, w)
     else if p_tot_len (pbuf_mem api w pbuf) = 0 then Some (c, w)
     else
       let (c, w) = (if writeBuffer c \<noteq> 0 then (c, pbuf_chain api (writeBuffer c) pbuf w)
                     else (c\<lparr>writeBuffer := pbuf\<rparr>, pbuf_ref api pbuf w))
       in writeToTcp api (c, w))"

definition TcpServer_accept ::
  "'w lwip \<Rightarrow> ptr \<Rightarrow> err_t \<Rightarrow> 'w tcp_server \<times> 'w \<Rightarrow> err_t \<times> 'w tcp_server \<times> 'w" where
  "TcpServer_accept api newpcb err = (\<lambda>(s, w).
     let err = (if err \<noteq> ERR_OK then err
                else if length (mConnections s) = sMaxConnections then ERR_MEM else err)
     in
     if err \<noteq> ERR_OK then
       let (errClose, w) = tcp_close api newpcb w in
       if errClose \<noteq> ERR_OK then (ERR_ABRT, s, tcp_abort api newpcb w) else (err, s, w)
     else
       let newConnection = TcpConnection_new\<lparr>controlBlock := newpcb, server := Some This_server,
             conn_state := Established\<rparr>;
         r = Accepted_conn (length (mConnections s));
         w = tcp_setprio_min api newpcb w;
         w = tcp_arg api newpcb r w;
         w = tcp_recv api newpcb Recv_cb w;
         w = tcp_err api newpcb Error_cb w;
         w = tcp_poll api newpcb Poll_cb sPollInterval w;
         w = tcp_sent api newpcb Sent_cb w
       in (ERR_OK, s\<lparr>mConnections := mConnections s @ [newConnection]\<rparr>, w))"

definition TcpServer_recv ::
  "'w lwip \<Rightarrow> 'w RecvCallback option \<Rightarrow> ptr \<Rightarrow> err_t \<Rightarrow> tcp_connection \<times> 'w \<Rightarrow>
    (err_t \<times> tcp_connection \<times> 'w) option" where
  "TcpServer_recv api cb packetBuffer err = (\<lambda>(c, w).
     if packetBuffer = 0 then
       let c = c\<lparr>conn_state := Closing\<rparr> in
       map_option (Pair ERR_OK)
         (if writeBuffer c \<noteq> 0 then writeToTcp api (c, w) else Some (close_connection api (c, w)))
     else if err \<noteq> ERR_OK then Some (err, c, snd (pbuf_free api packetBuffer w))
     else
       let w = tcp_recved api (controlBlock c) (p_tot_len (pbuf_mem api w packetBuffer)) w;
         (c, w) = (if readBuffer c \<noteq> 0 then (c, pbuf_chain api (readBuffer c) packetBuffer w)
                   else (c\<lparr>readBuffer := packetBuffer\<rparr>, pbuf_ref api packetBuffer w))
       in
       case (case cb of Some f \<Rightarrow> f (c, w) | None \<Rightarrow> Some (c, w)) of
         None \<Rightarrow> None
       | Some (c, w) \<Rightarrow> Some (ERR_OK, c, snd (pbuf_free api packetBuffer w)))"

definition TcpServer_poll ::
  "'w lwip \<Rightarrow> tcp_connection \<times> 'w \<Rightarrow> (err_t \<times> tcp_connection \<times> 'w) option" where
  "TcpServer_poll api = (\<lambda>(c, w). map_option (Pair ERR_OK)
     (if writeBuffer c \<noteq> 0 then writeToTcp api (c, w)
      else if conn_state c = Closing then Some (close_connection api (c, w))
      else Some (c, w)))"

definition TcpServer_sent ::
  "'w lwip \<Rightarrow> u16 \<Rightarrow> tcp_connection \<times> 'w \<Rightarrow> (err_t \<times> tcp_connection \<times> 'w) option" where
  "TcpServer_sent api len = (\<lambda>(c, w). map_option (Pair ERR_OK)
     (if writeBuffer c \<noteq> 0 then writeToTcp api (c, w)
      else if conn_state c = Closing then Some (close_connection api (c, w))
      else Some (c, w)))"

definition TcpServer_error :: "'w lwip \<Rightarrow> tcp_connection \<times> 'w \<Rightarrow> tcp_connection \<times> 'w" where
  "TcpServer_error api = (\<lambda>(c, w).
     let c = c\<lparr>conn_state := Closed, controlBlock := 0\<rparr>;
       w = snd (pbuf_free api (readBuffer c) w);
       w = snd (pbuf_free api (writeBuffer c) w)
     in (c\<lparr>readBuffer := 0, writeBuffer := 0\<rparr>, w))"

subsection \<open>The functions registered with lwIP\<close>

fun connection :: "conn_ref \<Rightarrow> 'w tcp_server \<Rightarrow> tcp_connection option" where
  "connection Listening_conn s = Some (mListeningConnection s)"
| "connection (Accepted_conn i) s =
     (if i < length (mConnections s) then Some (mConnections s ! i) else None)"

fun set_connection :: "conn_ref \<Rightarrow> tcp_connection \<Rightarrow> 'w tcp_server \<Rightarrow> 'w tcp_server" where
  "set_connection Listening_conn c s = s\<lparr>mListeningConnection := c\<rparr>"
| "set_connection (Accepted_conn i) c s = s\<lparr>mConnections := (mConnections s)[i := c]\<rparr>"

text \<open>The checks that the static \<open>recv\<close>, \<open>sent\<close> and \<open>poll\<close> share, before the member function runs.\<close>

definition checked_call ::
  "'w lwip \<Rightarrow> conn_ref option \<Rightarrow> ptr \<Rightarrow>
    (tcp_connection \<times> 'w \<Rightarrow> (err_t \<times> tcp_connection \<times> 'w) option) \<Rightarrow>
    'w tcp_server \<times> 'w \<Rightarrow> (err_t \<times> 'w tcp_server \<times> 'w) option" where
  "checked_call api arg tpcb member = (\<lambda>(s, w).
     case arg of
       None \<Rightarrow> Some (ERR_ABRT, s, tcp_abort api tpcb w)
     | Some r \<Rightarrow>
         (case connection r s of
            None \<Rightarrow> None
          | Some c \<Rightarrow>
              if controlBlock c \<noteq> tpcb then Some (ERR_ABRT, s, tcp_abort api tpcb w)
              else if server c = None then None
              else map_option (\<lambda>(e, c, w). (e, set_connection r c s, w)) (member (c, w))))"

definition static_accept ::
  "'w lwip \<Rightarrow> conn_ref option \<Rightarrow> ptr \<Rightarrow> err_t \<Rightarrow> 'w tcp_server \<times> 'w \<Rightarrow>
    (err_t \<times> 'w tcp_server \<times> 'w) option" where
  "static_accept api arg newpcb err = (\<lambda>(s, w).
     case arg of
       None \<Rightarrow> Some (ERR_ABRT, s, tcp_abort api newpcb w)
     | Some r \<Rightarrow>
         (case connection r s of
            None \<Rightarrow> None
          | Some c \<Rightarrow>
              if server c = None then None else Some (TcpServer_accept api newpcb err (s, w))))"

definition static_recv ::
  "'w lwip \<Rightarrow> conn_ref option \<Rightarrow> ptr \<Rightarrow> ptr \<Rightarrow> err_t \<Rightarrow> 'w tcp_server \<times> 'w \<Rightarrow>
    (err_t \<times> 'w tcp_server \<times> 'w) option" where
  "static_recv api arg tpcb p err sw =
     checked_call api arg tpcb (TcpServer_recv api (mRecvCallback (fst sw)) p err) sw"

definition static_sent ::
  "'w lwip \<Rightarrow> conn_ref option \<Rightarrow> ptr \<Rightarrow> u16 \<Rightarrow> 'w tcp_server \<times> 'w \<Rightarrow>
    (err_t \<times> 'w tcp_server \<times> 'w) option" where
  "static_sent api arg tpcb len sw = checked_call api arg tpcb (TcpServer_sent api len) sw"

definition static_poll ::
  "'w lwip \<Rightarrow> conn_ref option \<Rightarrow> ptr \<Rightarrow> 'w tcp_server \<times> 'w \<Rightarrow>
    (err_t \<times> 'w tcp_server \<times> 'w) option" where
  "static_poll api arg tpcb sw = checked_call api arg tpcb (TcpServer_poll api) sw"

definition static_error ::
  "'w lwip \<Rightarrow> conn_ref option \<Rightarrow> err_t \<Rightarrow> 'w tcp_server \<times> 'w \<Rightarrow> ('w tcp_server \<times> 'w) option" where
  "static_error api arg err = (\<lambda>(s, w).
     case arg of
       None \<Rightarrow> Some (s, w)
     | Some r \<Rightarrow>
         (case connection r s of
            None \<Rightarrow> None
          | Some c \<Rightarrow>
              if server c = None then None
              else let (c, w) = TcpServer_error api (c, w) in Some (set_connection r c s, w)))"

section \<open>What each operation may change\<close>

text \<open>What holds of an accepted connection between the events of lwIP.\<close>

definition conn_ok :: "tcp_connection \<Rightarrow> bool" where
  "conn_ok c \<longleftrightarrow> server c = Some This_server \<and> conn_state c \<noteq> Listening \<and>
     (conn_state c = Closed \<longrightarrow> writeBuffer c = 0)"

text \<open>One event may close a connection or start to close it, and never opens one again.\<close>

definition conn_succ :: "tcp_connection \<Rightarrow> tcp_connection \<Rightarrow> bool" where
  "conn_succ c c' \<longleftrightarrow> server c' = server c \<and>
     (conn_state c' = conn_state c \<or> conn_state c' = Closing \<or> conn_state c' = Closed) \<and>
     (conn_ok c \<longrightarrow> conn_ok c')"

lemma conn_succ_refl [simp]: "conn_succ c c"
  by (simp add: conn_succ_def)

lemma writeLoop_only_writeBuffer:
  assumes "writeLoop api c w = Some r"
  shows "\<exists>b. fst r = c\<lparr>writeBuffer := b\<rparr>"
proof (rule writeLoop.raw_induct [where P = "\<lambda>api c w r. \<exists>b. fst r = c\<lparr>writeBuffer := b\<rparr>", OF _ assms])
  fix f :: "'a lwip \<Rightarrow> tcp_connection \<Rightarrow> 'a \<Rightarrow> (tcp_connection \<times> 'a) option"
    and api :: "'a lwip" and c :: tcp_connection and w and r :: "tcp_connection \<times> 'a"
  assume IH: "\<And>api c w r. f api c w = Some r \<Longrightarrow> \<exists>b. fst r = c\<lparr>writeBuffer := b\<rparr>"
  have id: "\<exists>b. c = c\<lparr>writeBuffer := b\<rparr>" by (rule exI [of _ "writeBuffer c"]) simp
  have rec: "\<exists>b. fst r = c\<lparr>writeBuffer := b\<rparr>" if "f api (c\<lparr>writeBuffer := x\<rparr>) w' = Some r" for x w'
    using IH [OF that] by auto
  assume "(if writeBuffer c = 0 then Some (c, w)
      else let pbuf = writeBuffer c; available = tcp_sndbuf api (controlBlock c) w in
        if available < p_len (pbuf_mem api w pbuf) then Some (c, w)
        else let (err, w1) = tcp_write_copy api (controlBlock c)
                 (p_payload (pbuf_mem api w pbuf)) (p_len (pbuf_mem api w pbuf)) w in
          if err = ERR_MEM then Some (c, w1)
          else if err \<noteq> ERR_OK then Some (c, w1)
          else let nxt = p_next (pbuf_mem api w1 pbuf);
                 c1 = c\<lparr>writeBuffer := nxt\<rparr>;
                 w2 = (if nxt \<noteq> 0 then pbuf_ref api nxt w1 else w1);
                 w3 = snd (pbuf_free api pbuf w2)
               in f api c1 w3) = Some r"
  then show "\<exists>b. fst r = c\<lparr>writeBuffer := b\<rparr>"
    by (auto simp: Let_def id rec split: if_splits prod.splits)
qed

lemma writeToTcp_only_writeBuffer:
  "writeToTcp api (c, w) = Some (c', w') \<Longrightarrow> \<exists>b. c' = c\<lparr>writeBuffer := b\<rparr>"
  using writeLoop_only_writeBuffer [of api c w] by (auto simp: writeToTcp_def)

lemma close_connection_change:
  "close_connection api (c, w) = (c', w') \<Longrightarrow> c' = c \<or> c' = c\<lparr>conn_state := Closed\<rparr>"
  by (auto simp: close_connection_def Let_def split: prod.splits if_splits)

lemma conn_succ_write:
  "conn_state c \<noteq> Closed \<Longrightarrow> conn_succ c (c\<lparr>writeBuffer := b\<rparr>)"
  by (auto simp: conn_succ_def conn_ok_def)

lemma conn_succ_write_Some:
  assumes "writeToTcp api (c, w) = Some (c', w')" and "writeBuffer c \<noteq> 0"
  shows "conn_succ c c'"
  using writeToTcp_only_writeBuffer [OF assms(1)] assms(2)
  by (auto simp: conn_succ_def conn_ok_def)

lemma conn_succ_close:
  assumes "close_connection api (c, w) = (c', w')" and "writeBuffer c = 0"
  shows "conn_succ c c'"
  using close_connection_change [OF assms(1)] assms(2) by (auto simp: conn_succ_def conn_ok_def)

lemma TcpServer_write_succ:
  assumes "TcpServer_write api p (c, w) = Some (c', w')"
  shows "conn_succ c c' \<and> conn_state c' = conn_state c \<and> controlBlock c' = controlBlock c \<and>
    readBuffer c' = readBuffer c \<and> (conn_state c \<noteq> Established \<longrightarrow> c' = c)"
proof (cases "c' = c")
  case False
  then have e: "conn_state c = Established"
    using assms by (auto simp: TcpServer_write_def split: if_splits)
  obtain b w1 where "writeToTcp api (c\<lparr>writeBuffer := b\<rparr>, w1) = Some (c', w')"
  proof (cases "writeBuffer c = 0")
    case True
    then show thesis using assms False that by (auto simp: TcpServer_write_def split: if_splits)
  next
    case wb: False
    then show thesis using assms False that [of "writeBuffer c"]
      by (auto simp: TcpServer_write_def split: if_splits)
  qed
  then obtain b' where "c' = c\<lparr>writeBuffer := b'\<rparr>"
    using writeToTcp_only_writeBuffer by fastforce
  then show ?thesis using e by (auto simp: conn_succ_def conn_ok_def)
qed simp

lemma TcpServer_poll_succ:
  assumes "TcpServer_poll api (c, w) = Some (e, c', w')" shows "conn_succ c c'"
  using assms conn_succ_write_Some [of api c w] conn_succ_close [of api c w]
  by (auto simp: TcpServer_poll_def split: if_splits)

lemma TcpServer_sent_succ:
  assumes "TcpServer_sent api len (c, w) = Some (e, c', w')" shows "conn_succ c c'"
  using assms conn_succ_write_Some [of api c w] conn_succ_close [of api c w]
  by (auto simp: TcpServer_sent_def split: if_splits)

lemma TcpServer_error_succ: "conn_succ c (fst (TcpServer_error api (c, w)))"
  by (simp add: TcpServer_error_def conn_succ_def conn_ok_def Let_def)

text \<open>
  The contract of a receive callback: it leaves the connection open or closed as it is, and takes no
  data for sending on a connection that is not established.
\<close>

locale recv_handler =
  fixes handler :: "'w lwip \<Rightarrow> 'w RecvCallback"
  assumes handler_succ: "handler api (c, w) = Some (c', w') \<Longrightarrow> conn_succ c c'"
begin

lemma recv_succ:
  assumes "TcpServer_recv api (Some (handler api)) p err (c, w) = Some (e, c', w')"
  shows "conn_succ c c'"
proof (cases "p = 0")
  case True
  let ?c = "c\<lparr>conn_state := Closing\<rparr>"
  have "conn_succ c ?c" by (auto simp: conn_succ_def conn_ok_def)
  moreover have "conn_succ ?c c'"
    using assms True conn_succ_write_Some [of api ?c w] conn_succ_close [of api ?c w]
    by (auto simp: TcpServer_recv_def Let_def split: if_splits)
  ultimately show ?thesis by (auto simp: conn_succ_def)
next
  case p: False
  show ?thesis
  proof (cases "err = ERR_OK")
    case False
    then show ?thesis using assms p by (simp add: TcpServer_recv_def)
  next
    case True
    then obtain d w1 w2 where d: "handler api (d, w1) = Some (c', w2)"
        and "d = c \<or> d = c\<lparr>readBuffer := p\<rparr>"
      using assms p by (fastforce simp: TcpServer_recv_def Let_def split: option.splits if_splits)
    then have "conn_succ c d" by (auto simp: conn_succ_def conn_ok_def)
    with handler_succ [OF d] show ?thesis by (auto simp: conn_succ_def)
  qed
qed

end

section \<open>Runs of the server\<close>

text \<open>
  One event: lwIP and the rest of the program run (\<open>elsewhere\<close>), the application starts the server or
  writes to a connection, or lwIP calls one of the registered functions with \<open>nullptr\<close> or with an
  argument that was stored with \<open>tcp_arg\<close> for it.
\<close>

inductive server_step ::
  "'w lwip \<Rightarrow> 'w tcp_server \<Rightarrow> 'w \<Rightarrow> 'w tcp_server \<Rightarrow> 'w \<Rightarrow> bool" for api where
  elsewhere: "server_step api s w s w'"
| init: "TcpServer_init api ip port (s, w) = (s', w') \<Longrightarrow> server_step api s w s' w'"
| app_write: "i < length (mConnections s) \<Longrightarrow> TcpServer_write api p (mConnections s ! i, w) = Some (c, w') \<Longrightarrow>
    server_step api s w (set_connection (Accepted_conn i) c s) w'"
| accept: "static_accept api arg pcb err (s, w) = Some (e, s', w') \<Longrightarrow> server_step api s w s' w'"
| recv: "arg \<noteq> Some Listening_conn \<Longrightarrow> static_recv api arg pcb p err (s, w) = Some (e, s', w') \<Longrightarrow>
    server_step api s w s' w'"
| sent: "arg \<noteq> Some Listening_conn \<Longrightarrow> static_sent api arg pcb len (s, w) = Some (e, s', w') \<Longrightarrow>
    server_step api s w s' w'"
| poll: "arg \<noteq> Some Listening_conn \<Longrightarrow> static_poll api arg pcb (s, w) = Some (e, s', w') \<Longrightarrow>
    server_step api s w s' w'"
| error: "arg \<noteq> Some Listening_conn \<Longrightarrow> static_error api arg err (s, w) = Some (s', w') \<Longrightarrow>
    server_step api s w s' w'"

inductive server_steps ::
  "'w lwip \<Rightarrow> 'w tcp_server \<Rightarrow> 'w \<Rightarrow> 'w tcp_server \<Rightarrow> 'w \<Rightarrow> bool" for api where
  none: "server_steps api s w s w"
| more: "server_steps api s w s1 w1 \<Longrightarrow> server_step api s1 w1 s2 w2 \<Longrightarrow> server_steps api s w s2 w2"

text \<open>What one event does to the list of connections.\<close>

definition list_succ :: "tcp_connection list \<Rightarrow> tcp_connection list \<Rightarrow> bool" where
  "list_succ cs cs' \<longleftrightarrow> cs' = cs \<or>
     (length cs < sMaxConnections \<and> (\<exists>c. cs' = cs @ [c] \<and> conn_ok c \<and> conn_state c = Established)) \<or>
     (\<exists>i c. i < length cs \<and> cs' = cs[i := c] \<and> conn_succ (cs ! i) c)"

lemma list_succ_refl [simp]: "list_succ cs cs"
  by (simp add: list_succ_def)

lemma list_succ_update: "i < length cs \<Longrightarrow> conn_succ (cs ! i) c \<Longrightarrow> list_succ cs (cs[i := c])"
  by (auto simp: list_succ_def)

lemma list_succ_append:
  "length cs < sMaxConnections \<Longrightarrow> conn_ok c \<Longrightarrow> conn_state c = Established \<Longrightarrow> list_succ cs (cs @ [c])"
  by (simp add: list_succ_def)

lemma checked_call_succ:
  assumes "checked_call api arg tpcb member (s, w) = Some (e, s', w')"
    and "arg \<noteq> Some Listening_conn"
    and "\<And>c w e c' w'. member (c, w) = Some (e, c', w') \<Longrightarrow> conn_succ c c'"
  shows "list_succ (mConnections s) (mConnections s') \<and> mRecvCallback s' = mRecvCallback s"
proof (cases arg)
  case None
  then show ?thesis using assms(1) by (simp add: checked_call_def)
next
  case (Some r)
  then obtain i where arg: "arg = Some (Accepted_conn i)" using assms(2) by (cases r) auto
  show ?thesis
    using assms(1) unfolding arg
    by (auto simp: checked_call_def split: if_splits intro!: list_succ_update assms(3))
qed

lemma TcpServer_accept_succ:
  assumes "TcpServer_accept api newpcb err (s, w) = (e, s', w')"
    and "length (mConnections s) \<le> sMaxConnections"
  shows "list_succ (mConnections s) (mConnections s') \<and> mRecvCallback s' = mRecvCallback s"
  using assms
  by (auto simp: TcpServer_accept_def conn_ok_def TcpConnection_new_def Let_def
      split: if_splits prod.splits intro!: list_succ_append)

lemma TcpServer_init_succ:
  "TcpServer_init api ip port (s, w) = (s', w') \<Longrightarrow>
    mConnections s' = mConnections s \<and> mRecvCallback s' = mRecvCallback s"
  by (auto simp: TcpServer_init_def Let_def split: if_splits prod.splits)

context recv_handler begin

lemma step_succ:
  assumes "server_step api s w s' w'"
    and "mRecvCallback s = Some (handler api)" and "length (mConnections s) \<le> sMaxConnections"
  shows "list_succ (mConnections s) (mConnections s') \<and> mRecvCallback s' = Some (handler api)"
  using assms
proof (cases rule: server_step.cases)
  case (app_write i p c)
  then show ?thesis
    using assms TcpServer_write_succ [OF app_write(3)] by (auto intro!: list_succ_update)
next
  case (accept arg pcb err e)
  then show ?thesis
    using assms TcpServer_accept_succ [of api pcb err s w e s' w']
    by (auto simp: static_accept_def split: option.splits if_splits)
next
  case (recv arg pcb p err e)
  then have "checked_call api arg pcb (TcpServer_recv api (Some (handler api)) p err) (s, w) = Some (e, s', w')"
    using assms(2) by (simp add: static_recv_def)
  from checked_call_succ [OF this recv(1) recv_succ] show ?thesis using assms(2) by simp
next
  case (sent arg pcb len e)
  then have "checked_call api arg pcb (TcpServer_sent api len) (s, w) = Some (e, s', w')"
    by (simp add: static_sent_def)
  from checked_call_succ [OF this sent(1) TcpServer_sent_succ] show ?thesis using assms(2) by simp
next
  case (poll arg pcb e)
  then have "checked_call api arg pcb (TcpServer_poll api) (s, w) = Some (e, s', w')"
    by (simp add: static_poll_def)
  from checked_call_succ [OF this poll(1) TcpServer_poll_succ] show ?thesis using assms(2) by simp
next
  case (error arg err)
  show ?thesis
  proof (cases arg)
    case None
    then show ?thesis using error assms by (simp add: static_error_def)
  next
    case (Some r)
    then obtain i where "arg = Some (Accepted_conn i)" using error(1) by (cases r) auto
    then show ?thesis
      using error(2) assms(2) TcpServer_error_succ [of "mConnections s ! i" api w]
      by (auto simp: static_error_def split: if_splits prod.splits intro!: list_succ_update)
  qed
qed (auto dest: TcpServer_init_succ)

lemma steps_succ:
  assumes "server_steps api s w s' w'"
    and "mRecvCallback s = Some (handler api)" and "length (mConnections s) \<le> sMaxConnections"
  shows "mRecvCallback s' = Some (handler api) \<and> length (mConnections s) \<le> length (mConnections s') \<and>
    length (mConnections s') \<le> sMaxConnections \<and>
    (list_all conn_ok (mConnections s) \<longrightarrow> list_all conn_ok (mConnections s')) \<and>
    (\<forall>i<length (mConnections s). conn_state (mConnections s ! i) \<noteq> Established \<longrightarrow>
        conn_state (mConnections s' ! i) \<noteq> Established)"
  using assms
proof (induction rule: server_steps.induct)
  case (none s w)
  then show ?case by simp
next
  case (more s w s1 w1 s2 w2)
  let ?cs = "mConnections s" and ?cs1 = "mConnections s1" and ?cs2 = "mConnections s2"
  from more have s1: "mRecvCallback s1 = Some (handler api)" "length ?cs \<le> length ?cs1"
      "length ?cs1 \<le> sMaxConnections" "list_all conn_ok ?cs \<longrightarrow> list_all conn_ok ?cs1"
      "\<forall>i<length ?cs. conn_state (?cs ! i) \<noteq> Established \<longrightarrow> conn_state (?cs1 ! i) \<noteq> Established"
    by blast+
  have s2: "list_succ ?cs1 ?cs2" "mRecvCallback s2 = Some (handler api)"
    using step_succ [OF more.hyps(2) s1(1,3)] by blast+
  from s2(1) have "length ?cs1 \<le> length ?cs2 \<and> length ?cs2 \<le> sMaxConnections \<and>
    (list_all conn_ok ?cs1 \<longrightarrow> list_all conn_ok ?cs2) \<and>
    (\<forall>i<length ?cs1. conn_state (?cs1 ! i) \<noteq> Established \<longrightarrow> conn_state (?cs2 ! i) \<noteq> Established)"
    using s1(3)
    by (auto simp: list_succ_def list_all_length nth_list_update nth_append conn_succ_def
        split: if_splits)
  with s1 s2(2) show ?case by fastforce
qed

end

section \<open>Refusing a connection\<close>

lemma accept_full:
  assumes "length (mConnections s) = sMaxConnections"
    and "static_accept api arg newpcb err (s, w) = Some (e, s', w')"
  shows "e \<noteq> ERR_OK \<and> s' = s"
  using assms
  by (auto simp: static_accept_def TcpServer_accept_def Let_def
      split: option.splits if_splits prod.splits)

lemma set_connection_other:
  "i < length (mConnections s) \<Longrightarrow> j \<noteq> i \<Longrightarrow> set_connection (Accepted_conn i) c s = s' \<Longrightarrow>
    mConnections s' ! j = mConnections s ! j \<and> length (mConnections s') = length (mConnections s) \<and>
    mListeningConnection s' = mListeningConnection s"
  by auto

text \<open>A server that listens, and one with an established connection as well.\<close>

definition listening_server :: "'w tcp_server" where
  "listening_server = TcpServer_new\<lparr>mListeningConnection := TcpConnection_new\<lparr>conn_state := Listening,
     server := Some This_server, controlBlock := 0x200\<rparr>\<rparr>"

definition open_connection :: tcp_connection where
  "open_connection = TcpConnection_new\<lparr>conn_state := Established, server := Some This_server,
     controlBlock := 0x300\<rparr>"

definition busy_server :: "'w tcp_server" where
  "busy_server = listening_server\<lparr>mConnections := [open_connection, open_connection]\<rparr>"

lemmas example_defs = listening_server_def open_connection_def busy_server_def TcpServer_new_def
  TcpConnection_new_def

section \<open>Properties\<close>

text \<open>
  While there is room, a connection that lwIP reports without an error is accepted: it is appended
  to the list, established, with empty buffers and the new control block, and the others stay as they
  are. With an error, or with ten entries in the list, the server is unchanged and the result is not
  \<open>ERR_OK\<close>.
\<close>

theorem accept_behaviour:
  assumes "connection r s = Some c" and "server c = Some This_server"
    and "length (mConnections s) \<le> sMaxConnections"
    and "static_accept api (Some r) newpcb err (s, w) = Some (e, s', w')"
  shows "if err = ERR_OK \<and> length (mConnections s) < sMaxConnections
    then e = ERR_OK \<and> s' = s\<lparr>mConnections := mConnections s @
      [\<lparr>conn_state = Established, server = Some This_server, controlBlock = newpcb, writeBuffer = 0,
        readBuffer = 0, writeOffset = 0, readOffset = 0\<rparr>]\<rparr>
    else e \<noteq> ERR_OK \<and> s' = s"
  using assms
  by (auto simp: static_accept_def TcpServer_accept_def TcpConnection_new_def Let_def
      split: if_splits prod.splits)

theorem accept_behaviour_witness:
  "\<exists>s' w'. static_accept (mini_api 0 ERR_OK) (Some Listening_conn) 0x300 ERR_OK
      (listening_server, mini_start) = Some (ERR_OK, s', w') \<and> map controlBlock (mConnections s') = [0x300]"
proof -
  let ?s = "listening_server :: mini tcp_server"
  obtain e s' w' where *: "static_accept (mini_api 0 ERR_OK) (Some Listening_conn) 0x300 ERR_OK
      (?s, mini_start) = Some (e, s', w')"
    by (simp add: static_accept_def example_defs split_paired_all) (metis prod.collapse)
  have "e = ERR_OK \<and> map controlBlock (mConnections s') = [0x300]"
    using accept_behaviour [OF _ _ _ *] by (simp add: example_defs sMaxConnections_def)
  then show ?thesis using * by simp
qed

text \<open>
  The functions registered with lwIP trust only a matching pair: called without an argument, or
  with a control block that is not the one of the connection, \<open>recv\<close>, \<open>sent\<close> and \<open>poll\<close> abort that
  control block, report \<open>ERR_ABRT\<close> and leave every connection as it is.
\<close>

theorem foreign_callback_aborts:
  assumes "arg = None \<or> (\<exists>r c. arg = Some r \<and> connection r s = Some c \<and> controlBlock c \<noteq> tpcb)"
  shows "static_recv api arg tpcb p err (s, w) = Some (ERR_ABRT, s, tcp_abort api tpcb w) \<and>
    static_sent api arg tpcb len (s, w) = Some (ERR_ABRT, s, tcp_abort api tpcb w) \<and>
    static_poll api arg tpcb (s, w) = Some (ERR_ABRT, s, tcp_abort api tpcb w)"
  using assms by (auto simp: static_recv_def static_sent_def static_poll_def checked_call_def)

theorem foreign_callback_aborts_witness:
  "static_poll (mini_api 0 ERR_OK) (Some (Accepted_conn 0)) 0x400 (busy_server, mini_start) =
    Some (ERR_ABRT, busy_server, mini_start)"
  using foreign_callback_aborts [where arg = "Some (Accepted_conn 0)" and s = busy_server
      and tpcb = "0x400" and api = "mini_api 0 ERR_OK" and w = mini_start]
  by (simp add: example_defs mini_api_def)

text \<open>
  Connections do not interfere: whatever lwIP reports for one connection of the list, the other
  connections and the listening connection keep all their fields.
\<close>

theorem connections_isolated:
  assumes "i < length (mConnections s)" and "j \<noteq> i"
    and "static_recv api (Some (Accepted_conn i)) tpcb p err (s, w) = Some (e, s', w') \<or>
      static_sent api (Some (Accepted_conn i)) tpcb len (s, w) = Some (e, s', w') \<or>
      static_poll api (Some (Accepted_conn i)) tpcb (s, w) = Some (e, s', w') \<or>
      static_error api (Some (Accepted_conn i)) err (s, w) = Some (s', w')"
  shows "mConnections s' ! j = mConnections s ! j \<and> length (mConnections s') = length (mConnections s) \<and>
    mListeningConnection s' = mListeningConnection s"
proof -
  have "s' = s \<or> (\<exists>c. set_connection (Accepted_conn i) c s = s')"
    using assms(1,3)
    by (auto simp: static_recv_def static_sent_def static_poll_def static_error_def checked_call_def
        split: if_splits prod.splits)
  then show ?thesis using set_connection_other [OF assms(1,2)] by blast
qed

theorem connections_isolated_witness:
  "\<exists>s' w'. static_error (mini_api 0 ERR_OK) (Some (Accepted_conn 0)) ERR_MEM
      (busy_server, mini_start) = Some (s', w') \<and>
    mConnections s' ! 0 \<noteq> mConnections busy_server ! 0 \<and> mConnections s' ! 1 = open_connection"
proof -
  let ?s = "busy_server :: mini tcp_server"
  obtain s' w' where *: "static_error (mini_api 0 ERR_OK) (Some (Accepted_conn 0)) ERR_MEM
      (?s, mini_start) = Some (s', w')" "conn_state (mConnections s' ! 0) = Closed"
    by (simp add: static_error_def TcpServer_error_def example_defs)
  have "mConnections s' ! 1 = mConnections ?s ! 1"
    using connections_isolated [where i = 0 and s = ?s and j = 1 and api = "mini_api 0 ERR_OK"
        and w = mini_start and s' = s' and w' = w' and err = ERR_MEM] *(1)
    by (simp add: example_defs)
  moreover have "mConnections s' ! 0 \<noteq> mConnections ?s ! 0"
    using *(2) by (auto simp: example_defs)
  ultimately show ?thesis using *(1) by (auto simp: busy_server_def)
qed

text \<open>
  A connection that is closing is closed by the poll function exactly when nothing waits to be
  sent and lwIP has the memory to close it; with \<open>ERR_MEM\<close> it stays in the state closing, for another
  attempt at the next poll, and nothing is ever closed over unsent data.
\<close>

theorem poll_closes_when_drained:
  assumes "conn_state c = Closing" and "TcpServer_poll api (c, w) = Some (e, c', w')"
  shows "conn_state c' = (if writeBuffer c = 0 \<and> fst (tcp_close api (controlBlock c) w) \<noteq> ERR_MEM
    then Closed else Closing)"
  using assms writeToTcp_only_writeBuffer [of api c w c' w']
  by (auto simp: TcpServer_poll_def close_connection_def Let_def split: if_splits prod.splits)

theorem poll_closes_when_drained_witness:
  "\<exists>c w. TcpServer_poll (mini_api 0 ERR_MEM) (open_connection\<lparr>conn_state := Closing\<rparr>, mini_start) =
      Some (ERR_OK, c, w) \<and> conn_state c = Closing"
proof -
  let ?c = "open_connection\<lparr>conn_state := Closing\<rparr>" and ?api = "mini_api 0 ERR_MEM"
  obtain c w where *: "TcpServer_poll ?api (?c, mini_start) = Some (ERR_OK, c, w)"
    by (simp add: TcpServer_poll_def close_connection_def example_defs)
  have "conn_state c = Closing" using poll_closes_when_drained [OF _ *] by simp
  then show ?thesis using * by blast
qed

text \<open>
  \<open>init\<close> does not check what \<open>tcp_listen\<close> returns: when lwIP has no memory for a listening
  control block, the server is in the state listening with a null control block, and calling \<open>init\<close>
  again does nothing.
\<close>

theorem init_ignores_listen_failure:
  assumes "conn_state (mListeningConnection s) = Closed" and "tcp_new api w = (pcb, w1)" and "pcb \<noteq> 0"
    and "tcp_bind api pcb ip port w1 = (ERR_OK, w2)" and "tcp_listen api pcb w2 = (0, w3)"
  shows "\<exists>s' w'. TcpServer_init api ip port (s, w) = (s', w') \<and>
    conn_state (mListeningConnection s') = Listening \<and> controlBlock (mListeningConnection s') = 0 \<and>
    TcpServer_init api ip' port' (s', w') = (s', w')"
  using assms by (simp add: TcpServer_init_def)

theorem init_ignores_listen_failure_witness:
  "\<exists>s' w'. TcpServer_init ((mini_api 0 ERR_OK)\<lparr>tcp_listen := \<lambda>pcb. Pair 0\<rparr>) 0 7 (TcpServer_new, mini_start) =
      (s', w') \<and>
    conn_state (mListeningConnection s') = Listening \<and> controlBlock (mListeningConnection s') = 0"
  using init_ignores_listen_failure [where s = "TcpServer_new :: mini tcp_server"
      and api = "(mini_api 0 ERR_OK)\<lparr>tcp_listen := \<lambda>pcb. Pair 0\<rparr>" and w = mini_start
      and pcb = "0x100" and ip = 0 and port = 7]
  by (simp add: TcpServer_new_def TcpConnection_new_def) (force simp: mini_api_def)

end
