(* ===== verification/Tcp_Transmit.thy ===== *)
theory Tcp_Transmit
  imports Tcp_Server
begin

text \<open>
  What \<open>writeToTcp\<close> and \<open>write\<close> do under the documented behaviour of lwIP's packet buffers and of
  \<open>tcp_write\<close>: how many buffers of the chain are handed over, which bytes are queued and who holds
  which reference afterwards.
\<close>

section \<open>References while a chain is sent\<close>

definition chain_bytes :: "'w lwip \<Rightarrow> 'w lwip_view \<Rightarrow> 'w \<Rightarrow> ptr list \<Rightarrow> u8 list" where
  "chain_bytes api v w ps = concat (map (bytes api v w) ps)"

lemma chain_bytes_cong:
  "\<forall>q\<in>set ps. bytes api v w' q = bytes api v w q \<Longrightarrow> chain_bytes api v w' ps = chain_bytes api v w ps"
  by (induction ps) (auto simp: chain_bytes_def)

lemma chain_bytes_append:
  "chain_bytes api v w (ps @ qs) = chain_bytes api v w ps @ chain_bytes api v w qs"
  by (simp add: chain_bytes_def)

text \<open>
  One buffer is sent: the application holds the next one instead. Where the buffer is freed by this,
  the reference of the chain goes with it, so that the next buffer has as many as before.
\<close>

fun pass_on :: "ptr \<Rightarrow> ptr list \<Rightarrow> (ptr \<Rightarrow> nat) \<Rightarrow> ptr \<Rightarrow> nat" where
  "pass_on q [] r = r(q := r q - 1)"
| "pass_on q (n # ns) r = (if r q = 1 then r(q := 0) else r(q := r q - 1, n := Suc (r n)))"

fun pass_n :: "nat \<Rightarrow> ptr list \<Rightarrow> (ptr \<Rightarrow> nat) \<Rightarrow> ptr \<Rightarrow> nat" where
  "pass_n (Suc k) (q # qs) r = pass_n k qs (pass_on q qs r)"
| "pass_n k qs r = r"

lemma pass_n_0 [simp]: "pass_n 0 qs r = r"
  by (cases qs) auto

lemma pass_on_one: "r q = 1 \<Longrightarrow> pass_on q qs r = r(q := 0)"
  by (cases qs) auto

lemma pass_on_rest: "distinct (q # qs) \<Longrightarrow> x \<in> set qs \<Longrightarrow> r x \<le> pass_on q qs r x"
  by (cases qs) auto

lemma pass_n_ones:
  assumes "distinct (xs @ ys)" and "\<forall>q\<in>set xs. r q = 1"
  shows "pass_n (length xs + j) (xs @ ys) r = pass_n j ys (\<lambda>q. if q \<in> set xs then 0 else r q)"
  using assms
proof (induction xs arbitrary: r)
  case (Cons x xs)
  have "pass_n (length (x # xs) + j) ((x # xs) @ ys) r = pass_n (length xs + j) (xs @ ys) (r(x := 0))"
    using Cons.prems pass_on_one [of r x "xs @ ys"] by simp
  also have "\<dots> = pass_n j ys (\<lambda>q. if q \<in> set xs then 0 else (r(x := 0)) q)"
    using Cons.prems by (intro Cons.IH) auto
  also have "(\<lambda>q. if q \<in> set xs then 0 else (r(x := 0)) q) = (\<lambda>q. if q \<in> set (x # xs) then 0 else r q)"
    by auto
  finally show ?case .
qed simp

lemma pass_n_take:
  assumes "distinct ps" and "\<forall>q\<in>set (take k ps). r q = 1" and "k \<le> length ps"
  shows "pass_n k ps r = (\<lambda>q. if q \<in> set (take k ps) then 0 else r q)"
proof -
  have "distinct (take k ps @ drop k ps)" using assms(1) by simp
  from pass_n_ones [OF this assms(2), of 0] assms(3) show ?thesis by (simp add: min_absorb2)
qed

text \<open>A chain whose first buffer is held twice: the second reference moves along.\<close>

lemma pass_n_held:
  assumes "distinct (x # xs)" and "j \<le> Suc (length xs)" and "r x = 2" and "\<forall>q\<in>set xs. r q = 1"
  shows "pass_n j (x # xs) r =
    (\<lambda>q. if j \<le> length xs \<and> q = (x # xs) ! j then 2 else if q \<in> set (x # xs) then 1 else r q)"
  using assms
proof (induction xs arbitrary: j r x)
  case Nil
  then show ?case by (cases j) (auto simp: fun_eq_iff)
next
  case (Cons y ys)
  show ?case
  proof (cases j)
    case 0
    then show ?thesis using Cons.prems by (auto simp: fun_eq_iff)
  next
    case (Suc i)
    let ?r = "r(x := 1, y := 2)"
    have "pass_on x (y # ys) r = ?r" using Cons.prems by (simp add: fun_eq_iff)
    then have "pass_n j (x # y # ys) r = pass_n i (y # ys) ?r"
      by (simp only: Suc pass_n.simps(1))
    also have "\<dots> =
        (\<lambda>q. if i \<le> length ys \<and> q = (y # ys) ! i then 2 else if q \<in> set (y # ys) then 1 else ?r q)"
      using Cons.prems Suc by (intro Cons.IH) auto
    also have "\<dots> = (\<lambda>q. if j \<le> length (y # ys) \<and> q = (x # y # ys) ! j then 2
        else if q \<in> set (x # y # ys) then 1 else r q)"
      using Cons.prems Suc by (auto simp: fun_eq_iff)
    finally show ?thesis .
  qed
qed

text \<open>
  A packet held twice by its receiver and once by the chain it was queued in: when the receiver has
  given up both references, every buffer that was sent is free and every other is held once.
\<close>

definition queued_refs :: "ptr list \<Rightarrow> ptr \<Rightarrow> nat \<Rightarrow> (ptr \<Rightarrow> nat) \<Rightarrow> ptr \<Rightarrow> nat" where
  "queued_refs xs p k r = (\<lambda>q. if q \<in> set (take k xs) then 0 else r q)"

definition sent_refs :: "ptr list \<Rightarrow> ptr \<Rightarrow> ptr list \<Rightarrow> nat \<Rightarrow> (ptr \<Rightarrow> nat) \<Rightarrow> ptr \<Rightarrow> nat" where
  "sent_refs xs p qs j r = (\<lambda>q. if q = p then 2 else if j < length qs \<and> q = qs ! j then 2
     else if q \<in> set xs then 0 else r q)"

lemma pass_n_queued:
  assumes "distinct (xs @ p # qs)" and "\<forall>q\<in>set xs \<union> set qs. r q = 1" and "r p = 3"
    and "k \<le> length xs"
  shows "pass_n k (xs @ p # qs) r = queued_refs xs p k r"
  using assms pass_n_take [of "xs @ p # qs" k r] by (auto simp: queued_refs_def dest: in_set_takeD)

lemma handled_refs_queued:
  assumes "distinct (xs @ p # qs)" and "r p = 3"
  shows "drop_refs (p # qs) (drop_refs (p # qs) (queued_refs xs p k r)) =
    (\<lambda>q. if q \<in> set (take k xs) then 0 else if q = p then 1 else r q)"
proof -
  have "p \<notin> set (take k xs)" using assms(1) by (auto dest: in_set_takeD)
  then show ?thesis using assms(2) by (auto simp: fun_eq_iff queued_refs_def)
qed

lemma pass_n_sent:
  assumes "distinct (xs @ p # qs)" and "\<forall>q\<in>set xs \<union> set qs. r q = 1" and "r p = 3"
    and "j \<le> length qs"
  shows "pass_n (length xs + Suc j) (xs @ p # qs) r = sent_refs xs p qs j r"
proof -
  let ?r1 = "\<lambda>q. if q \<in> set xs then 0 else r q"
  let ?r2 = "\<lambda>q. if q = p then 2 else if j < length qs \<and> q = qs ! j then 2 else ?r1 q"
  have p: "p \<notin> set xs" "p \<notin> set qs" and xq: "set xs \<inter> set qs = {}" "distinct qs"
    using assms(1) by auto
  have "pass_n (length xs + Suc j) (xs @ p # qs) r = pass_n (Suc j) (p # qs) ?r1"
    using assms by (intro pass_n_ones) auto
  also have "\<dots> = pass_n j qs (pass_on p qs ?r1)" by simp
  also have "\<dots> = ?r2"
  proof (cases qs)
    case Nil
    then show ?thesis using assms p by (simp add: fun_eq_iff)
  next
    case (Cons y ys)
    let ?s = "?r1(p := 2, y := 2)"
    have "pass_on p qs ?r1 = ?s" using Cons assms p xq by (auto simp: fun_eq_iff)
    then have "pass_n j qs (pass_on p qs ?r1) = pass_n j (y # ys) ?s"
      by (simp only: Cons)
    also have "\<dots> =
        (\<lambda>q. if j \<le> length ys \<and> q = (y # ys) ! j then 2 else if q \<in> set (y # ys) then 1 else ?s q)"
      using assms p xq Cons by (intro pass_n_held) auto
    also have "\<dots> = ?r2"
      using assms p xq Cons nth_mem [of j "y # ys"] by (auto simp: fun_eq_iff less_Suc_eq_le)
    finally show ?thesis .
  qed
  finally show ?thesis by (simp only: sent_refs_def)
qed

lemma handled_refs_sent:
  assumes "distinct (xs @ p # qs)" and "\<forall>q\<in>set xs \<union> set qs. r q = 1" and "r p = 3"
    and "j \<le> length qs"
  shows "drop_refs (p # qs) (drop_refs (p # qs) (sent_refs xs p qs j r)) =
    (\<lambda>q. if q \<in> set (xs @ p # take j qs) then 0 else r q)"
proof -
  let ?r2 = "sent_refs xs p qs j r"
  have p: "p \<notin> set xs" "p \<notin> set qs" and xq: "set xs \<inter> set qs = {}" "distinct qs"
    using assms(1) by auto
  have "drop_refs (p # qs) ?r2 = ?r2(p := 1)" by (simp add: fun_eq_iff sent_refs_def)
  then have "drop_refs (p # qs) (drop_refs (p # qs) ?r2) = drop_refs qs (?r2(p := 0))"
    by (simp only: drop_refs.simps fun_upd_same fun_upd_upd simp_thms if_True)
  also have "\<dots> = (\<lambda>q. if q \<in> set (xs @ p # take j qs) then 0 else r q)"
  proof (cases "j < length qs")
    case False
    then have "drop_refs qs (?r2(p := 0)) = (\<lambda>q. if q \<in> set qs then 0 else (?r2(p := 0)) q)"
      using assms p xq by (intro drop_refs_all_one) (auto simp: sent_refs_def)
    then show ?thesis using False assms(4) p by (auto simp: fun_eq_iff sent_refs_def)
  next
    case True
    have split: "qs = take j qs @ qs ! j # drop (Suc j) qs" using True by (rule id_take_nth_drop)
    have d: "distinct (take j qs @ qs ! j # drop (Suc j) qs)" using xq(2) split by simp
    have "drop_refs (take j qs @ qs ! j # drop (Suc j) qs) (?r2(p := 0)) =
        (\<lambda>q. if q \<in> set (take j qs) then 0
             else if q = qs ! j then (?r2(p := 0)) (qs ! j) - 1 else (?r2(p := 0)) q)"
      using assms p xq True d by (intro drop_refs_stop) (auto simp: sent_refs_def dest: in_set_takeD nth_mem)
    then have "drop_refs qs (?r2(p := 0)) =
        (\<lambda>q. if q \<in> set (take j qs) then 0
             else if q = qs ! j then (?r2(p := 0)) (qs ! j) - 1 else (?r2(p := 0)) q)"
      using split by simp
    moreover have "qs ! j \<in> set qs" "qs ! j \<notin> set (take j qs)" using True d by auto
    ultimately show ?thesis using assms p xq True by (auto simp: fun_eq_iff sent_refs_def)
  qed
  finally show ?thesis .
qed

section \<open>Sending one buffer\<close>

text \<open>The end of a round of the loop: the reference to the next buffer, and the one given back.\<close>

definition release_head :: "'w lwip \<Rightarrow> ptr \<Rightarrow> 'w \<Rightarrow> 'w" where
  "release_head api q w = snd (pbuf_free api q
     (if p_next (pbuf_mem api w q) \<noteq> 0 then pbuf_ref api (p_next (pbuf_mem api w q)) w else w))"

lemma writeLoop_unfold:
  "writeLoop api c w =
     (if writeBuffer c = 0 then Some (c, w)
      else if tcp_sndbuf api (controlBlock c) w < p_len (pbuf_mem api w (writeBuffer c)) then Some (c, w)
      else let (err, w1) = tcp_write_copy api (controlBlock c)
               (p_payload (pbuf_mem api w (writeBuffer c))) (p_len (pbuf_mem api w (writeBuffer c))) w in
        if err \<noteq> ERR_OK then Some (c, w1)
        else writeLoop api (c\<lparr>writeBuffer := p_next (pbuf_mem api w1 (writeBuffer c))\<rparr>)
          (release_head api (writeBuffer c) w1))"
  by (subst writeLoop.simps) (auto simp: release_head_def Let_def split: prod.splits)

lemma refD:
  assumes "lwip_laws api v" and "0 < refs v w p"
  shows "refs v (pbuf_ref api p w) = (refs v w)(p := Suc (refs v w p))"
    and "queued v (pbuf_ref api p w) = queued v w"
    and "untouched api v (live v w) w (pbuf_ref api p w)"
  using assms by (auto simp: lwip_laws_def ref_law_def)

lemma freeD:
  assumes "lwip_laws api v" and "is_chain (pbuf_mem api w) p ps" and "ps \<noteq> []"
    and "set ps \<subseteq> live v w"
  shows "refs v (snd (pbuf_free api p w)) = drop_refs ps (refs v w)"
    and "queued v (snd (pbuf_free api p w)) = queued v w"
    and "untouched api v (live v (snd (pbuf_free api p w))) w (snd (pbuf_free api p w))"
  using assms unfolding lwip_laws_def free_law_def Let_def by blast+

lemma writeD:
  assumes "lwip_laws api v" and "tcp_write_copy api pcb a n w = (err, w')"
  shows "refs v w' = refs v w" and "untouched api v (live v w) w w'"
    and "err = ERR_OK \<Longrightarrow> queued v w' = (queued v w)(pcb := queued v w pcb @ read_mem v w a n)"
    and "err \<noteq> ERR_OK \<Longrightarrow> queued v w' = queued v w"
  using assms unfolding lwip_laws_def write_law_def by (auto split: prod.splits)

lemma outputD: "lwip_laws api v \<Longrightarrow> quiet api v w (tcp_output api pcb w)"
  and recvedD: "lwip_laws api v \<Longrightarrow> quiet api v w (tcp_recved api pcb n w)"
  by (auto simp: lwip_laws_def quiet_law_def)

lemma live_drop: "{q. 0 < drop_refs ps r q} \<subseteq> {q. 0 < r q}"
  using drop_refs_le [of ps r] by (auto dest: less_le_trans)

lemma release_head_spec:
  assumes laws: "lwip_laws api v" and chain: "is_chain (pbuf_mem api w) q (q # qs)"
    and alive: "set (q # qs) \<subseteq> live v w"
  shows "refs v (release_head api q w) = pass_on q qs (refs v w) \<and>
    queued v (release_head api q w) = queued v w \<and>
    live v (release_head api q w) \<subseteq> live v w \<and>
    untouched api v (live v (release_head api q w)) w (release_head api q w)"
proof (cases qs)
  case Nil
  then have "p_next (pbuf_mem api w q) = 0" using chain by simp
  then have rel: "release_head api q w = snd (pbuf_free api q w)" by (simp add: release_head_def)
  have "drop_refs [q] (refs v w) = pass_on q qs (refs v w)" using Nil by auto
  then show ?thesis
    using freeD [OF laws chain _ alive] live_drop [of "[q]" "refs v w"] Nil
    by (simp add: rel live_def)
next
  case (Cons n ns)
  let ?w2 = "pbuf_ref api n w"
  have n: "p_next (pbuf_mem api w q) = n" "n \<noteq> 0" "0 < refs v w n" using chain alive Cons by auto
  then have rel: "release_head api q w = snd (pbuf_free api q ?w2)" by (simp add: release_head_def)
  have d: "distinct (q # qs)" by (rule is_chain_distinct [OF chain])
  note r = refD [OF laws n(3)]
  have sub: "live v w \<subseteq> live v ?w2" by (auto simp: r(1))
  have c2: "is_chain (pbuf_mem api ?w2) q (q # qs)"
    using untouched_chain [OF r(3) alive] chain by blast
  note f = freeD [OF laws c2 list.distinct(2) subset_trans [OF alive sub]]
  have "drop_refs (q # qs) (refs v ?w2) = pass_on q qs (refs v w)"
    using d n Cons by (auto simp: r(1) fun_eq_iff)
  then have refs3: "refs v (release_head api q w) = pass_on q qs (refs v w)" using f(1) rel by simp
  have l: "live v (release_head api q w) \<subseteq> live v w"
    using refs3 d Cons n alive by (auto simp: live_def split: if_splits)
  moreover have "untouched api v (live v (release_head api q w)) w (release_head api q w)"
    using untouched_trans [OF r(3) f(3)] l by (simp add: rel Int_absorb1)
  ultimately show ?thesis using refs3 f(2) r(2) rel by simp
qed

section \<open>The loop\<close>

text \<open>A control block on which there is always room and \<open>tcp_write\<close> always succeeds.\<close>

definition never_refuses :: "'w lwip \<Rightarrow> ptr \<Rightarrow> bool" where
  "never_refuses api pcb \<longleftrightarrow>
     (\<forall>w a n. n \<le> tcp_sndbuf api pcb w \<and> fst (tcp_write_copy api pcb a n w) = ERR_OK)"

text \<open>lwIP takes the buffer \<open>q\<close> in this very state: there is room for it, and \<open>tcp_write\<close> succeeds.\<close>

definition takes :: "'w lwip \<Rightarrow> ptr \<Rightarrow> 'w \<Rightarrow> ptr \<Rightarrow> bool" where
  "takes api pcb w q \<longleftrightarrow> p_len (pbuf_mem api w q) \<le> tcp_sndbuf api pcb w \<and>
     fst (tcp_write_copy api pcb (p_payload (pbuf_mem api w q)) (p_len (pbuf_mem api w q)) w) = ERR_OK"

text \<open>The first \<open>k\<close> buffers of a chain have been handed to \<open>tcp_write\<close>.\<close>

definition sent_prefix ::
  "'w lwip \<Rightarrow> 'w lwip_view \<Rightarrow> ptr \<Rightarrow> ptr list \<Rightarrow> nat \<Rightarrow> 'w \<Rightarrow> 'w \<Rightarrow> bool" where
  "sent_prefix api v pcb ps k w w' \<longleftrightarrow> k \<le> length ps \<and>
     refs v w' = pass_n k ps (refs v w) \<and>
     queued v w' = (queued v w)(pcb := queued v w pcb @ chain_bytes api v w (take k ps)) \<and>
     live v w' \<subseteq> live v w \<and> untouched api v (live v w') w w'"

lemma sent_prefix_quiet:
  assumes "sent_prefix api v pcb ps k w w'" and "quiet api v w' w''"
  shows "sent_prefix api v pcb ps k w w''"
  using assms untouched_trans [of api v "live v w'" w w' "live v w'" w'']
  by (auto simp: sent_prefix_def quiet_def live_def)

lemma writeLoop_sends:
  assumes "lwip_laws api v"
    and "is_chain (pbuf_mem api w) (writeBuffer c) ps" and "set ps \<subseteq> live v w"
  shows "\<exists>k w' b. writeLoop api c w = Some (c\<lparr>writeBuffer := b\<rparr>, w') \<and>
    is_chain (pbuf_mem api w') b (drop k ps) \<and> sent_prefix api v (controlBlock c) ps k w w' \<and>
    set (drop k ps) \<subseteq> live v w' \<and>
    (never_refuses api (controlBlock c) \<longrightarrow> k = length ps) \<and>
    (ps \<noteq> [] \<and> takes api (controlBlock c) w (writeBuffer c) \<longrightarrow> 0 < k)"
  using assms(2,3)
proof (induction ps arbitrary: c w)
  case Nil
  then have "writeLoop api c w = Some (c\<lparr>writeBuffer := 0\<rparr>, w)" by (simp add: writeLoop_unfold)
  then show ?case using Nil by (intro exI [of _ 0]) (auto simp: sent_prefix_def chain_bytes_def untouched_def)
next
  case (Cons q qs)
  let ?pcb = "controlBlock c"
  have q: "writeBuffer c = q" "q \<noteq> 0" and chain: "is_chain (pbuf_mem api w) q (q # qs)"
    using Cons.prems(1) by auto
  have same: "sent_prefix api v ?pcb (q # qs) 0 w w" "c\<lparr>writeBuffer := q\<rparr> = c"
    using q(1) by (auto simp: sent_prefix_def chain_bytes_def untouched_def)
  obtain err w1 where wr: "tcp_write_copy api ?pcb (p_payload (pbuf_mem api w q))
      (p_len (pbuf_mem api w q)) w = (err, w1)" by force
  note W = writeD [OF assms(1) wr]
  consider (room) "tcp_sndbuf api ?pcb w < p_len (pbuf_mem api w q)"
    | (fail) "\<not> tcp_sndbuf api ?pcb w < p_len (pbuf_mem api w q)" "err \<noteq> ERR_OK"
    | (ok) "\<not> tcp_sndbuf api ?pcb w < p_len (pbuf_mem api w q)" "err = ERR_OK"
    by blast
  then show ?case
  proof cases
    case room
    then have "writeLoop api c w = Some (c\<lparr>writeBuffer := q\<rparr>, w)"
      using q same(2) by (simp add: writeLoop_unfold)
    moreover have "\<not> never_refuses api ?pcb" "\<not> takes api ?pcb w (writeBuffer c)"
      using room q by (auto simp: never_refuses_def takes_def not_le)
    ultimately show ?thesis using chain same(1) Cons.prems(2) by (intro exI [of _ 0]) auto
  next
    case fail
    then have "writeLoop api c w = Some (c\<lparr>writeBuffer := q\<rparr>, w1)"
      using q same(2) wr by (simp add: writeLoop_unfold)
    moreover have "\<not> never_refuses api ?pcb"
      using fail(2) wr by (auto simp: never_refuses_def) (metis fst_conv)
    moreover have "\<not> takes api ?pcb w (writeBuffer c)" using fail(2) wr q by (simp add: takes_def)
    moreover have "quiet api v w w1" using W fail(2) by (simp add: quiet_def)
    moreover from this have "sent_prefix api v ?pcb (q # qs) 0 w w1"
      by (rule sent_prefix_quiet [OF same(1)])
    moreover have "is_chain (pbuf_mem api w1) q (q # qs)"
      using untouched_chain [OF W(2) Cons.prems(2)] chain by blast
    ultimately show ?thesis using Cons.prems(2) W(1) by (intro exI [of _ 0]) (auto simp: live_def)
  next
    case ok
    let ?w3 = "release_head api q w1" and ?b = "p_next (pbuf_mem api w1 q)"
    have c1: "is_chain (pbuf_mem api w1) q (q # qs)"
      using untouched_chain [OF W(2) Cons.prems(2)] chain by blast
    have l1: "live v w1 = live v w" by (rule live_cong [OF W(1)])
    note R = release_head_spec [OF assms(1) c1 Cons.prems(2) [folded l1]]
    have d: "distinct (q # qs)" by (rule is_chain_distinct [OF chain])
    have r3: "refs v ?w3 = pass_on q qs (refs v w)" using R by (simp add: W(1))
    have l3: "set qs \<subseteq> live v ?w3"
    proof
      fix x assume x: "x \<in> set qs"
      then have "0 < refs v w x" using Cons.prems(2) by auto
      also have "refs v w x \<le> pass_on q qs (refs v w) x" by (rule pass_on_rest [OF d x])
      finally show "x \<in> live v ?w3" by (simp add: r3)
    qed
    have u3: "untouched api v (live v ?w3) w ?w3"
      using untouched_trans [OF W(2)] R l1 by (metis Int_absorb1)
    have c3: "is_chain (pbuf_mem api ?w3) (writeBuffer (c\<lparr>writeBuffer := ?b\<rparr>)) qs"
      using c1 R l3 untouched_chain [of api v "live v ?w3" w1 ?w3 qs ?b] by simp
    obtain k w' b where IH: "writeLoop api (c\<lparr>writeBuffer := ?b\<rparr>) ?w3 = Some (c\<lparr>writeBuffer := b\<rparr>, w')"
      "is_chain (pbuf_mem api w') b (drop k qs)" "sent_prefix api v ?pcb qs k ?w3 w'"
      "set (drop k qs) \<subseteq> live v w'" "never_refuses api ?pcb \<longrightarrow> k = length qs"
      using Cons.IH [OF c3 l3] by auto
    have S: "refs v w' = pass_n k qs (refs v ?w3)" "live v w' \<subseteq> live v ?w3" "k \<le> length qs"
      "queued v w' = (queued v ?w3)(?pcb := queued v ?w3 ?pcb @ chain_bytes api v ?w3 (take k qs))"
      "untouched api v (live v w') ?w3 w'"
      using IH(3) by (auto simp: sent_prefix_def)
    have "chain_bytes api v ?w3 (take k qs) = chain_bytes api v w (take k qs)"
      using untouched_bytes [OF u3, of "take k qs"] subset_trans [OF set_take_subset l3]
      unfolding chain_bytes_def by metis
    then have "sent_prefix api v ?pcb (q # qs) (Suc k) w w'"
      using S R W ok(2) l1 untouched_trans [OF u3 S(5)]
      by (auto simp: sent_prefix_def chain_bytes_def bytes_def Int_absorb1)
    moreover have "writeLoop api c w = Some (c\<lparr>writeBuffer := b\<rparr>, w')"
      using ok wr q IH(1) by (subst writeLoop_unfold) simp
    ultimately show ?thesis using IH by (intro exI [of _ "Suc k"]) auto
  qed
qed

lemma writeToTcp_sends:
  assumes "lwip_laws api v"
    and "is_chain (pbuf_mem api w) (writeBuffer c) ps" and "set ps \<subseteq> live v w"
  shows "\<exists>k w' b. writeToTcp api (c, w) = Some (c\<lparr>writeBuffer := b\<rparr>, w') \<and>
    is_chain (pbuf_mem api w') b (drop k ps) \<and> sent_prefix api v (controlBlock c) ps k w w' \<and>
    set (drop k ps) \<subseteq> live v w' \<and>
    (never_refuses api (controlBlock c) \<longrightarrow> k = length ps) \<and>
    (ps \<noteq> [] \<and> takes api (controlBlock c) w (writeBuffer c) \<longrightarrow> 0 < k)"
proof -
  obtain k w' b where L: "writeLoop api c w = Some (c\<lparr>writeBuffer := b\<rparr>, w')"
    "is_chain (pbuf_mem api w') b (drop k ps)" "sent_prefix api v (controlBlock c) ps k w w'"
    "set (drop k ps) \<subseteq> live v w'" "never_refuses api (controlBlock c) \<longrightarrow> k = length ps"
    "ps \<noteq> [] \<and> takes api (controlBlock c) w (writeBuffer c) \<longrightarrow> 0 < k"
    using writeLoop_sends [OF assms] by blast
  let ?w'' = "tcp_output api (controlBlock c) w'"
  have q: "quiet api v w' ?w''" by (rule outputD [OF assms(1)])
  then have "is_chain (pbuf_mem api ?w'') b (drop k ps)" "set (drop k ps) \<subseteq> live v ?w''"
    using L(2,4) untouched_chain [of api v "live v w'" w' ?w'' "drop k ps" b]
    by (auto simp: quiet_def live_def)
  moreover have "writeToTcp api (c, w) = Some (c\<lparr>writeBuffer := b\<rparr>, ?w'')"
    using L(1) by (simp add: writeToTcp_def)
  ultimately show ?thesis using L(5,6) sent_prefix_quiet [OF L(3) q] by blast
qed

section \<open>Writing a packet\<close>

lemma chainD:
  assumes "lwip_laws api v" and "is_chain (pbuf_mem api w) h hs" and "is_chain (pbuf_mem api w) t ts"
    and "hs \<noteq> []" and "ts \<noteq> []" and "set hs \<inter> set ts = {}" and "set hs \<union> set ts \<subseteq> live v w"
  shows "refs v (pbuf_chain api h t w) = (refs v w)(t := Suc (refs v w t))"
    and "queued v (pbuf_chain api h t w) = queued v w"
    and "untouched api v (live v w - set hs) w (pbuf_chain api h t w)"
    and "is_chain (pbuf_mem api (pbuf_chain api h t w)) h (hs @ ts)"
    and "\<forall>q\<in>set hs. bytes api v (pbuf_chain api h t w) q = bytes api v w q"
  using assms unfolding lwip_laws_def chain_law_def Let_def by blast+

text \<open>
  A packet \<open>ps\<close> is appended to what the connection still has to send, \<open>xs\<close>: by \<open>pbuf_chain\<close> or, where
  there is nothing, by a reference of its own.
\<close>

definition append_packet :: "'w lwip \<Rightarrow> ptr \<Rightarrow> tcp_connection \<times> 'w \<Rightarrow> tcp_connection \<times> 'w" where
  "append_packet api p = (\<lambda>(c, w).
     if writeBuffer c \<noteq> 0 then (c, pbuf_chain api (writeBuffer c) p w)
     else (c\<lparr>writeBuffer := p\<rparr>, pbuf_ref api p w))"

lemma TcpServer_write_append:
  assumes "conn_state c = Established" and "p \<noteq> 0" and "p_tot_len (pbuf_mem api w p) \<noteq> 0"
  shows "TcpServer_write api p (c, w) = writeToTcp api (append_packet api p (c, w))"
  using assms by (simp add: TcpServer_write_def append_packet_def Let_def)

lemma append_packet_spec:
  assumes laws: "lwip_laws api v"
    and xs: "is_chain (pbuf_mem api w) (writeBuffer c) xs" and ps: "is_chain (pbuf_mem api w) p ps"
    and "ps \<noteq> []" and "set xs \<inter> set ps = {}" and alive: "set xs \<union> set ps \<subseteq> live v w"
  obtains b w1 where "append_packet api p (c, w) = (c\<lparr>writeBuffer := b\<rparr>, w1)"
    and "is_chain (pbuf_mem api w1) b (xs @ ps)"
    and "refs v w1 = (refs v w)(p := Suc (refs v w p))" and "live v w1 = live v w"
    and "queued v w1 = queued v w" and "untouched api v (live v w - set xs) w w1"
    and "chain_bytes api v w1 (xs @ ps) = chain_bytes api v w (xs @ ps)"
    and "\<forall>q\<in>live v w. bytes api v w1 q = bytes api v w q"
proof (cases "writeBuffer c = 0")
  case True
  then have xs0: "xs = []" using xs by simp
  have "p \<noteq> 0" "0 < refs v w p" using ps alive \<open>ps \<noteq> []\<close> by (cases ps; auto)+
  note R = refD [OF laws this(2)]
  have "live v (pbuf_ref api p w) = live v w"
    using \<open>0 < refs v w p\<close> by (auto simp: live_def R(1))
  moreover have "is_chain (pbuf_mem api (pbuf_ref api p w)) p ps"
    using untouched_chain [OF R(3), of ps p] ps alive by auto
  moreover have b: "\<forall>q\<in>live v w. bytes api v (pbuf_ref api p w) q = bytes api v w q"
    using R(3) by (auto simp: untouched_def)
  moreover from b have "chain_bytes api v (pbuf_ref api p w) (xs @ ps) = chain_bytes api v w (xs @ ps)"
    using alive by (intro chain_bytes_cong) auto
  ultimately show thesis
    using that [of p "pbuf_ref api p w"] True R xs0 by (auto simp: append_packet_def)
next
  case False
  then have "xs \<noteq> []" using xs by auto
  note C = chainD [OF laws xs ps this \<open>ps \<noteq> []\<close> assms(5,6)]
  let ?w1 = "pbuf_chain api (writeBuffer c) p w"
  have "0 < refs v w p" using ps alive \<open>ps \<noteq> []\<close> by (cases ps) auto
  then have "live v ?w1 = live v w" by (auto simp: live_def C(1))
  moreover have b: "\<forall>q\<in>live v w. bytes api v ?w1 q = bytes api v w q"
    using C(3,5) by (auto simp: untouched_def)
  moreover from b have "chain_bytes api v ?w1 (xs @ ps) = chain_bytes api v w (xs @ ps)"
    using alive by (intro chain_bytes_cong) auto
  moreover have "append_packet api p (c, w) = (c\<lparr>writeBuffer := writeBuffer c\<rparr>, ?w1)"
    using False by (simp add: append_packet_def)
  ultimately show thesis using that [of "writeBuffer c" ?w1] C by blast
qed

section \<open>Giving up two references\<close>

lemma free_twice:
  assumes laws: "lwip_laws api v" and chain: "is_chain (pbuf_mem api w) p (p # qs)"
    and "2 \<le> refs v w p" and "set qs \<subseteq> live v w"
    and "w1 = snd (pbuf_free api p w)" and "w2 = snd (pbuf_free api p w1)"
  shows "refs v w2 = drop_refs (p # qs) (drop_refs (p # qs) (refs v w))"
    and "queued v w2 = queued v w" and "live v w2 \<subseteq> live v w" and "untouched api v (live v w2) w w2"
proof -
  have a: "set (p # qs) \<subseteq> live v w" using assms(3,4) by auto
  note F1 = freeD [OF laws chain list.distinct(2) a, folded assms(5)]
  have d: "distinct (p # qs)" by (rule is_chain_distinct [OF chain])
  have r1: "refs v w1 = (refs v w)(p := refs v w p - 1)" using F1(1) assms(3) by simp
  then have l1: "live v w1 = live v w" using assms(3) by (auto simp: live_def)
  have c1: "is_chain (pbuf_mem api w1) p (p # qs)"
    using untouched_chain [OF F1(3) a [folded l1]] chain by blast
  note F2 = freeD [OF laws c1 list.distinct(2) a [folded l1], folded assms(6)]
  show "refs v w2 = drop_refs (p # qs) (drop_refs (p # qs) (refs v w))" using F2(1) F1(1) by simp
  show "queued v w2 = queued v w" using F2(2) F1(2) by simp
  show l2: "live v w2 \<subseteq> live v w"
    using live_drop [of "p # qs" "refs v w1"] F2(1) l1 by (simp add: live_def)
  show "untouched api v (live v w2) w w2"
    using untouched_trans [OF F1(3) F2(3)] l1 l2 by (simp add: Int_absorb1)
qed

end
