(* ===== verification/Tcp_Echo.thy ===== *)
theory Tcp_Echo
  imports Tcp_Transmit Lwip_Instance
begin

text \<open>
  The echo server, \<open>include/lwipserver/network/TcpEchoServer.h\<close>: its receive callback, the proof that
  the callback keeps the contract of the TCP server, and what the two together do with a packet, a
  stream of packets, and the end of a connection.
\<close>

section \<open>Model\<close>

definition sPort :: u16 where "sPort = 7"

definition echo_recv :: "'w lwip \<Rightarrow> 'w RecvCallback" where
  "echo_recv api = (\<lambda>(c, w). map_option
     (\<lambda>(c, w). (c\<lparr>readBuffer := 0\<rparr>, snd (pbuf_free api (readBuffer c) w)))
     (TcpServer_write api (readBuffer c) (c, w)))"

definition TcpEchoServer_init ::
  "'w lwip \<Rightarrow> ptr \<Rightarrow> 'w tcp_server \<times> 'w \<Rightarrow> 'w tcp_server \<times> 'w" where
  "TcpEchoServer_init api ip_any = (\<lambda>(s, w).
     TcpServer_init api ip_any sPort (registerRecvCallback (echo_recv api) s, w))"

lemma echo_recv_succ:
  assumes "echo_recv api (c, w) = Some (c', w')" shows "conn_succ c c'"
proof -
  obtain d w1 where "TcpServer_write api (readBuffer c) (c, w) = Some (d, w1)"
    and "c' = d\<lparr>readBuffer := 0\<rparr>"
    using assms by (auto simp: echo_recv_def)
  with TcpServer_write_succ [of api "readBuffer c" c w d w1] show ?thesis
    by (auto simp: conn_succ_def conn_ok_def)
qed

interpretation echo_h: recv_handler echo_recv
  by unfold_locales (rule echo_recv_succ)

section \<open>One packet\<close>

text \<open>
  Between events the application holds nothing but the chain \<open>ps\<close> that the connection still has to
  send, with one reference to each of its buffers.
\<close>

definition holding ::
  "'w lwip \<Rightarrow> 'w lwip_view \<Rightarrow> tcp_connection \<Rightarrow> 'w \<Rightarrow> ptr list \<Rightarrow> bool" where
  "holding api v c w ps \<longleftrightarrow> is_chain (pbuf_mem api w) (writeBuffer c) ps \<and> readBuffer c = 0 \<and>
     (\<forall>q\<in>set ps. refs v w q = 1)"

text \<open>
  Of the buffers \<open>ps\<close>, the first \<open>k\<close> have been queued for sending and are free; the connection holds
  the others, and nothing else has changed.
\<close>

definition echoed ::
  "'w lwip \<Rightarrow> 'w lwip_view \<Rightarrow> ptr \<Rightarrow> ptr list \<Rightarrow> nat \<Rightarrow> 'w \<Rightarrow> 'w \<Rightarrow> bool" where
  "echoed api v pcb ps k w w' \<longleftrightarrow> k \<le> length ps \<and>
     refs v w' = (\<lambda>q. if q \<in> set (take k ps) then 0 else refs v w q) \<and>
     queued v w' = (queued v w)(pcb := queued v w pcb @ chain_bytes api v w (take k ps)) \<and>
     chain_bytes api v w' (drop k ps) = chain_bytes api v w (drop k ps) \<and>
     untouched api v (live v w' - set ps) w w'"

lemma holding_live: "holding api v c w ps \<Longrightarrow> set ps \<subseteq> live v w"
  by (auto simp: holding_def)

lemma echoed_conserves:
  "echoed api v pcb ps k w w' \<Longrightarrow>
    queued v w' pcb @ chain_bytes api v w' (drop k ps) = queued v w pcb @ chain_bytes api v w ps"
  by (auto simp: echoed_def chain_bytes_append [symmetric])

text \<open>The references after the packet has been handled, whether all that waited was sent or not.\<close>

lemma handled_refs:
  assumes "distinct (xs @ p # qs)" and "\<forall>q\<in>set xs \<union> set qs. r q = 1" and "r p = 1"
    and "k \<le> length (xs @ p # qs)" and "r' = pass_n k (xs @ p # qs) (r(p := 3))"
  shows "drop_refs (p # qs) (drop_refs (p # qs) r') =
      (\<lambda>q. if q \<in> set (take k (xs @ p # qs)) then 0 else r q)"
    and "2 \<le> r' p" and "\<forall>q\<in>set qs. 0 < r' q"
proof -
  have d: "p \<notin> set xs" "p \<notin> set qs" "set xs \<inter> set qs = {}" "distinct qs" using assms(1) by auto
  obtain s where s: "s = r(p := 3)" by blast
  have r: "\<forall>q\<in>set xs \<union> set qs. s q = 1" "s p = 3" using assms(2) d by (auto simp: s)
  consider (queued) "k \<le> length xs" | (sent) j where "k = length xs + Suc j" "j \<le> length qs"
  proof (cases "k \<le> length xs")
    case False
    then show thesis using assms(4) that(2) [of "k - Suc (length xs)"] by simp
  qed (use that in blast)
  then have "drop_refs (p # qs) (drop_refs (p # qs) r') =
      (\<lambda>q. if q \<in> set (take k (xs @ p # qs)) then 0 else r q) \<and> 2 \<le> r' p \<and> (\<forall>q\<in>set qs. 0 < r' q)"
  proof cases
    case queued
    have r': "r' = queued_refs xs p k s"
      unfolding assms(5) s [symmetric] by (rule pass_n_queued [OF assms(1) r queued])
    have "p \<notin> set (take k xs)" using d(1) by (auto dest: in_set_takeD)
    moreover have "set (take k xs) \<inter> set qs = {}" using d(3) by (auto dest: in_set_takeD)
    ultimately show ?thesis
      using handled_refs_queued [where r = s and k = k, OF assms(1) r(2)] queued assms(2,3) d
      by (auto simp: r' s fun_eq_iff queued_refs_def)
  next
    case sent
    have r': "r' = sent_refs xs p qs j s"
      unfolding assms(5) sent(1) s [symmetric] by (rule pass_n_sent [OF assms(1) r sent(2)])
    show ?thesis
      using handled_refs_sent [where r = s, OF assms(1) r sent(2)] sent assms(2,3) d
      by (auto simp: r' s fun_eq_iff sent_refs_def)
  qed
  then show "drop_refs (p # qs) (drop_refs (p # qs) r') =
      (\<lambda>q. if q \<in> set (take k (xs @ p # qs)) then 0 else r q)"
    and "2 \<le> r' p" and "\<forall>q\<in>set qs. 0 < r' q"
    by blast+
qed

lemma left_over:
  assumes "distinct ps" and "\<forall>q\<in>set ps. r q = (1 :: nat)"
    and "r' = (\<lambda>q. if q \<in> set (take k ps) then 0 else r q)"
  shows "\<forall>q\<in>set (drop k ps). r' q = 1"
  using assms set_take_disj_set_drop_if_distinct [OF assms(1) order_refl, of k]
  by (auto dest: in_set_dropD)

lemma recv_echo_unfold:
  assumes "p \<noteq> 0" and "readBuffer c = 0" and "conn_state c = Established"
    and "w1 = pbuf_ref api p (tcp_recved api (controlBlock c) (p_tot_len (pbuf_mem api w p)) w)"
    and "p_tot_len (pbuf_mem api w1 p) \<noteq> 0"
    and "writeToTcp api (append_packet api p (c\<lparr>readBuffer := p\<rparr>, w1)) =
      Some (c\<lparr>readBuffer := p, writeBuffer := b\<rparr>, w2)"
  shows "TcpServer_recv api (Some (echo_recv api)) p ERR_OK (c, w) =
    Some (ERR_OK, c\<lparr>writeBuffer := b\<rparr>, snd (pbuf_free api p (snd (pbuf_free api p w2))))"
proof -
  have "c\<lparr>readBuffer := 0\<rparr> = c" using assms(2) by (cases c) simp
  then have c: "c\<lparr>writeBuffer := b, readBuffer := 0\<rparr> = c\<lparr>writeBuffer := b\<rparr>" by (cases c) simp
  have "TcpServer_write api p (c\<lparr>readBuffer := p\<rparr>, w1) =
      Some (c\<lparr>readBuffer := p, writeBuffer := b\<rparr>, w2)"
    using assms TcpServer_write_append [of "c\<lparr>readBuffer := p\<rparr>" p api w1] by simp
  then have "echo_recv api (c\<lparr>readBuffer := p\<rparr>, w1) =
      Some (c\<lparr>writeBuffer := b\<rparr>, snd (pbuf_free api p w2))"
    by (simp add: echo_recv_def c)
  then show ?thesis using assms(1,2,4) by (simp add: TcpServer_recv_def)
qed

lemma recv_echoes:
  assumes laws: "lwip_laws api v" and est: "conn_state c = Established"
    and hold: "holding api v c w xs"
    and ps: "is_chain (pbuf_mem api w) p ps" "ps \<noteq> []" "set xs \<inter> set ps = {}"
      "\<forall>q\<in>set ps. refs v w q = 1" "p_tot_len (pbuf_mem api w p) \<noteq> 0"
  shows "\<exists>k b w'. TcpServer_recv api (Some (echo_recv api)) p ERR_OK (c, w) =
      Some (ERR_OK, c\<lparr>writeBuffer := b\<rparr>, w') \<and>
    holding api v (c\<lparr>writeBuffer := b\<rparr>) w' (drop k (xs @ ps)) \<and>
    echoed api v (controlBlock c) (xs @ ps) k w w' \<and>
    (never_refuses api (controlBlock c) \<longrightarrow> k = length (xs @ ps))"
proof -
  let ?pcb = "controlBlock c" and ?c = "c\<lparr>readBuffer := p\<rparr>"
  obtain qs where pq: "ps = p # qs" and p0: "p \<noteq> 0" using ps(1,2) by (cases ps) auto
  have xs: "is_chain (pbuf_mem api w) (writeBuffer c) xs" and rb: "readBuffer c = 0"
    and ones: "\<forall>q\<in>set (xs @ ps). refs v w q = 1"
    using hold ps(4) by (auto simp: holding_def)
  then have alive: "set xs \<union> set ps \<subseteq> live v w" by auto
  let ?w1 = "tcp_recved api ?pcb (p_tot_len (pbuf_mem api w p)) w" let ?w2 = "pbuf_ref api p ?w1"
  have q1: "quiet api v w ?w1" by (rule recvedD [OF laws])
  then have "0 < refs v ?w1 p" using ones pq by (simp add: quiet_def)
  note R = refD [OF laws this]
  have r2: "refs v ?w2 = (refs v w)(p := 2)" "queued v ?w2 = queued v w"
    using R q1 ones pq by (auto simp: quiet_def)
  have l2: "live v ?w2 = live v w" using r2(1) ones pq by (auto simp: live_def)
  have l1: "live v ?w1 = live v w" using q1 by (simp add: quiet_def live_def)
  have "untouched api v (live v w) w ?w1" using q1 by (simp add: quiet_def)
  from untouched_trans [OF this R(3)] have u2: "untouched api v (live v w) w ?w2"
    by (simp add: l1)
  have x2: "is_chain (pbuf_mem api ?w2) (writeBuffer ?c) xs" "is_chain (pbuf_mem api ?w2) p ps"
    using untouched_chain [OF u2] alive xs ps(1) by simp_all
  have a2: "set xs \<union> set ps \<subseteq> live v ?w2" using alive l2 by simp
  obtain b0 w3 where A: "append_packet api p (?c, ?w2) = (?c\<lparr>writeBuffer := b0\<rparr>, w3)"
    "is_chain (pbuf_mem api w3) b0 (xs @ ps)" "refs v w3 = (refs v ?w2)(p := Suc (refs v ?w2 p))"
    "live v w3 = live v ?w2" "queued v w3 = queued v ?w2"
    "untouched api v (live v ?w2 - set xs) ?w2 w3"
    "chain_bytes api v w3 (xs @ ps) = chain_bytes api v ?w2 (xs @ ps)"
    "\<forall>q\<in>live v ?w2. bytes api v w3 q = bytes api v ?w2 q"
    by (rule append_packet_spec [OF laws x2 ps(2,3) a2])
  have r3: "refs v w3 = (refs v w)(p := 3)" using A(3) r2(1) by simp
  have a3: "set (xs @ ps) \<subseteq> live v w3" using alive A(4) l2 by auto
  obtain k w4 b where S: "writeToTcp api (?c\<lparr>writeBuffer := b0\<rparr>, w3) = Some (?c\<lparr>writeBuffer := b\<rparr>, w4)"
    "is_chain (pbuf_mem api w4) b (drop k (xs @ ps))" "sent_prefix api v ?pcb (xs @ ps) k w3 w4"
    "never_refuses api ?pcb \<longrightarrow> k = length (xs @ ps)"
    using writeToTcp_sends [OF laws, of w3 "?c\<lparr>writeBuffer := b0\<rparr>" "xs @ ps"] A(2) a3 by auto
  have d: "distinct (xs @ p # qs)" using is_chain_distinct [OF A(2)] pq by simp
  have r4: "refs v w4 = pass_n k (xs @ p # qs) ((refs v w)(p := 3))"
    and k: "k \<le> length (xs @ p # qs)" and l4: "live v w4 \<subseteq> live v w"
    and u4: "untouched api v (live v w4) w3 w4"
    and q4: "queued v w4 = (queued v w)(?pcb := queued v w ?pcb @ chain_bytes api v w3 (take k (xs @ ps)))"
    using S(3) A(4,5) r2(2) r3 l2 pq by (simp_all add: sent_prefix_def)
  note H = handled_refs [OF d _ _ k r4]
  have h: "2 \<le> refs v w4 p" "set qs \<subseteq> live v w4" using H ones pq by auto
  have p4: "set (p # qs) \<subseteq> live v w4" using h by auto
  have "untouched api v (set (p # qs)) w3 w4" by (rule untouched_mono [OF u4 p4])
  moreover have "set (p # qs) \<subseteq> live v ?w2 - set xs" using alive pq ps(3) l2 by auto
  then have "untouched api v (set (p # qs)) ?w2 w3" by (rule untouched_mono [OF A(6)])
  ultimately have c4: "is_chain (pbuf_mem api w4) p (p # qs)"
    using x2(2) untouched_chain [of api v _ ?w2 w3 "p # qs" p]
      untouched_chain [of api v _ w3 w4 "p # qs" p] pq by blast
  define w5 where "w5 = snd (pbuf_free api p (snd (pbuf_free api p w4)))"
  note F = free_twice [OF laws c4 h refl w5_def]
  have r5: "refs v w5 = (\<lambda>q. if q \<in> set (take k (xs @ ps)) then 0 else refs v w q)"
    using F(1) H(1) ones pq by simp
  have "distinct (xs @ ps)" using d pq by simp
  from left_over [OF this ones r5] have rest: "\<forall>q\<in>set (drop k (xs @ ps)). refs v w5 q = 1" .
  then have l5: "set (drop k (xs @ ps)) \<subseteq> live v w5" by auto
  have b3: "\<forall>q\<in>live v w. bytes api v w3 q = bytes api v w q"
    using A(8) l2 u2 by (simp add: untouched_def)
  have b5: "bytes api v w5 q = bytes api v w q" if "q \<in> live v w5" for q
  proof -
    have "q \<in> live v w4" by (rule subsetD [OF F(3) that])
    then show ?thesis
      using untouchedD(2) [OF F(4) that] untouchedD(2) [OF u4] b3 l4 by (metis subsetD)
  qed
  have "chain_bytes api v w5 (drop k (xs @ ps)) = chain_bytes api v w (drop k (xs @ ps))"
    using l5 b5 by (intro chain_bytes_cong) blast
  moreover have "set (take k (xs @ ps)) \<subseteq> live v w"
    using alive set_take_subset [of k "xs @ ps"] by auto
  then have "chain_bytes api v w3 (take k (xs @ ps)) = chain_bytes api v w (take k (xs @ ps))"
    using b3 by (intro chain_bytes_cong) blast
  moreover have "untouched api v (live v w5 - set (xs @ ps)) w w5"
  proof -
    have "untouched api v (live v ?w2 - set xs) w w3" using untouched_trans [OF u2 A(6)] l2 by (simp add: Int_absorb1)
    from untouched_trans [OF untouched_trans [OF this u4] F(4)] show ?thesis
      by (rule untouched_mono) (use F(3) l4 l2 in auto)
  qed
  ultimately have "echoed api v ?pcb (xs @ ps) k w w5"
    using k pq r5 F(2) q4 by (simp add: echoed_def)
  moreover have "is_chain (pbuf_mem api w5) b (drop k (xs @ ps))"
    using untouched_chain [OF F(4) l5] S(2) by blast
  then have "holding api v (c\<lparr>writeBuffer := b\<rparr>) w5 (drop k (xs @ ps))"
    using rest rb by (simp add: holding_def)
  moreover have "p_tot_len (pbuf_mem api ?w2 p) \<noteq> 0"
    using ps(5) untouchedD(1) [OF u2, of p] ones pq by simp
  then have "TcpServer_recv api (Some (echo_recv api)) p ERR_OK (c, w) =
      Some (ERR_OK, c\<lparr>writeBuffer := b\<rparr>, w5)"
    unfolding w5_def by (rule recv_echo_unfold [OF p0 rb est refl]) (simp add: A(1) S(1))
  ultimately show ?thesis using S(4) by blast
qed

section \<open>Sending what waits, and the end of a connection\<close>

lemma flush_echoes:
  assumes laws: "lwip_laws api v" and hold: "holding api v c w ps"
  shows "\<exists>k b w'. writeToTcp api (c, w) = Some (c\<lparr>writeBuffer := b\<rparr>, w') \<and>
    holding api v (c\<lparr>writeBuffer := b\<rparr>) w' (drop k ps) \<and> echoed api v (controlBlock c) ps k w w' \<and>
    (never_refuses api (controlBlock c) \<longrightarrow> k = length ps) \<and>
    (ps \<noteq> [] \<and> takes api (controlBlock c) w (writeBuffer c) \<longrightarrow> 0 < k)"
proof -
  have ps: "is_chain (pbuf_mem api w) (writeBuffer c) ps" "\<forall>q\<in>set ps. refs v w q = 1"
    and rb: "readBuffer c = 0"
    using hold by (auto simp: holding_def)
  have d: "distinct ps" by (rule is_chain_distinct [OF ps(1)])
  obtain k w' b where S: "writeToTcp api (c, w) = Some (c\<lparr>writeBuffer := b\<rparr>, w')"
    "is_chain (pbuf_mem api w') b (drop k ps)" "sent_prefix api v (controlBlock c) ps k w w'"
    "set (drop k ps) \<subseteq> live v w'" "never_refuses api (controlBlock c) \<longrightarrow> k = length ps"
    "ps \<noteq> [] \<and> takes api (controlBlock c) w (writeBuffer c) \<longrightarrow> 0 < k"
    using writeToTcp_sends [OF laws ps(1) holding_live [OF hold]] by blast
  have r: "refs v w' = (\<lambda>q. if q \<in> set (take k ps) then 0 else refs v w q)"
  proof -
    have "refs v w' = pass_n k ps (refs v w)" "k \<le> length ps"
      using S(3) by (simp_all add: sent_prefix_def)
    moreover have "\<forall>q\<in>set (take k ps). refs v w q = 1" using ps(2) by (auto dest: in_set_takeD)
    ultimately show ?thesis using pass_n_take [OF d, of k "refs v w"] by metis
  qed
  have "chain_bytes api v w' (drop k ps) = chain_bytes api v w (drop k ps)"
    using S(3,4) by (intro chain_bytes_cong) (auto simp: sent_prefix_def untouched_def)
  then have "echoed api v (controlBlock c) ps k w w'"
    using S(3) r untouched_mono [of api v "live v w'" w w' "live v w' - set ps"] by (simp add: echoed_def sent_prefix_def)
  moreover have "holding api v (c\<lparr>writeBuffer := b\<rparr>) w' (drop k ps)"
    using S(2) left_over [OF d ps(2) r] rb by (simp add: holding_def)
  ultimately show ?thesis using S(1,5,6) by blast
qed

lemma echoed_nothing: "echoed api v pcb ps 0 w w"
  by (simp add: echoed_def chain_bytes_def untouched_def)

lemma holding_empty_iff: "holding api v c w ps \<Longrightarrow> writeBuffer c = 0 \<longleftrightarrow> ps = []"
  by (cases ps) (auto simp: holding_def)

lemma poll_echoes:
  assumes "lwip_laws api v" and "holding api v c w ps" and "conn_state c = Established"
  shows "\<exists>k b w'. TcpServer_poll api (c, w) = Some (ERR_OK, c\<lparr>writeBuffer := b\<rparr>, w') \<and>
    holding api v (c\<lparr>writeBuffer := b\<rparr>) w' (drop k ps) \<and> echoed api v (controlBlock c) ps k w w'"
proof (cases "ps = []")
  case True
  have c: "c\<lparr>writeBuffer := writeBuffer c\<rparr> = c" by simp
  have "writeBuffer c = 0" by (rule iffD2 [OF holding_empty_iff [OF assms(2)] True])
  then have "TcpServer_poll api (c, w) = Some (ERR_OK, c\<lparr>writeBuffer := writeBuffer c\<rparr>, w)"
    unfolding c using assms(3) by (simp add: TcpServer_poll_def)
  moreover have "holding api v (c\<lparr>writeBuffer := writeBuffer c\<rparr>) w (drop 0 ps)"
    using assms(2) by simp
  ultimately show ?thesis using echoed_nothing [of api v "controlBlock c" ps w] by blast
next
  case False
  then have "writeBuffer c \<noteq> 0" by (simp add: holding_empty_iff [OF assms(2)])
  obtain k b w' where "writeToTcp api (c, w) = Some (c\<lparr>writeBuffer := b\<rparr>, w')"
    "holding api v (c\<lparr>writeBuffer := b\<rparr>) w' (drop k ps)" "echoed api v (controlBlock c) ps k w w'"
    using flush_echoes [OF assms(1,2)] by blast
  moreover from this \<open>writeBuffer c \<noteq> 0\<close>
  have "TcpServer_poll api (c, w) = Some (ERR_OK, c\<lparr>writeBuffer := b\<rparr>, w')"
    by (simp add: TcpServer_poll_def)
  ultimately show ?thesis by blast
qed

lemma sent_is_poll: "TcpServer_sent api len cw = TcpServer_poll api cw"
  by (cases cw) (simp add: TcpServer_sent_def TcpServer_poll_def)

section \<open>A connection over time\<close>

text \<open>
  An established connection of the echo server: lwIP hands it packets, acknowledges data and polls
  it; in between the rest of the machine runs and leaves alone what the connection holds. The list is
  everything received.
\<close>

definition leaves_alone :: "'w lwip \<Rightarrow> 'w lwip_view \<Rightarrow> ptr \<Rightarrow> 'w \<Rightarrow> 'w \<Rightarrow> bool" where
  "leaves_alone api v pcb w w' \<longleftrightarrow> untouched api v (live v w) w w' \<and>
     (\<forall>q\<in>live v w. refs v w' q = refs v w q) \<and> queued v w' pcb = queued v w pcb"

inductive echo_run ::
  "'w lwip \<Rightarrow> 'w lwip_view \<Rightarrow> tcp_connection \<Rightarrow> 'w \<Rightarrow> u8 list \<Rightarrow> tcp_connection \<Rightarrow> 'w \<Rightarrow> bool"
  for api v c0 w0 where
  start: "echo_run api v c0 w0 [] c0 w0"
| elsewhere: "echo_run api v c0 w0 bs c w \<Longrightarrow> leaves_alone api v (controlBlock c) w w' \<Longrightarrow>
    echo_run api v c0 w0 bs c w'"
| packet: "echo_run api v c0 w0 bs c w \<Longrightarrow> leaves_alone api v (controlBlock c) w w1 \<Longrightarrow>
    is_chain (pbuf_mem api w1) p ps \<Longrightarrow> p_tot_len (pbuf_mem api w1 p) \<noteq> 0 \<Longrightarrow>
    ps \<noteq> [] \<Longrightarrow> set ps \<inter> live v w = {} \<Longrightarrow> \<forall>q\<in>set ps. refs v w1 q = 1 \<Longrightarrow>
    TcpServer_recv api (Some (echo_recv api)) p ERR_OK (c, w1) = Some (e, c', w') \<Longrightarrow>
    echo_run api v c0 w0 (bs @ chain_bytes api v w1 ps) c' w'"
| acknowledged: "echo_run api v c0 w0 bs c w \<Longrightarrow>
    TcpServer_sent api len (c, w) = Some (e, c', w') \<Longrightarrow> echo_run api v c0 w0 bs c' w'"
| polled: "echo_run api v c0 w0 bs c w \<Longrightarrow>
    TcpServer_poll api (c, w) = Some (e, c', w') \<Longrightarrow> echo_run api v c0 w0 bs c' w'"

lemma holding_alone:
  assumes "holding api v c w ps" and "leaves_alone api v pcb w w'"
  shows "holding api v c w' ps \<and> chain_bytes api v w' ps = chain_bytes api v w ps"
proof -
  have u: "untouched api v (live v w) w w'" using assms(2) by (simp add: leaves_alone_def)
  have l: "set ps \<subseteq> live v w" by (rule holding_live [OF assms(1)])
  have "is_chain (pbuf_mem api w') (writeBuffer c) ps"
    using untouched_chain [OF u l] assms(1) by (simp add: holding_def)
  moreover have "chain_bytes api v w' ps = chain_bytes api v w ps"
    using u l by (intro chain_bytes_cong) (auto simp: untouched_def)
  moreover have "\<forall>q\<in>set ps. refs v w' q = 1"
    using assms by (auto simp: holding_def leaves_alone_def)
  ultimately show ?thesis using assms(1) by (simp add: holding_def)
qed

text \<open>Established, on the same control block, and nothing of the stream lost or out of order.\<close>

definition stream_ok ::
  "'w lwip \<Rightarrow> 'w lwip_view \<Rightarrow> u8 list \<Rightarrow> tcp_connection \<Rightarrow> tcp_connection \<Rightarrow> 'w \<Rightarrow> ptr list \<Rightarrow> bool" where
  "stream_ok api v bs c0 c w ps \<longleftrightarrow> conn_state c = Established \<and> controlBlock c = controlBlock c0 \<and>
     holding api v c w ps \<and> queued v w (controlBlock c0) @ chain_bytes api v w ps = bs"

lemma stream_ok_step:
  assumes "stream_ok api v bs c0 c w ps"
    and "holding api v (c\<lparr>writeBuffer := b\<rparr>) w' (drop k (ps @ qs))"
    and "echoed api v (controlBlock c) (ps @ qs) k w w'"
  shows "stream_ok api v (bs @ chain_bytes api v w qs) c0 (c\<lparr>writeBuffer := b\<rparr>) w' (drop k (ps @ qs))"
  using assms echoed_conserves [OF assms(3)]
  by (simp add: stream_ok_def chain_bytes_append append_assoc [symmetric] del: append_assoc drop_append)

lemma stream_ok_alone:
  "stream_ok api v bs c0 c w ps \<Longrightarrow> leaves_alone api v (controlBlock c) w w' \<Longrightarrow> stream_ok api v bs c0 c w' ps"
  using holding_alone [of api v c w ps "controlBlock c" w'] by (auto simp: stream_ok_def leaves_alone_def)

lemma poll_keeps_stream:
  assumes "lwip_laws api v" and "stream_ok api v bs c0 c w ps"
    and "TcpServer_poll api (c, w) = Some (e, c', w')"
  shows "\<exists>ps. stream_ok api v bs c0 c' w' ps"
proof -
  have est: "holding api v c w ps" "conn_state c = Established"
    using assms(2) by (simp_all add: stream_ok_def)
  obtain k b where "c' = c\<lparr>writeBuffer := b\<rparr>" "holding api v (c\<lparr>writeBuffer := b\<rparr>) w' (drop k ps)"
    "echoed api v (controlBlock c) ps k w w'"
    using poll_echoes [OF assms(1) est] assms(3) by auto
  with stream_ok_step [OF assms(2), of b w' k "[]"] show ?thesis by (auto simp: chain_bytes_def)
qed

lemma echo_run_stream:
  assumes laws: "lwip_laws api v" and "conn_state c0 = Established" and "holding api v c0 w0 []"
    and "echo_run api v c0 w0 bs c w"
  shows "\<exists>ps. stream_ok api v (queued v w0 (controlBlock c0) @ bs) c0 c w ps"
  using assms(4)
proof (induction rule: echo_run.induct)
  case start
  show ?case using assms(2,3) by (intro exI [of _ "[]"]) (simp add: stream_ok_def chain_bytes_def)
next
  case (elsewhere bs c w w')
  then obtain ps where "stream_ok api v (queued v w0 (controlBlock c0) @ bs) c0 c w ps" by blast
  from stream_ok_alone [OF this elsewhere.hyps(2)] show ?case by (rule exI)
next
  case (packet bs c w w1 p qs e c' w')
  then obtain ps where ps: "stream_ok api v (queued v w0 (controlBlock c0) @ bs) c0 c w ps" by blast
  then have "set ps \<subseteq> live v w" by (auto simp: stream_ok_def dest: holding_live)
  with packet.hyps(6) have disj: "set ps \<inter> set qs = {}" by blast
  have s1: "stream_ok api v (queued v w0 (controlBlock c0) @ bs) c0 c w1 ps"
    by (rule stream_ok_alone [OF ps packet.hyps(2)])
  then have est: "conn_state c = Established" "holding api v c w1 ps" by (simp_all add: stream_ok_def)
  obtain k b where "c' = c\<lparr>writeBuffer := b\<rparr>"
    "holding api v (c\<lparr>writeBuffer := b\<rparr>) w' (drop k (ps @ qs))"
    "echoed api v (controlBlock c) (ps @ qs) k w1 w'"
    using recv_echoes [OF laws est packet.hyps(3,5) disj packet.hyps(7,4)] packet.hyps(8) by auto
  with stream_ok_step [OF s1] show ?case by (metis append_assoc)
next
  case (acknowledged bs c w len e c' w')
  then show ?case using poll_keeps_stream [OF laws] by (auto simp: sent_is_poll)
next
  case (polled bs c w e c' w')
  then show ?case using poll_keeps_stream [OF laws] by blast
qed

text \<open>What the error callback frees, as a lemma about any connection between events.\<close>

lemma error_frees:
  assumes laws: "lwip_laws api v" "free_null_quiet api v" and hold: "holding api v c w ps"
  shows "\<exists>w'. TcpServer_error api (c, w) =
      (c\<lparr>conn_state := Closed, controlBlock := 0, readBuffer := 0, writeBuffer := 0\<rparr>, w') \<and>
    refs v w' = (\<lambda>q. if q \<in> set ps then 0 else refs v w q) \<and> queued v w' = queued v w \<and>
    untouched api v (live v w') w w'"
proof -
  let ?w1 = "snd (pbuf_free api 0 w)" and ?p = "writeBuffer c"
  have h: "is_chain (pbuf_mem api w) ?p ps" "\<forall>q\<in>set ps. refs v w q = 1" "readBuffer c = 0"
    using hold by (auto simp: holding_def)
  have q1: "quiet api v w ?w1" and q2: "quiet api v ?w1 (snd (pbuf_free api 0 ?w1))"
    using laws(2) by (simp_all add: free_null_quiet_def)
  then have r1: "refs v ?w1 = refs v w" "queued v ?w1 = queued v w" by (simp_all add: quiet_def)
  have u1: "untouched api v (live v w) w ?w1" using q1 by (simp add: quiet_def)
  have "refs v (snd (pbuf_free api ?p ?w1)) = (\<lambda>q. if q \<in> set ps then 0 else refs v w q) \<and>
      queued v (snd (pbuf_free api ?p ?w1)) = queued v w \<and>
      untouched api v (live v (snd (pbuf_free api ?p ?w1))) w (snd (pbuf_free api ?p ?w1))"
  proof (cases "ps = []")
    case True
    have "quiet api v w (snd (pbuf_free api 0 ?w1))" by (rule quiet_trans [OF q1 q2])
    moreover from this have "live v (snd (pbuf_free api 0 ?w1)) = live v w" by (simp add: quiet_def live_def)
    ultimately show ?thesis using h(1) True by (simp add: quiet_def)
  next
    case False
    have ch: "is_chain (pbuf_mem api ?w1) ?p ps"
      using q1 untouched_chain [of api v "live v w" w ?w1 ps ?p] holding_live [OF hold] h(1)
      by (simp add: quiet_def)
    have alive: "set ps \<subseteq> live v ?w1" using holding_live [OF hold] r1(1) by (simp add: live_def)
    note F = freeD [OF laws(1) ch False alive]
    have r: "refs v (snd (pbuf_free api ?p ?w1)) = (\<lambda>q. if q \<in> set ps then 0 else refs v w q)"
      using F(1) r1(1) drop_refs_all_one [OF is_chain_distinct [OF h(1)] h(2)] by simp
    have "untouched api v (live v (snd (pbuf_free api ?p ?w1))) w (snd (pbuf_free api ?p ?w1))"
      by (rule untouched_mono [OF untouched_trans [OF u1 F(3)]]) (auto simp: r split: if_splits)
    then show ?thesis using r F(2) r1(2) by simp
  qed
  then show ?thesis using h(3) by (simp add: TcpServer_error_def Let_def)
qed

lemma init_handler:
  assumes "TcpEchoServer_init api ip (TcpServer_new, w) = (s, w')"
  shows "mRecvCallback s = Some (echo_recv api) \<and> mConnections s = []"
  using assms TcpServer_init_succ [of api ip sPort "registerRecvCallback (echo_recv api) TcpServer_new" w s w']
  by (simp add: TcpEchoServer_init_def registerRecvCallback_def TcpServer_new_def)

section \<open>A packet for the examples\<close>

lemma mini_never_refuses: "never_refuses (mini_api 0xFFFF e) pcb"
proof -
  have "(n :: u16) \<le> 0xFFFF" for n
    using unsigned_less [of n, where ?'a = nat] by (simp add: word_le_nat_alt)
  then show ?thesis by (simp add: never_refuses_def mini_api_def)
qed

lemma open_holds_nothing: "holding (mini_api r e) mini_view open_connection mini_start []"
  by (simp add: holding_def open_connection_def TcpConnection_new_def)

lemma open_holds_packet:
  "holding (mini_api r e) mini_view (open_connection\<lparr>writeBuffer := 0x10\<rparr>) mini_start [0x10, 0x20]"
  using mini_start_packet by (simp add: holding_def open_connection_def TcpConnection_new_def)

lemma open_connection_simps [simp]:
  "conn_state open_connection = Established" "controlBlock open_connection = 0x300"
  "writeBuffer open_connection = 0" "readBuffer open_connection = 0"
  by (simp_all add: open_connection_def TcpConnection_new_def)

section \<open>Properties\<close>

text \<open>
  C16. One packet through the echo server. The buffers \<open>xs\<close> that still wait and those of the packet,
  \<open>ps\<close>, are handed to \<open>tcp_write\<close> from the front, whole buffers in order; the first \<open>k\<close> that lwIP
  accepts are freed, all the others stay in the write buffer, each held exactly once, and no other
  pbuf or control block is concerned. Where lwIP refuses nothing, everything is sent.
\<close>

theorem packet_echoed:
  assumes "lwip_laws api v" and "conn_state c = Established" and "holding api v c w xs"
    and "is_chain (pbuf_mem api w) p ps" and "ps \<noteq> []" and "set xs \<inter> set ps = {}"
    and "\<forall>q\<in>set ps. refs v w q = 1" and "p_tot_len (pbuf_mem api w p) \<noteq> 0"
  shows "\<exists>k b w'. TcpServer_recv api (Some (echo_recv api)) p ERR_OK (c, w) =
      Some (ERR_OK, c\<lparr>writeBuffer := b\<rparr>, w') \<and>
    holding api v (c\<lparr>writeBuffer := b\<rparr>) w' (drop k (xs @ ps)) \<and>
    echoed api v (controlBlock c) (xs @ ps) k w w' \<and>
    (never_refuses api (controlBlock c) \<longrightarrow> k = length (xs @ ps))"
  by (rule recv_echoes [OF assms])

theorem packet_echoed_witness:
  "\<exists>w'. TcpServer_recv (mini_api 0xFFFF ERR_OK) (Some (echo_recv (mini_api 0xFFFF ERR_OK))) 0x10 ERR_OK
      (open_connection, mini_start) = Some (ERR_OK, open_connection, w') \<and>
    mini_out w' 0x300 = [0x10, 0x11, 0x20, 0x21] \<and> mini_refs w' 0x10 = 0 \<and> mini_refs w' 0x20 = 0"
proof -
  let ?api = "mini_api 0xFFFF ERR_OK"
  obtain k b w' where *: "TcpServer_recv ?api (Some (echo_recv ?api)) 0x10 ERR_OK
        (open_connection, mini_start) = Some (ERR_OK, open_connection\<lparr>writeBuffer := b\<rparr>, w')"
    "holding ?api mini_view (open_connection\<lparr>writeBuffer := b\<rparr>) w' (drop k [0x10, 0x20])"
    "echoed ?api mini_view 0x300 [0x10, 0x20] k mini_start w'" "k = Suc (Suc 0)"
    using packet_echoed [where api = ?api and p = "0x10" and ps = "[0x10, 0x20]",
        OF mini_laws _ open_holds_nothing]
      mini_start_packet mini_never_refuses by auto
  then have "open_connection\<lparr>writeBuffer := b\<rparr> = open_connection"
    by (simp add: holding_def open_connection_def TcpConnection_new_def)
  with * show ?thesis
    by (simp add: echoed_def chain_bytes_def mini_start_bytes) (simp add: mini_start_def)
qed

text \<open>
  Echo: over any run of an established connection, with packets, acknowledgements and polls in any
  order and lwIP refusing data at any time, what was queued for sending followed by what still waits
  is exactly what was received: no byte is lost, repeated or out of order.
\<close>

theorem echo_stream:
  assumes "lwip_laws api v" and "conn_state c0 = Established" and "holding api v c0 w0 []"
    and "echo_run api v c0 w0 bs c w"
  shows "\<exists>ps. holding api v c w ps \<and>
    queued v w (controlBlock c0) @ chain_bytes api v w ps = queued v w0 (controlBlock c0) @ bs"
  using echo_run_stream [OF assms] by (auto simp: stream_ok_def)

theorem echo_stream_witness:
  "\<exists>c w ps. echo_run (mini_api 1 ERR_OK) mini_view open_connection (mini_start\<lparr>mini_refs := \<lambda>q. 0\<rparr>)
      [0x10, 0x11, 0x20, 0x21] c w \<and>
    holding (mini_api 1 ERR_OK) mini_view c w ps \<and>
    mini_out w 0x300 @ chain_bytes (mini_api 1 ERR_OK) mini_view w ps = [0x10, 0x11, 0x20, 0x21]"
proof -
  let ?api = "mini_api 1 ERR_OK" and ?w0 = "mini_start\<lparr>mini_refs := \<lambda>q. 0\<rparr>"
  have h0: "holding ?api mini_view open_connection ?w0 []" by (simp add: holding_def)
  obtain c w where r: "TcpServer_recv ?api (Some (echo_recv ?api)) 0x10 ERR_OK
      (open_connection, mini_start) = Some (ERR_OK, c, w)"
    using recv_echoes [where api = ?api and p = "0x10" and ps = "[0x10, 0x20]",
        OF mini_laws _ open_holds_nothing] mini_start_packet
    by fastforce
  have "leaves_alone ?api mini_view 0x300 ?w0 mini_start"
    by (simp add: leaves_alone_def untouched_def live_def mini_bytes)
  then have "echo_run ?api mini_view open_connection ?w0
      ([] @ chain_bytes ?api mini_view mini_start [0x10, 0x20]) c w"
    using mini_start_packet by (intro echo_run.packet [OF echo_run.start _ _ _ _ _ _ r]) auto
  then have run: "echo_run ?api mini_view open_connection ?w0 [0x10, 0x11, 0x20, 0x21] c w"
    by (simp add: chain_bytes_def mini_start_bytes)
  from echo_stream [OF mini_laws _ h0 run] show ?thesis
    using run by (auto simp: mini_start_def)
qed

text \<open>
  When lwIP reports a fatal error, the connection gives back everything it holds: all buffers that
  were waiting are freed, each once, no other pbuf is touched, and the connection forgets the control
  block that lwIP has deallocated.
\<close>

theorem error_releases_everything:
  assumes "lwip_laws api v" and "free_null_quiet api v" and "holding api v c w ps"
  shows "\<exists>w'. TcpServer_error api (c, w) =
      (c\<lparr>conn_state := Closed, controlBlock := 0, readBuffer := 0, writeBuffer := 0\<rparr>, w') \<and>
    refs v w' = (\<lambda>q. if q \<in> set ps then 0 else refs v w q) \<and> queued v w' = queued v w \<and>
    untouched api v (live v w') w w'"
  by (rule error_frees [OF assms])

theorem error_releases_everything_witness:
  "\<exists>w'. snd (TcpServer_error (mini_api 0 ERR_OK) (open_connection\<lparr>writeBuffer := 0x10\<rparr>, mini_start)) = w' \<and>
    mini_refs w' = (\<lambda>q. 0)"
  using error_releases_everything [OF mini_laws mini_free_null open_holds_packet, of 0 ERR_OK]
  by (auto simp: mini_start_def fun_eq_iff)

text \<open>
  C17. However lwIP calls the echo server after \<open>init\<close>, and whatever goes on elsewhere, it has at most
  ten connections, each of them belongs to the server and is never in the state listening, and a
  closed one has nothing left to send.
\<close>

theorem connections_bounded:
  assumes "TcpEchoServer_init api ip (TcpServer_new, w0) = (s0, w1)"
    and "server_steps api s0 w1 s w"
  shows "length (mConnections s) \<le> sMaxConnections \<and> list_all conn_ok (mConnections s)"
  using echo_h.steps_succ [OF assms(2)] init_handler [OF assms(1)] by simp

theorem connections_bounded_witness:
  "\<exists>s0 w1 s w. TcpEchoServer_init (mini_api 0 ERR_OK) 0 (TcpServer_new, mini_start) = (s0, w1) \<and>
    server_steps (mini_api 0 ERR_OK) s0 w1 s w \<and> length (mConnections s) = 1 \<and>
    list_all conn_ok (mConnections s)"
proof -
  let ?api = "mini_api 0 ERR_OK"
  obtain s0 w1 where i: "TcpEchoServer_init ?api 0 (TcpServer_new, mini_start) = (s0, w1)" by force
  then have l: "server (mListeningConnection s0) = Some This_server" "mConnections s0 = []"
    by (auto simp: TcpEchoServer_init_def TcpServer_init_def TcpServer_new_def TcpConnection_new_def
        registerRecvCallback_def mini_api_def)
  obtain e s w where a: "TcpServer_accept ?api 0x300 ERR_OK (s0, w1) = (e, s, w)" by (metis prod.collapse)
  then have "static_accept ?api (Some Listening_conn) 0x300 ERR_OK (s0, w1) = Some (e, s, w)"
    using l by (simp add: static_accept_def)
  then have steps: "server_steps ?api s0 w1 s w"
    by (rule server_steps.more [OF server_steps.none server_step.accept])
  moreover have "length (mConnections s) = 1"
    using a l by (auto simp: TcpServer_accept_def sMaxConnections_def Let_def)
  ultimately show ?thesis using connections_bounded [OF i steps] i by blast
qed

text \<open>
  C39. The list of connections is never emptied. Once ten connections have been accepted and none of
  them is established any more, no later event, no further connection request among them, makes the
  server serve anybody again.
\<close>

theorem served_out_server:
  assumes "mRecvCallback s = Some (echo_recv api)" and "length (mConnections s) = sMaxConnections"
    and "\<forall>c\<in>set (mConnections s). conn_state c \<noteq> Established"
    and "server_steps api s w s' w'"
  shows "length (mConnections s') = sMaxConnections \<and>
    (\<forall>c\<in>set (mConnections s'). conn_state c \<noteq> Established) \<and>
    (\<forall>newpcb err e s'' w''. static_accept api (Some Listening_conn) newpcb err (s', w') = Some (e, s'', w'')
      \<longrightarrow> e \<noteq> ERR_OK \<and> s'' = s')"
proof -
  have len: "length (mConnections s') = sMaxConnections"
    and "\<forall>i<length (mConnections s). conn_state (mConnections s' ! i) \<noteq> Established"
    using echo_h.steps_succ [OF assms(4,1)] assms(2,3) by auto
  then have "\<forall>c\<in>set (mConnections s'). conn_state c \<noteq> Established"
    using assms(2) by (auto simp: in_set_conv_nth)
  with len show ?thesis using accept_full [of s' api "Some Listening_conn"] by blast
qed

theorem served_out_server_witness:
  "\<exists>(s :: mini tcp_server) e s'' w''. length (mConnections s) = 10 \<and>
    static_accept (mini_api 0 ERR_OK) (Some Listening_conn) 7 ERR_OK (s, mini_start) = Some (e, s'', w'') \<and>
    e \<noteq> ERR_OK \<and> s'' = s"
proof -
  let ?s = "(registerRecvCallback (echo_recv (mini_api 0 ERR_OK)) listening_server)
    \<lparr>mConnections := replicate 10 (open_connection\<lparr>conn_state := Closed\<rparr>)\<rparr> :: mini tcp_server"
  obtain e s'' w'' where acc: "static_accept (mini_api 0 ERR_OK) (Some Listening_conn) 7 ERR_OK (?s, mini_start) =
      Some (e, s'', w'')"
    by (cases "TcpServer_accept (mini_api 0 ERR_OK) 7 ERR_OK (?s, mini_start)")
      (simp add: static_accept_def registerRecvCallback_def listening_server_def)
  moreover have "e \<noteq> ERR_OK \<and> s'' = ?s"
    using served_out_server [of ?s "mini_api 0 ERR_OK", OF _ _ _ server_steps.none, of mini_start] acc
    by (simp add: registerRecvCallback_def sMaxConnections_def) blast
  ultimately show ?thesis by (intro exI [of _ ?s]) auto
qed

end
