(* ===== verification/Mqtt_Client.thy ===== *)
theory Mqtt_Client
  imports Loop_Timer
begin

text \<open>
  The MQTT client, \<open>include/lwipserver/network/MqttClient.h\<close> and \<open>src/network/MqttClient.cpp\<close>: the map
  from topics to subscriptions, connecting and subscribing, and the reassembly of a message from the
  pieces lwIP hands over. The subscriptions belong to the application and are reached through
  pointers, so they are kept in a store by address; calls of the application's delegates are recorded
  in order.
\<close>

section \<open>Model\<close>

definition sMaxSubscriptions :: nat where "sMaxSubscriptions = 4"

definition sQos :: u8 where "sQos = 0"

definition sRemain :: u8 where "sRemain = 0"

definition sHealthCheckExpiry :: u32 where "sHealthCheckExpiry = 2000"

definition sKeepAlive :: u16 where "sKeepAlive = 25"

definition sDefaultIp :: "u8 list" where "sDefaultIp = [192, 168, 112, 11]"

definition sDefaultId :: string where "sDefaultId = ''LwIPServer''"

record Config =
  brokerIpAddr :: "u8 list"
  brokerPort :: u16
  keepAlive :: u16
  clientId :: string

text \<open>The default configuration; \<open>MQTT_PORT\<close> is a constant of lwIP.\<close>

definition Config_new :: "u16 \<Rightarrow> Config" where
  "Config_new MQTT_PORT = \<lparr>brokerIpAddr = sDefaultIp, brokerPort = MQTT_PORT, keepAlive = sKeepAlive,
     clientId = sDefaultId\<rparr>"

text \<open>A C string is its characters, \<open>None\<close> is \<open>nullptr\<close>.\<close>

type_synonym cstring = "string option"

record ClientInfo =
  client_id :: cstring
  client_user :: cstring
  client_pass :: cstring
  keep_alive :: u16
  will_topic :: cstring

record Publication =
  topicName :: cstring
  payload :: "u8 list"
  payloadSize :: u16

text \<open>\<open>receivedPayload\<close> tells whether the delegate is valid; \<open>buffer\<close> is the memory it points to.\<close>

record Subscription =
  topic :: cstring
  buffer :: "u8 list"
  capacity :: u32
  sub_size :: u32
  totalSize :: u32
  subscribed :: bool
  receivedPayload :: bool

text \<open>\<open>strcmp(a, b) < 0\<close>, on characters as unsigned bytes; and the order of the keys.\<close>

fun strcmp_less :: "string \<Rightarrow> string \<Rightarrow> bool" where
  "strcmp_less (a # as) (b # bs) =
     ((of_char a :: nat) < of_char b \<or> (a = b \<and> strcmp_less as bs))"
| "strcmp_less [] (b # bs) = True"
| "strcmp_less as [] = False"

fun key_less :: "cstring \<Rightarrow> cstring \<Rightarrow> bool" where
  "key_less None (Some b) = True"
| "key_less (Some a) (Some b) = (if a = b then False else strcmp_less a b)"
| "key_less a None = False"

datatype SubscriptionKey = SubscriptionKey (mTopic: cstring)

lemma strcmp_irrefl [simp]: "\<not> strcmp_less a a"
  by (induction a) auto

lemma strcmp_trans: "strcmp_less a b \<Longrightarrow> strcmp_less b c \<Longrightarrow> strcmp_less a c"
proof (induction a b arbitrary: c rule: strcmp_less.induct)
  case (1 a as b bs)
  then show ?case by (cases c) auto
next
  case (2 b bs)
  then show ?case by (cases c) auto
qed simp

lemma strcmp_lexord:
  "strcmp_less s t \<longleftrightarrow> (map of_char s, map of_char t) \<in> lexord {(x, y). x < (y :: nat)}"
  by (induction s t rule: strcmp_less.induct) auto

lemma strcmp_total: "a = b \<or> strcmp_less a b \<or> strcmp_less b a"
proof (induction a b rule: strcmp_less.induct)
  case (1 a as b bs)
  have "(of_char a :: nat) = of_char b \<longleftrightarrow> a = b" by simp
  with 1 show ?case by fastforce
next
  case (3 as)
  then show ?case by (cases as) auto
qed simp

lemma key_irrefl [simp]: "\<not> key_less a a"
  by (cases a) auto

lemma key_trans: "key_less a b \<Longrightarrow> key_less b c \<Longrightarrow> key_less a c"
  by (cases a; cases b; cases c) (auto split: if_splits dest: strcmp_trans)

lemma key_total: "\<not> key_less a b \<Longrightarrow> \<not> key_less b a \<Longrightarrow> a = b"
  using strcmp_total by (cases a; cases b) (auto split: if_splits)

instantiation SubscriptionKey :: linorder
begin

definition less_SubscriptionKey :: "SubscriptionKey \<Rightarrow> SubscriptionKey \<Rightarrow> bool" where
  "less_SubscriptionKey a b \<longleftrightarrow> key_less (mTopic a) (mTopic b)"

definition less_eq_SubscriptionKey :: "SubscriptionKey \<Rightarrow> SubscriptionKey \<Rightarrow> bool" where
  "less_eq_SubscriptionKey a b \<longleftrightarrow> a = b \<or> a < b"

instance
proof
  fix a b c :: SubscriptionKey
  have eq: "x = y \<longleftrightarrow> mTopic x = mTopic y" for x y by (cases x; cases y) simp
  have irrefl: "\<not> x < x" for x :: SubscriptionKey by (simp add: less_SubscriptionKey_def)
  have trans: "x < y \<Longrightarrow> y < z \<Longrightarrow> x < z" for x y z :: SubscriptionKey
    by (auto simp: less_SubscriptionKey_def intro: key_trans)
  show "a < b \<longleftrightarrow> a \<le> b \<and> \<not> b \<le> a"
    using irrefl trans by (auto simp: less_eq_SubscriptionKey_def)
  show "a \<le> a" by (simp add: less_eq_SubscriptionKey_def)
  show "a \<le> b \<Longrightarrow> b \<le> c \<Longrightarrow> a \<le> c"
    using trans by (auto simp: less_eq_SubscriptionKey_def)
  show "a \<le> b \<Longrightarrow> b \<le> a \<Longrightarrow> a = b"
    using irrefl trans by (auto simp: less_eq_SubscriptionKey_def)
  show "a \<le> b \<or> b \<le> a"
    using key_total [of "mTopic a" "mTopic b"] by (auto simp: less_eq_SubscriptionKey_def less_SubscriptionKey_def eq)
qed

end

text \<open>
  The ordered map: a list sorted by the order of the keys, where two keys are the same if neither is
  less than the other. \<open>emplace\<close> leaves the map as it is if the key is there.
\<close>

type_synonym subscription_map = "(SubscriptionKey \<times> ptr) list"

fun map_emplace :: "SubscriptionKey \<Rightarrow> ptr \<Rightarrow> subscription_map \<Rightarrow> subscription_map" where
  "map_emplace k v [] = [(k, v)]"
| "map_emplace k v ((k', v') # m) =
     (if k < k' then (k, v) # (k', v') # m
      else if k' < k then (k', v') # map_emplace k v m
      else (k', v') # m)"

fun map_find :: "SubscriptionKey \<Rightarrow> subscription_map \<Rightarrow> ptr option" where
  "map_find k [] = None"
| "map_find k ((k', v') # m) = (if \<not> k < k' \<and> \<not> k' < k then Some v' else map_find k m)"

text \<open>The functions of lwIP's MQTT client.\<close>

record 'w mqtt_api =
  mqtt_client_new :: "'w \<Rightarrow> ptr \<times> 'w"
  mqtt_client_is_connected :: "ptr \<Rightarrow> 'w \<Rightarrow> bool"
  mqtt_client_connect :: "ptr \<Rightarrow> u8 list \<Rightarrow> u16 \<Rightarrow> ClientInfo \<Rightarrow> 'w \<Rightarrow> err_t \<times> 'w"
  mqtt_publish :: "ptr \<Rightarrow> cstring \<Rightarrow> u8 list \<Rightarrow> u16 \<Rightarrow> u8 \<Rightarrow> u8 \<Rightarrow> ptr \<Rightarrow> 'w \<Rightarrow> err_t \<times> 'w"
  mqtt_subscribe :: "ptr \<Rightarrow> cstring \<Rightarrow> u8 \<Rightarrow> ptr \<Rightarrow> 'w \<Rightarrow> err_t \<times> 'w"
  mqtt_set_inpub_callback :: "ptr \<Rightarrow> bool \<Rightarrow> 'w \<Rightarrow> 'w"

datatype timer_callback = HealthCheck

text \<open>Calls of the application's delegates: a payload received, a publication finished.\<close>

datatype delegate_call = ReceivedPayload ptr "u8 list" | PublicationRequest ptr bool

record mqtt_client =
  mSubscriptions :: subscription_map
  mConfig :: Config
  mHealthCheckTimer :: "timer_callback LoopTimer"
  mLwIPClient :: ptr
  mActiveSubscription :: ptr
  store :: "ptr \<Rightarrow> Subscription"
  delegate_calls :: "delegate_call list"

definition MqttClient_init ::
  "'w mqtt_api \<Rightarrow> Config \<Rightarrow> mqtt_client \<times> 'w \<Rightarrow> bool \<times> mqtt_client \<times> 'w" where
  "MqttClient_init api cfg = (\<lambda>(m, w).
     let m = m\<lparr>mConfig := cfg\<rparr>;
       (client, w) = mqtt_client_new api w;
       m = m\<lparr>mLwIPClient := client\<rparr>
     in if client = 0 then (False, m, w)
        else (True, m\<lparr>mHealthCheckTimer := registerCallback HealthCheck
                (setExpiry sHealthCheckExpiry (mHealthCheckTimer m))\<rparr>, w))"

definition connected :: "'w mqtt_api \<Rightarrow> mqtt_client \<times> 'w \<Rightarrow> bool" where
  "connected api = (\<lambda>(m, w). mqtt_client_is_connected api (mLwIPClient m) w)"

definition subscribe :: "'w mqtt_api \<Rightarrow> ptr \<Rightarrow> mqtt_client \<times> 'w \<Rightarrow> mqtt_client \<times> 'w" where
  "subscribe api subscription = (\<lambda>(m, w).
     let s = store m subscription;
       (err, w) = mqtt_subscribe api (mLwIPClient m) (topic s) sQos subscription w
     in (m\<lparr>store := (store m)(subscription := s\<lparr>subscribed := (err = ERR_OK)\<rparr>)\<rparr>, w))"

definition registerSubscription ::
  "'w mqtt_api \<Rightarrow> ptr \<Rightarrow> mqtt_client \<times> 'w \<Rightarrow> bool \<times> mqtt_client \<times> 'w" where
  "registerSubscription api subscription = (\<lambda>(m, w).
     if length (mSubscriptions m) = sMaxSubscriptions then (False, m, w)
     else
       let m = m\<lparr>mSubscriptions := map_emplace (SubscriptionKey (topic (store m subscription))) subscription (mSubscriptions m)\<rparr>
       in (True, subscribe api subscription (m, w)))"

definition publish ::
  "'w mqtt_api \<Rightarrow> ptr \<Rightarrow> Publication \<Rightarrow> mqtt_client \<times> 'w \<Rightarrow> mqtt_client \<times> 'w" where
  "publish api p publication = (\<lambda>(m, w).
     let (err, w) = mqtt_publish api (mLwIPClient m) (topicName publication) (payload publication)
           (payloadSize publication) sQos sRemain p w
     in if err \<noteq> ERR_OK
        then (m\<lparr>delegate_calls := delegate_calls m @ [PublicationRequest p False]\<rparr>, w)
        else (m, w))"

definition connect :: "'w mqtt_api \<Rightarrow> mqtt_client \<times> 'w \<Rightarrow> mqtt_client \<times> 'w" where
  "connect api = (\<lambda>(m, w).
     let clientInfo = \<lparr>client_id = Some (clientId (mConfig m)), client_user = None, client_pass = None,
           keep_alive = keepAlive (mConfig m), will_topic = None\<rparr>;
       (err, w) = mqtt_client_connect api (mLwIPClient m) (brokerIpAddr (mConfig m))
           (brokerPort (mConfig m)) clientInfo w
     in (m, w))"

text \<open>The loops over the map: the entries are visited in the order of the keys.\<close>

definition subscribe_all :: "'w mqtt_api \<Rightarrow> mqtt_client \<times> 'w \<Rightarrow> mqtt_client \<times> 'w" where
  "subscribe_all api mw = foldl (\<lambda>mw (key, val). subscribe api val mw) mw (mSubscriptions (fst mw))"

definition healthCheck :: "'w mqtt_api \<Rightarrow> mqtt_client \<times> 'w \<Rightarrow> mqtt_client \<times> 'w" where
  "healthCheck api mw =
     (let mw = (if \<not> connected api mw then connect api mw else mw) in
      foldl (\<lambda>mw (key, val). if \<not> subscribed (store (fst mw) val) then subscribe api val mw else mw)
        mw (mSubscriptions (fst mw)))"

definition service :: "'w mqtt_api \<Rightarrow> u32 \<Rightarrow> mqtt_client \<times> 'w \<Rightarrow> mqtt_client \<times> 'w" where
  "service api tick = (\<lambda>(m, w).
     if mLwIPClient m \<noteq> 0 then
       case poll tick (mHealthCheckTimer m) of
         (t, None) \<Rightarrow> (m\<lparr>mHealthCheckTimer := t\<rparr>, w)
       | (t, Some HealthCheck) \<Rightarrow> healthCheck api (m\<lparr>mHealthCheckTimer := t\<rparr>, w)
     else (m, w))"

text \<open>\<open>accepted\<close> stands for the status \<open>MQTT_CONNECT_ACCEPTED\<close>.\<close>

definition connectionChanged ::
  "'w mqtt_api \<Rightarrow> bool \<Rightarrow> mqtt_client \<times> 'w \<Rightarrow> mqtt_client \<times> 'w" where
  "connectionChanged api accepted = (\<lambda>(m, w).
     if accepted then subscribe_all api (m, mqtt_set_inpub_callback api (mLwIPClient m) True w)
     else (m, mqtt_set_inpub_callback api (mLwIPClient m) False w))"

definition incomingPublish :: "cstring \<Rightarrow> u32 \<Rightarrow> mqtt_client \<Rightarrow> mqtt_client" where
  "incomingPublish name totalLength m =
     (let m = m\<lparr>mActiveSubscription := 0\<rparr> in
      case map_find (SubscriptionKey name) (mSubscriptions m) of
        None \<Rightarrow> m
      | Some s \<Rightarrow> m\<lparr>mActiveSubscription := s,
          store := (store m)(s := (store m s)\<lparr>sub_size := 0, totalSize := totalLength\<rparr>)\<rparr>)"

text \<open>
  \<open>std::copy_n\<close> into the buffer of a subscription: \<open>n\<close> bytes of \<open>data\<close> are written from position \<open>i\<close> on.
  Reading beyond the data or writing beyond the buffer is undefined, here \<open>None\<close>.
\<close>

definition copy_into :: "u8 list \<Rightarrow> nat \<Rightarrow> u8 list \<Rightarrow> nat \<Rightarrow> u8 list option" where
  "copy_into data n buf i =
     (if n \<le> length data \<and> i + n \<le> length buf
      then Some (take i buf @ take n data @ drop (i + n) buf) else None)"

text \<open>\<open>isLast\<close> is the bit \<open>MQTT_DATA_FLAG_LAST\<close> of the flags; \<open>None\<close> is undefined behaviour.\<close>

definition incomingData :: "u8 list \<Rightarrow> u16 \<Rightarrow> bool \<Rightarrow> mqtt_client \<Rightarrow> mqtt_client option" where
  "incomingData data len isLast m =
     (if mActiveSubscription m = 0 then Some m
      else
        let a = mActiveSubscription m;
          s = store m a;
          bufSize = capacity s - sub_size s;
          n = min (ucast len) bufSize
        in
        case copy_into data (unat n) (buffer s) (unat (sub_size s)) of
          None \<Rightarrow> None
        | Some buf \<Rightarrow>
          (let s = s\<lparr>buffer := buf, sub_size := sub_size s + n\<rparr>;
            m = m\<lparr>store := (store m)(a := s)\<rparr>
          in
          if n \<noteq> ucast len then Some m
          else if isLast then
            if sub_size s \<noteq> totalSize s then Some m
            else
              let m = (if receivedPayload s
                  then m\<lparr>delegate_calls := delegate_calls m @ [ReceivedPayload a (take (unat (sub_size s)) (buffer s))]\<rparr>
                  else m)
              in Some (m\<lparr>mActiveSubscription := 0\<rparr>)
          else Some m))"

definition publishRequestCb :: "ptr \<Rightarrow> err_t \<Rightarrow> mqtt_client \<Rightarrow> mqtt_client" where
  "publishRequestCb arg err m =
     m\<lparr>delegate_calls := delegate_calls m @ [PublicationRequest arg (err = ERR_OK)]\<rparr>"

definition subscriptionRequestCb :: "ptr \<Rightarrow> err_t \<Rightarrow> mqtt_client \<Rightarrow> mqtt_client" where
  "subscriptionRequestCb arg res m =
     m\<lparr>store := (store m)(arg := (store m arg)\<lparr>subscribed := (res = ERR_OK)\<rparr>)\<rparr>"

section \<open>The map of subscriptions\<close>

definition map_ok :: "subscription_map \<Rightarrow> bool" where
  "map_ok m \<longleftrightarrow> sorted_wrt (<) (map fst m)"

text \<open>
  What the client needs of the map: a lookup after an insertion, where the first value of a key wins.
\<close>

locale first_wins_map =
  fixes find :: "'k \<Rightarrow> 'm \<Rightarrow> 'v option" and put :: "'k \<Rightarrow> 'v \<Rightarrow> 'm \<Rightarrow> 'm" and ok :: "'m \<Rightarrow> bool"
  assumes find_put: "ok m \<Longrightarrow>
      find k' (put k v m) = (if k' = k \<and> find k m = None then Some v else find k' m)"
    and put_ok: "ok m \<Longrightarrow> ok (put k v m)"
begin

lemma found_after_put: "ok m \<Longrightarrow> find k m = None \<Longrightarrow> find k (put k v m) = Some v"
  by (simp add: find_put)

lemma first_stays: "ok m \<Longrightarrow> find k m = Some u \<Longrightarrow> find k (put k v m) = Some u"
  by (simp add: find_put)

lemma others_stay: "ok m \<Longrightarrow> k' \<noteq> k \<Longrightarrow> find k' (put k v m) = find k' m"
  by (simp add: find_put)

end

lemma map_find_map_of: "map_find k m = map_of m k"
  by (induction m rule: map_find.induct) auto

lemma map_emplace_keys: "fst ` set (map_emplace k v m) = insert k (fst ` set m)"
  by (induction k v m rule: map_emplace.induct) auto

lemma map_emplace_ok: "map_ok m \<Longrightarrow> map_ok (map_emplace k v m)"
proof (induction k v m rule: map_emplace.induct)
  case (2 k v k' v' m)
  have tail: "k' < x" if "x \<in> fst ` set m" for x using 2(2) that by (auto simp: map_ok_def)
  consider "k < k'" | "\<not> k < k'" "k' < k" | "k = k'" by fastforce
  then show ?case
  proof cases
    case 1
    then have "\<forall>x\<in>fst ` set m. k < x" using tail by fastforce
    then show ?thesis using 2(2) 1 by (auto simp: map_ok_def)
  next
    case 2
    have "map_ok m" using \<open>map_ok ((k', v') # m)\<close> by (simp add: map_ok_def)
    then have "map_ok (map_emplace k v m)" using "2.IH" 2 by simp
    moreover have "\<forall>x\<in>fst ` set (map_emplace k v m). k' < x"
      using tail 2(2) by (simp add: map_emplace_keys)
    ultimately show ?thesis using 2 by (auto simp: map_ok_def)
  next
    case 3
    then show ?thesis using 2(2) by simp
  qed
qed (simp add: map_ok_def)

lemma map_find_emplace:
  "map_ok m \<Longrightarrow> map_find k' (map_emplace k v m) =
    (if k' = k \<and> map_find k m = None then Some v else map_find k' m)"
proof (induction k v m rule: map_emplace.induct)
  case (2 k v l u m)
  have tail: "\<forall>x\<in>fst ` set m. l < x" using 2(2) by (auto simp: map_ok_def)
  consider "k < l" | "\<not> k < l" "l < k" | "k = l" by fastforce
  then show ?case
  proof cases
    case 1
    then have "k \<notin> fst ` set m" "k \<noteq> l" using tail by fastforce+
    then show ?thesis using 1 by (auto simp: map_find_map_of map_of_eq_None_iff)
  next
    case 2
    then have "k \<noteq> l" by auto
    moreover have "map_ok m" using \<open>map_ok ((l, u) # m)\<close> by (simp add: map_ok_def)
    ultimately show ?thesis using "2.IH" 2 by (auto simp: map_find_map_of)
  next
    case 3
    then show ?thesis by (auto simp: map_find_map_of)
  qed
qed (auto simp: map_find_map_of)

interpretation topics: first_wins_map map_find map_emplace map_ok
  by unfold_locales (rule map_find_emplace, assumption, rule map_emplace_ok)

section \<open>Reassembly\<close>

text \<open>
  What a receiver of messages is to do, without buffers, sizes in words and pointers: it collects the
  pieces of the announced message up to the capacity of the subscription, and reports the message
  when the piece flagged as the last one makes up the announced length.
\<close>

datatype mqtt_event = Announce cstring u32 | Piece "u8 list" bool

type_synonym receiver = "(ptr \<times> nat \<times> u8 list) option"

fun spec_event ::
  "(cstring \<Rightarrow> ptr option) \<Rightarrow> (ptr \<Rightarrow> nat) \<Rightarrow> (ptr \<Rightarrow> bool) \<Rightarrow> receiver \<times> delegate_call list \<Rightarrow>
    mqtt_event \<Rightarrow> receiver \<times> delegate_call list" where
  "spec_event look cap valid (r, out) (Announce name t) =
     (map_option (\<lambda>a. (a, unat t, [])) (look name), out)"
| "spec_event look cap valid (None, out) (Piece d l) = (None, out)"
| "spec_event look cap valid (Some (a, t, acc), out) (Piece d l) =
     (if cap a < length acc + length d then (Some (a, t, take (cap a) (acc @ d)), out)
      else if l \<and> length acc + length d = t
      then (None, if valid a then out @ [ReceivedPayload a (acc @ d)] else out)
      else (Some (a, t, acc @ d), out))"

text \<open>The client on events; \<open>None\<close> as soon as one of them is undefined behaviour.\<close>

fun client_event :: "mqtt_client \<Rightarrow> mqtt_event \<Rightarrow> mqtt_client option" where
  "client_event m (Announce name t) = Some (incomingPublish name t m)"
| "client_event m (Piece d l) = incomingData d (of_nat (length d)) l m"

fun client_run :: "mqtt_client \<Rightarrow> mqtt_event list \<Rightarrow> mqtt_client option" where
  "client_run m [] = Some m"
| "client_run m (e # es) = (case client_event m e of None \<Rightarrow> None | Some m' \<Rightarrow> client_run m' es)"

fun event_ok :: "mqtt_event \<Rightarrow> bool" where
  "event_ok (Announce name t) \<longleftrightarrow> True"
| "event_ok (Piece d l) \<longleftrightarrow> length d < 2 ^ 16"

definition abs_receiver :: "mqtt_client \<Rightarrow> receiver" where
  "abs_receiver m = (let a = mActiveSubscription m; s = store m a in
     if a = 0 then None else Some (a, unat (totalSize s), take (unat (sub_size s)) (buffer s)))"

definition buffer_ok :: "Subscription \<Rightarrow> bool" where
  "buffer_ok s \<longleftrightarrow> length (buffer s) = unat (capacity s)"

definition client_ok :: "mqtt_client \<Rightarrow> bool" where
  "client_ok m \<longleftrightarrow> (\<forall>(k, a)\<in>set (mSubscriptions m). a \<noteq> 0 \<and> buffer_ok (store m a)) \<and>
     (mActiveSubscription m \<noteq> 0 \<longrightarrow>
       mActiveSubscription m \<in> snd ` set (mSubscriptions m) \<and>
       sub_size (store m (mActiveSubscription m)) \<le> capacity (store m (mActiveSubscription m)))"

text \<open>The fields of the subscriptions that no event changes, and the map.\<close>

definition same_setup :: "mqtt_client \<Rightarrow> mqtt_client \<Rightarrow> bool" where
  "same_setup m m' \<longleftrightarrow> mSubscriptions m' = mSubscriptions m \<and>
     (\<forall>a. capacity (store m' a) = capacity (store m a) \<and>
       receivedPayload (store m' a) = receivedPayload (store m a))"

lemma same_setup_refl [simp]: "same_setup m m"
  and same_setup_trans: "same_setup m m' \<Longrightarrow> same_setup m' m'' \<Longrightarrow> same_setup m m''"
  by (simp_all add: same_setup_def)

text \<open>A copy within the bounds of both.\<close>

lemma copy_into_fits:
  assumes "n \<le> length data" and "i + n \<le> length buf"
  obtains buf' where "copy_into data n buf i = Some buf'" and "length buf' = length buf"
    and "take (i + n) buf' = take i buf @ take n data"
proof -
  have "take (i + n) (take i buf @ take n data @ drop (i + n) buf) = take i buf @ take n data"
    using assms by simp
  with assms show thesis using that [of "take i buf @ take n data @ drop (i + n) buf"]
    by (simp add: copy_into_def)
qed

lemma find_registered: "map_find name m = Some a \<Longrightarrow> \<exists>k. (k, a) \<in> set m"
  by (auto simp: map_find_map_of dest: map_of_SomeD)

lemma announce_step:
  assumes "client_ok m"
  shows "client_ok (incomingPublish name t m)" and "same_setup m (incomingPublish name t m)"
    and "spec_event (\<lambda>n. map_find (SubscriptionKey n) (mSubscriptions m)) (\<lambda>a. unat (capacity (store m a)))
      (\<lambda>a. receivedPayload (store m a)) (abs_receiver m, delegate_calls m) (Announce name t) =
      (abs_receiver (incomingPublish name t m), delegate_calls (incomingPublish name t m))"
proof -
  let ?m = "incomingPublish name t m"
  have "client_ok ?m \<and> same_setup m ?m \<and> delegate_calls ?m = delegate_calls m \<and>
      abs_receiver ?m = map_option (\<lambda>a. (a, unat t, [])) (map_find (SubscriptionKey name) (mSubscriptions m))"
  proof (cases "map_find (SubscriptionKey name) (mSubscriptions m)")
    case None
    then show ?thesis
      using assms by (simp add: incomingPublish_def client_ok_def same_setup_def abs_receiver_def)
  next
    case (Some a)
    then obtain k where k: "(k, a) \<in> set (mSubscriptions m)" using find_registered by blast
    then have "a \<noteq> 0" using assms by (auto simp: client_ok_def)
    moreover have "a \<in> snd ` set (mSubscriptions m)" using k by force
    ultimately show ?thesis
      using assms Some
      by (auto simp: incomingPublish_def client_ok_def same_setup_def abs_receiver_def buffer_ok_def)
  qed
  then show "client_ok ?m" and "same_setup m ?m"
    and "spec_event (\<lambda>n. map_find (SubscriptionKey n) (mSubscriptions m)) (\<lambda>a. unat (capacity (store m a)))
      (\<lambda>a. receivedPayload (store m a)) (abs_receiver m, delegate_calls m) (Announce name t) =
      (abs_receiver ?m, delegate_calls ?m)"
    by simp_all
qed

lemma report_irrelevant [simp]:
  "client_ok (m\<lparr>delegate_calls := y\<rparr>) = client_ok m"
  "same_setup m0 (m\<lparr>delegate_calls := y\<rparr>) = same_setup m0 m"
  by (simp_all add: client_ok_def same_setup_def)

lemma deactivate_ok:
  "client_ok m \<Longrightarrow> client_ok (m\<lparr>mActiveSubscription := 0\<rparr>)"
  "same_setup m0 (m\<lparr>mActiveSubscription := 0\<rparr>) = same_setup m0 m"
  "abs_receiver (m\<lparr>mActiveSubscription := 0\<rparr>) = None"
  by (simp_all add: client_ok_def same_setup_def abs_receiver_def)

text \<open>How much of a piece fits.\<close>

lemma piece_size:
  fixes c f :: u32
  assumes "f \<le> c" and "k < 2 ^ 16"
  shows "unat (min (ucast (of_nat k :: u16)) (c - f)) = min k (unat c - unat f)"
    and "min (ucast (of_nat k :: u16)) (c - f) = (ucast (of_nat k :: u16) :: u32) \<longleftrightarrow> unat f + k \<le> unat c"
proof -
  let ?k = "ucast (of_nat k :: u16) :: u32"
  have k: "unat ?k = k" using assms(2) by (simp add: unat_len unat_of_nat)
  have d: "unat (c - f) = unat c - unat f" by (rule unat_minus_exact [OF assms(1)])
  have le: "unat f \<le> unat c" using assms(1) by (simp add: word_le_nat_alt)
  have "?k \<le> c - f \<longleftrightarrow> k \<le> unat c - unat f" by (simp add: word_le_nat_alt k d)
  then show "unat (min ?k (c - f)) = min k (unat c - unat f)"
    by (auto simp: min_def k d)
  have "min ?k (c - f) = ?k \<longleftrightarrow> ?k \<le> c - f" by (rule min.absorb_iff1 [symmetric])
  then show "min ?k (c - f) = ?k \<longleftrightarrow> unat f + k \<le> unat c"
    using \<open>?k \<le> c - f \<longleftrightarrow> k \<le> unat c - unat f\<close> le by linarith
qed

lemma piece_step:
  assumes ok: "client_ok m" and d: "length d < 2 ^ 16"
  shows "\<exists>m'. client_event m (Piece d l) = Some m' \<and> client_ok m' \<and> same_setup m m' \<and>
    spec_event (\<lambda>n. map_find (SubscriptionKey n) (mSubscriptions m)) (\<lambda>a. unat (capacity (store m a)))
      (\<lambda>a. receivedPayload (store m a)) (abs_receiver m, delegate_calls m) (Piece d l) =
      (abs_receiver m', delegate_calls m')"
proof -
  let ?a = "mActiveSubscription m"
  let ?s = "store m ?a" and ?len = "of_nat (length d) :: u16"
  show ?thesis
  proof (cases "?a = 0")
    case True
    then show ?thesis using ok by (simp add: incomingData_def abs_receiver_def)
  next
    case a: False
    let ?c = "unat (capacity ?s)" and ?f = "unat (sub_size ?s)"
    obtain k where "(k, ?a) \<in> set (mSubscriptions m)" and le: "sub_size ?s \<le> capacity ?s"
      using ok a by (auto simp: client_ok_def)
    then have buf: "length (buffer ?s) = ?c" using ok by (auto simp: client_ok_def buffer_ok_def)
    define n where "n = min (ucast ?len) (capacity ?s - sub_size ?s)"
    note N = piece_size [OF le d, folded n_def]
    have fc: "?f \<le> ?c" using le by (simp add: word_le_nat_alt)
    have bounds: "unat n \<le> length d" "?f + unat n \<le> length (buffer ?s)" using N(1) fc buf by auto
    have sum: "unat (sub_size ?s + n) = ?f + unat n"
      using bounds(2) buf unsigned_less [of "capacity ?s", where ?'a = nat] by (intro unat_plus_exact) simp
    obtain b where b: "copy_into d (unat n) (buffer ?s) ?f = Some b" "length b = length (buffer ?s)"
        "take (?f + unat n) b = take ?f (buffer ?s) @ take (unat n) d"
      using copy_into_fits [OF bounds] .
    define s where "s = ?s\<lparr>buffer := b, sub_size := sub_size ?s + n\<rparr>"
    have s: "capacity s = capacity ?s" "receivedPayload s = receivedPayload ?s" "totalSize s = totalSize ?s"
        "buffer_ok s" "sub_size s \<le> capacity s" "unat (sub_size s) = ?f + unat n"
      using bounds buf sum b(2) by (auto simp: s_def buffer_ok_def word_le_nat_alt)
    have content: "take (unat (sub_size s)) (buffer s) = take ?f (buffer ?s) @ take (unat n) d"
      using b(3) by (simp add: s_def sum)
    let ?m1 = "m\<lparr>store := (store m)(?a := s)\<rparr>"
    have m1: "client_ok ?m1" "same_setup m ?m1"
      using ok s by (auto simp: client_ok_def same_setup_def)
    have event: "client_event m (Piece d l) = Some (if n \<noteq> ucast ?len then ?m1
        else if l then if sub_size s \<noteq> totalSize s then ?m1
          else (if receivedPayload s then ?m1\<lparr>delegate_calls := delegate_calls m @
              [ReceivedPayload ?a (take (unat (sub_size s)) (buffer s))]\<rparr> else ?m1)\<lparr>mActiveSubscription := 0\<rparr>
        else ?m1)"
      using a b(1) by (simp add: incomingData_def Let_def n_def s_def)
    have abs: "abs_receiver m = Some (?a, unat (totalSize ?s), take ?f (buffer ?s))"
      "abs_receiver ?m1 = Some (?a, unat (totalSize ?s), take ?f (buffer ?s) @ take (unat n) d)"
      using a by (simp_all add: abs_receiver_def Let_def content s(3))
    have len: "length (take ?f (buffer ?s)) = ?f" using buf fc by simp
    show ?thesis
    proof (cases "?c < ?f + length d")
      case True
      then have "n \<noteq> ucast ?len" and "unat n = ?c - ?f" using N by auto
      moreover from this True have "take ?c (take ?f (buffer ?s) @ d) = take ?f (buffer ?s) @ take (unat n) d"
        using len fc by simp
      ultimately show ?thesis using event m1 abs True len by simp
    next
      case False
      then have n: "n = ucast ?len" "unat n = length d" using N by auto
      have total: "sub_size s = totalSize s \<longleftrightarrow> ?f + length d = unat (totalSize ?s)"
        using s(3,6) n(2) by (simp add: word_unat_eq_iff)
      show ?thesis
        using event m1 abs False len n total content s by (auto simp: deactivate_ok)
    qed
  qed
qed

definition spec_run ::
  "mqtt_client \<Rightarrow> receiver \<times> delegate_call list \<Rightarrow> mqtt_event list \<Rightarrow> receiver \<times> delegate_call list" where
  "spec_run m = foldl (spec_event (\<lambda>n. map_find (SubscriptionKey n) (mSubscriptions m))
     (\<lambda>a. unat (capacity (store m a))) (\<lambda>a. receivedPayload (store m a)))"

lemma spec_run_setup: "same_setup m m' \<Longrightarrow> spec_run m' = spec_run m"
  by (simp add: spec_run_def same_setup_def)

lemma run_refines:
  assumes "client_ok m" and "\<forall>e\<in>set es. event_ok e"
  shows "\<exists>m'. client_run m es = Some m' \<and> client_ok m' \<and> same_setup m m' \<and>
    (abs_receiver m', delegate_calls m') = spec_run m (abs_receiver m, delegate_calls m) es"
  using assms
proof (induction es arbitrary: m)
  case Nil
  then show ?case by (simp add: spec_run_def)
next
  case (Cons e es)
  obtain m1 where e: "client_event m e = Some m1" and one: "client_ok m1" "same_setup m m1"
    "(abs_receiver m1, delegate_calls m1) = spec_run m (abs_receiver m, delegate_calls m) [e]"
    using Cons.prems announce_step [of m] piece_step [of m] by (cases e; simp add: spec_run_def; metis)
  have "spec_run m (abs_receiver m, delegate_calls m) (e # es) =
      spec_run m (spec_run m (abs_receiver m, delegate_calls m) [e]) es"
    by (simp add: spec_run_def)
  also have "\<dots> = spec_run m1 (abs_receiver m1, delegate_calls m1) es"
    unfolding one(3) [symmetric] spec_run_setup [OF one(2)] ..
  finally show ?case
    using Cons.IH [OF one(1)] Cons.prems same_setup_trans [OF one(2)] e by auto
qed

text \<open>The events by which lwIP hands over a message in pieces.\<close>

definition message_events :: "cstring \<Rightarrow> u8 list list \<Rightarrow> mqtt_event list" where
  "message_events name ps = Announce name (of_nat (length (concat ps))) #
     map (\<lambda>d. Piece d False) (butlast ps) @ [Piece (last ps) True]"

lemma spec_pieces:
  assumes "length acc + length (concat ps) \<le> cap a"
  shows "foldl (spec_event look cap valid) (Some (a, t, acc), out) (map (\<lambda>d. Piece d False) ps) =
    (Some (a, t, acc @ concat ps), out)"
  using assms by (induction ps arbitrary: acc) auto

section \<open>Registering\<close>

lemma map_emplace_values: "snd ` set (map_emplace k v m) \<subseteq> insert v (snd ` set m)"
  by (induction k v m rule: map_emplace.induct) auto

lemma map_emplace_keeps: "snd ` set m \<subseteq> snd ` set (map_emplace k v m)"
  by (induction k v m rule: map_emplace.induct) auto

lemma map_emplace_length: "length (map_emplace k v m) \<le> Suc (length m)"
  by (induction k v m rule: map_emplace.induct) auto

text \<open>What registering does to the map, whatever lwIP answers.\<close>

lemma registerSubscription_map:
  assumes "registerSubscription api s (m, w) = (r, m', w')"
  shows "r \<longleftrightarrow> length (mSubscriptions m) \<noteq> sMaxSubscriptions"
    and "mSubscriptions m' = (if r then map_emplace (SubscriptionKey (topic (store m s))) s (mSubscriptions m)
      else mSubscriptions m)"
    and "mActiveSubscription m' = mActiveSubscription m" and "delegate_calls m' = delegate_calls m"
    and "buffer_ok (store m' a) = buffer_ok (store m a)" and "capacity (store m' a) = capacity (store m a)"
    and "sub_size (store m' a) = sub_size (store m a)" and "receivedPayload (store m' a) = receivedPayload (store m a)"
  using assms
  by (auto simp: registerSubscription_def subscribe_def Let_def buffer_ok_def split: if_splits prod.splits)

lemma client_ok_iff:
  "client_ok m \<longleftrightarrow> (\<forall>a\<in>snd ` set (mSubscriptions m). a \<noteq> 0 \<and> buffer_ok (store m a)) \<and>
     (mActiveSubscription m = 0 \<or> mActiveSubscription m \<in> snd ` set (mSubscriptions m) \<and>
       sub_size (store m (mActiveSubscription m)) \<le> capacity (store m (mActiveSubscription m)))"
  by (auto simp: client_ok_def)

lemma registerSubscription_ok:
  assumes "registerSubscription api s (m, w) = (r, m', w')" and "client_ok m" and "s \<noteq> 0" and "buffer_ok (store m s)"
  shows "client_ok m'"
proof -
  note R = registerSubscription_map [OF assms(1)]
  have new: "snd ` set (mSubscriptions m') \<subseteq> insert s (snd ` set (mSubscriptions m))"
    and keep: "snd ` set (mSubscriptions m) \<subseteq> snd ` set (mSubscriptions m')"
    using R(2) map_emplace_values map_emplace_keeps by auto
  have "a \<noteq> 0 \<and> buffer_ok (store m' a)" if "a \<in> snd ` set (mSubscriptions m')" for a
  proof -
    have "a = s \<or> a \<in> snd ` set (mSubscriptions m)" using that new by blast
    then show ?thesis using assms(2-4) unfolding client_ok_iff R(5) by blast
  qed
  moreover have "mActiveSubscription m = 0 \<or> mActiveSubscription m \<in> snd ` set (mSubscriptions m')"
    using assms(2) keep by (auto simp: client_ok_iff)
  ultimately show ?thesis using assms(2) unfolding client_ok_iff R(3,6,7) by blast
qed

section \<open>Subscribing again\<close>

lemma connect_keeps: "fst (connect api mw) = fst mw"
  by (cases mw) (simp add: connect_def Let_def split: prod.splits)

lemma subscribe_effect:
  "fst (subscribe api a mw) = (fst mw)\<lparr>store := (store (fst mw))(a := (store (fst mw) a)\<lparr>subscribed :=
     fst (mqtt_subscribe api (mLwIPClient (fst mw)) (topic (store (fst mw) a)) sQos a (snd mw)) = ERR_OK\<rparr>)\<rparr>"
  by (cases mw) (simp add: subscribe_def Let_def split: prod.splits)

text \<open>
  lwIP's client that writes down every call made to it, the requests to subscribe with its answers.
\<close>

datatype mqtt_call = NewCall | ConnectCall ptr "u8 list" u16 ClientInfo
  | PublishCall ptr cstring "u8 list" u16 u8 u8 ptr | SubscribeCall ptr cstring u8 ptr err_t | CallbackCall ptr bool

definition recorded :: "'w mqtt_api \<Rightarrow> ('w \<times> mqtt_call list) mqtt_api" where
  "recorded api = \<lparr>
     mqtt_client_new = (\<lambda>(w, l). let (c, w) = mqtt_client_new api w in (c, w, l @ [NewCall])),
     mqtt_client_is_connected = (\<lambda>c (w, l). mqtt_client_is_connected api c w),
     mqtt_client_connect = (\<lambda>c ip port info (w, l).
       let (e, w) = mqtt_client_connect api c ip port info w in (e, w, l @ [ConnectCall c ip port info])),
     mqtt_publish = (\<lambda>c name data n qos retain p (w, l).
       let (e, w) = mqtt_publish api c name data n qos retain p w in
         (e, w, l @ [PublishCall c name data n qos retain p])),
     mqtt_subscribe = (\<lambda>c name qos a (w, l).
       let (e, w) = mqtt_subscribe api c name qos a w in (e, w, l @ [SubscribeCall c name qos a e])),
     mqtt_set_inpub_callback = (\<lambda>c on (w, l). (mqtt_set_inpub_callback api c on w, l @ [CallbackCall c on]))\<rparr>"

definition connect_call :: "mqtt_client \<Rightarrow> mqtt_call" where
  "connect_call m = ConnectCall (mLwIPClient m) (brokerIpAddr (mConfig m)) (brokerPort (mConfig m))
     \<lparr>client_id = Some (clientId (mConfig m)), client_user = None, client_pass = None,
      keep_alive = keepAlive (mConfig m), will_topic = None\<rparr>"

definition subscribe_call :: "mqtt_client \<Rightarrow> ptr \<times> err_t \<Rightarrow> mqtt_call" where
  "subscribe_call m = (\<lambda>(a, e). SubscribeCall (mLwIPClient m) (topic (store m a)) sQos a e)"

text \<open>The client after the answers to its requests.\<close>

definition answered :: "(ptr \<times> err_t) list \<Rightarrow> mqtt_client \<Rightarrow> mqtt_client" where
  "answered as m = m\<lparr>store := (\<lambda>a. case map_of as a of None \<Rightarrow> store m a
     | Some e \<Rightarrow> (store m a)\<lparr>subscribed := (e = ERR_OK)\<rparr>)\<rparr>"

lemma answered_Nil [simp]: "answered [] m = m"
  by (simp add: answered_def)

lemma answered_Cons:
  assumes "a \<notin> fst ` set as"
  shows "answered as (m\<lparr>store := (store m)(a := (store m a)\<lparr>subscribed := (e = ERR_OK)\<rparr>)\<rparr>) = answered ((a, e) # as) m"
proof -
  have "map_of as a = None" using assms by (simp add: map_of_eq_None_iff)
  then show ?thesis by (auto simp: answered_def fun_eq_iff intro!: arg_cong [where f = "\<lambda>s. m\<lparr>store := s\<rparr>"] split: option.splits)
qed

lemma connected_recorded [simp]: "connected (recorded api) (m, w, l) = connected api (m, w)"
  by (simp add: connected_def recorded_def)

lemma connect_recorded: "\<exists>w'. connect (recorded api) (m, w, l) = (m, w', l @ [connect_call m])"
  by (simp add: connect_def recorded_def connect_call_def Let_def split: prod.splits)

lemma subscribe_recorded:
  "\<exists>e w'. subscribe (recorded api) a (m, w, l) =
    (m\<lparr>store := (store m)(a := (store m a)\<lparr>subscribed := (e = ERR_OK)\<rparr>)\<rparr>, w', l @ [subscribe_call m (a, e)])"
  by (auto simp: subscribe_def recorded_def subscribe_call_def Let_def split: prod.splits)

lemma resubscribe_loop:
  assumes "distinct (map snd es)"
  shows "\<exists>as w'. map fst as = filter (\<lambda>a. \<not> subscribed (store m a)) (map snd es) \<and>
    foldl (\<lambda>mw (key, val). if \<not> subscribed (store (fst mw) val) then subscribe (recorded api) val mw else mw)
      (m, w, l) es = (answered as m, w', l @ map (subscribe_call m) as)"
  using assms
proof (induction es arbitrary: m w l)
  case (Cons x es)
  obtain k a where x: "x = (k, a)" by (cases x)
  have a: "a \<notin> snd ` set es" using Cons.prems by (simp add: x)
  show ?case
  proof (cases "subscribed (store m a)")
    case True
    then show ?thesis using Cons.IH [of m w l] Cons.prems by (simp add: x)
  next
    case False
    obtain e w1 where e: "subscribe (recorded api) a (m, w, l) =
        (m\<lparr>store := (store m)(a := (store m a)\<lparr>subscribed := (e = ERR_OK)\<rparr>)\<rparr>, w1, l @ [subscribe_call m (a, e)])"
      using subscribe_recorded [of api a m w l] by blast
    let ?m = "m\<lparr>store := (store m)(a := (store m a)\<lparr>subscribed := (e = ERR_OK)\<rparr>)\<rparr>"
    obtain as w' where IH: "map fst as = filter (\<lambda>a. \<not> subscribed (store ?m a)) (map snd es)"
      "foldl (\<lambda>mw (key, val). if \<not> subscribed (store (fst mw) val) then subscribe (recorded api) val mw else mw)
        (?m, w1, l @ [subscribe_call m (a, e)]) es =
        (answered as ?m, w', (l @ [subscribe_call m (a, e)]) @ map (subscribe_call ?m) as)"
      using Cons.IH [of ?m w1 "l @ [subscribe_call m (a, e)]"] Cons.prems by auto
    have as: "map fst as = filter (\<lambda>a. \<not> subscribed (store m a)) (map snd es)"
      unfolding IH(1) using a by (intro filter_cong) auto
    then have "a \<notin> fst ` set as" using a by (metis (no_types) filter_is_subset list.set_map subsetD)
    then have "answered as ?m = answered ((a, e) # as) m" by (simp add: answered_Cons)
    moreover have "map (subscribe_call ?m) as = map (subscribe_call m) as"
      by (auto simp: subscribe_call_def)
    ultimately show ?thesis using False as IH(2) e by (intro exI [of _ "(a, e) # as"] exI [of _ w']) (simp add: x)
  qed
qed simp

section \<open>Examples\<close>

definition example_subscription :: Subscription where
  "example_subscription = \<lparr>topic = Some ''t'', buffer = replicate 4 0, capacity = 4, sub_size = 0,
     totalSize = 0, subscribed = False, receivedPayload = True\<rparr>"

definition example_client :: mqtt_client where
  "example_client = \<lparr>mSubscriptions = [(SubscriptionKey (Some ''t''), 0x10)], mConfig = Config_new 1883,
     mHealthCheckTimer = LoopTimer_new, mLwIPClient = 1, mActiveSubscription = 0,
     store = (\<lambda>a. example_subscription), delegate_calls = []\<rparr>"

definition mini_mqtt :: "'w mqtt_api" where
  "mini_mqtt = \<lparr>mqtt_client_new = Pair 1, mqtt_client_is_connected = (\<lambda>c w. True),
     mqtt_client_connect = (\<lambda>c ip port info. Pair ERR_OK),
     mqtt_publish = (\<lambda>c name data n qos retain p. Pair ERR_OK),
     mqtt_subscribe = (\<lambda>c name qos a. Pair ERR_OK), mqtt_set_inpub_callback = (\<lambda>c on w. w)\<rparr>"

lemma example_ok: "client_ok example_client"
  by (simp add: example_client_def example_subscription_def client_ok_def buffer_ok_def)

section \<open>Properties\<close>

text \<open>
  C8. Reassembly. Suppose that every registered subscription has a buffer of the capacity it states, and that
  an active one is registered and not overfull. Then for any sequence of announcements and pieces, in
  any order, each piece of any size below \<open>2 ^ 16\<close>, the run ends without undefined behaviour: no copy reads beyond
  the piece or writes beyond the buffer. The buffers, sizes and pointers of the client implement the
  abstract receiver of messages; in particular the application is told of a payload only when it is complete.
\<close>

theorem reassembly_refines:
  assumes "client_ok m" and "\<forall>e\<in>set es. event_ok e"
  shows "\<exists>m'. client_run m es = Some m' \<and> client_ok m' \<and>
    (abs_receiver m', delegate_calls m') =
      foldl (spec_event (\<lambda>n. map_find (SubscriptionKey n) (mSubscriptions m)) (\<lambda>a. unat (capacity (store m a)))
        (\<lambda>a. receivedPayload (store m a))) (abs_receiver m, delegate_calls m) es"
  using run_refines [OF assms] by (auto simp: spec_run_def)

theorem reassembly_refines_witness:
  "\<exists>m'. client_run example_client
      [Announce (Some ''t'') 3, Piece [1, 2, 3, 4, 5] True, Announce (Some ''t'') 2, Piece [6] False, Piece [7] True] =
      Some m' \<and> delegate_calls m' = [ReceivedPayload 0x10 [6, 7]]"
  using reassembly_refines [OF example_ok, of "[Announce (Some ''t'') 3, Piece [1, 2, 3, 4, 5] True,
      Announce (Some ''t'') 2, Piece [6] False, Piece [7] True]"]
  by (auto simp: example_client_def example_subscription_def abs_receiver_def)

text \<open>
  A message for a subscribed topic that fits the buffer reaches the application once, whole and in
  order, however lwIP cuts it into pieces; afterwards no message is active.
\<close>

theorem message_delivered:
  assumes "client_ok m" and "map_find (SubscriptionKey name) (mSubscriptions m) = Some a" and "receivedPayload (store m a)"
    and "ps \<noteq> []" and "\<forall>d\<in>set ps. length d < 2 ^ 16"
    and "length (concat ps) \<le> unat (capacity (store m a))"
  shows "\<exists>m'. client_run m (message_events name ps) = Some m' \<and>
    delegate_calls m' = delegate_calls m @ [ReceivedPayload a (concat ps)] \<and> mActiveSubscription m' = 0"
proof -
  let ?n = "length (concat ps)"
  have ps: "concat ps = concat (butlast ps) @ last ps"
    using append_butlast_last_id [OF assms(4)] by (metis concat.simps(1) concat_append concat.simps(2) append_Nil2)
  have n: "unat (of_nat ?n :: u32) = ?n"
    using assms(6) unsigned_less [of "capacity (store m a)", where ?'a = nat]
    by (simp add: unat_of_nat)
  have "\<forall>e\<in>set (message_events name ps). event_ok e"
    using assms(4,5) by (auto simp: message_events_def dest: in_set_butlastD)
  from run_refines [OF assms(1) this] obtain m' where R: "client_run m (message_events name ps) = Some m'"
    "(abs_receiver m', delegate_calls m') = spec_run m (abs_receiver m, delegate_calls m) (message_events name ps)"
    by blast
  have "spec_run m (abs_receiver m, delegate_calls m) (message_events name ps) =
      (None, delegate_calls m @ [ReceivedPayload a (concat ps)])"
    using assms(2,3,6) n unfolding spec_run_def message_events_def
    by (simp add: spec_pieces ps)
  with R(2) have "abs_receiver m' = None" and d: "delegate_calls m' = delegate_calls m @ [ReceivedPayload a (concat ps)]"
    by simp_all
  then have "mActiveSubscription m' = 0" by (simp add: abs_receiver_def Let_def split: if_splits)
  then show ?thesis using d R(1) by simp
qed

theorem message_delivered_witness:
  "\<exists>m'. client_run example_client (message_events (Some ''t'') [[1, 2], [], [3, 4]]) = Some m' \<and>
    delegate_calls m' = [ReceivedPayload 0x10 [1, 2, 3, 4]]"
  using message_delivered [OF example_ok, of "Some ''t''" "0x10" "[[1, 2], [], [3, 4]]"]
  by (auto simp: example_client_def example_subscription_def)

text \<open>
  C23. A subscription that is accepted works: registered for a topic that the map does not have yet, it
  keeps the client consistent, and a message for its topic that fits its buffer reaches its delegate once,
  whole and in order, however lwIP cuts it into pieces; whether the broker's answer succeeded does not matter.
\<close>

theorem registered_message_delivered:
  assumes "client_ok m" and "map_ok (mSubscriptions m)" and "registerSubscription api s (m, w) = (True, m', w')"
    and "map_find (SubscriptionKey (topic (store m s))) (mSubscriptions m) = None"
    and "s \<noteq> 0" and "buffer_ok (store m s)" and "receivedPayload (store m s)"
    and "ps \<noteq> []" and "\<forall>d\<in>set ps. length d < 2 ^ 16"
    and "length (concat ps) \<le> unat (capacity (store m s))"
  shows "client_ok m' \<and> map_ok (mSubscriptions m') \<and>
    (\<exists>m''. client_run m' (message_events (topic (store m s)) ps) = Some m'' \<and>
      delegate_calls m'' = delegate_calls m @ [ReceivedPayload s (concat ps)])"
proof -
  note R = registerSubscription_map [OF assms(3)]
  have ok: "client_ok m'" by (rule registerSubscription_ok [OF assms(3,1,5,6)])
  have "map_find (SubscriptionKey (topic (store m s))) (mSubscriptions m') = Some s"
    using topics.found_after_put [OF assms(2,4)] R(2) by simp
  moreover have "receivedPayload (store m' s)" and "length (concat ps) \<le> unat (capacity (store m' s))"
    using assms(7,10) by (simp_all add: R(6,8))
  ultimately have "\<exists>m''. client_run m' (message_events (topic (store m s)) ps) = Some m'' \<and>
      delegate_calls m'' = delegate_calls m' @ [ReceivedPayload s (concat ps)]"
    using message_delivered [OF ok] assms(8,9) by blast
  then show ?thesis using ok R(2,4) map_emplace_ok [OF assms(2)] by simp
qed

theorem registered_message_delivered_witness:
  "\<exists>m'. registerSubscription mini_mqtt 0x20 (example_client\<lparr>mSubscriptions := []\<rparr>, ()) = (True, m', ()) \<and>
    (\<exists>m''. client_run m' (message_events (Some ''t'') [[1, 2], [], [3, 4]]) = Some m'' \<and>
      delegate_calls m'' = [ReceivedPayload 0x20 [1, 2, 3, 4]])"
proof -
  let ?m = "example_client\<lparr>mSubscriptions := []\<rparr>"
  obtain r m' where r: "registerSubscription mini_mqtt 0x20 (?m, ()) = (r, m', ())"
    by (metis prod.collapse old.unit.exhaust)
  then have "r" using registerSubscription_map(1) [OF r] by (simp add: sMaxSubscriptions_def)
  moreover have "topic (store ?m 0x20) = Some ''t''" and "client_ok ?m" and "map_ok (mSubscriptions ?m)"
    by (simp_all add: example_client_def example_subscription_def client_ok_def map_ok_def)
  ultimately show ?thesis
    using registered_message_delivered [of ?m mini_mqtt "0x20" "()" m' "()" "[[1, 2], [], [3, 4]]"] r
    by (simp add: example_client_def example_subscription_def buffer_ok_def)
qed

text \<open>
  C36. The order of the subscription keys is a strict total order, what a sorted map needs to find every
  topic it holds: \<open>nullptr\<close> comes before every topic and nothing before \<open>nullptr\<close>, and two topics are
  ordered as \<open>strcmp\<close> orders them, lexicographically by their characters as unsigned bytes.
\<close>

theorem key_order_total:
  "\<not> key_less a a \<and> (key_less a b \<and> key_less b c \<longrightarrow> key_less a c) \<and>
    (a \<noteq> b \<longrightarrow> key_less a b \<noteq> key_less b a) \<and>
    key_less None (Some s) \<and> \<not> key_less a None \<and>
    (key_less (Some s) (Some t) \<longleftrightarrow>
      (map of_char s, map of_char t) \<in> lexord {(x, y). x < (y :: nat)})"
proof (intro conjI)
  show "\<not> key_less a a" by simp
  show "key_less a b \<and> key_less b c \<longrightarrow> key_less a c" using key_trans by blast
  show "a \<noteq> b \<longrightarrow> key_less a b \<noteq> key_less b a" using key_trans key_total key_irrefl by blast
  show "key_less None (Some s)" and "\<not> key_less a None" by simp_all
  show "key_less (Some s) (Some t) \<longleftrightarrow> (map of_char s, map of_char t) \<in> lexord {(x, y). x < (y :: nat)}"
    using strcmp_lexord [of s t] by (cases "s = t") (simp_all add: strcmp_lexord [symmetric])
qed

theorem key_order_total_witness:
  "key_less (Some ''a/b'') (Some ''a/c'') \<noteq> key_less (Some ''a/c'') (Some ''a/b'')"
  using key_order_total [of "Some ''a/b''" "Some ''a/c''" None] by simp

text \<open>
  Two subscriptions with the same topic: registering the second reports success and subscribes with
  the broker, but the map keeps the first, so that every message for the topic goes to the first and
  the second never receives anything.
\<close>

theorem second_subscription_is_dead:
  assumes "map_ok (mSubscriptions m)" and "length (mSubscriptions m) < sMaxSubscriptions"
    and "map_find (SubscriptionKey (topic (store m s))) (mSubscriptions m) = Some s0" and "s0 \<noteq> s"
    and "registerSubscription api s (m, w) = (r, m', w')"
  shows "r \<and> mActiveSubscription (incomingPublish (topic (store m s)) t m') = s0"
proof -
  have "mSubscriptions m' = map_emplace (SubscriptionKey (topic (store m s))) s (mSubscriptions m)" and r
    using assms(2,5) by (auto simp: registerSubscription_def subscribe_def Let_def split: prod.splits)
  then have "map_find (SubscriptionKey (topic (store m s))) (mSubscriptions m') = Some s0"
    using topics.first_stays [OF assms(1,3)] by simp
  then show ?thesis using \<open>r\<close> by (simp add: incomingPublish_def)
qed

theorem second_subscription_is_dead_witness:
  "\<exists>m'. registerSubscription mini_mqtt 0x20 (example_client, ()) = (True, m', ()) \<and>
    mActiveSubscription (incomingPublish (Some ''t'') 2 m') = 0x10"
proof -
  obtain r m' where r: "registerSubscription mini_mqtt 0x20 (example_client, ()) = (r, m', ())"
    by (metis prod.collapse old.unit.exhaust)
  have t: "topic (store example_client 0x20) = Some ''t''"
    by (simp add: example_client_def example_subscription_def)
  have "r \<and> mActiveSubscription (incomingPublish (topic (store example_client 0x20)) 2 m') = 0x10"
    using second_subscription_is_dead [OF _ _ _ _ r, of "0x10" 2] unfolding t
    by (simp add: example_client_def map_ok_def sMaxSubscriptions_def)
  then show ?thesis using r unfolding t by auto
qed

text \<open>
  C35. What one health check asks of lwIP, whatever lwIP answers, for a map that holds every subscription
  once: without a connection, first one request to connect to the configured broker, with the configured
  port, client name and keep-alive time; then one request for every subscription of the map that is not
  subscribed, in the order of the map, and none for the others. A subscription that was asked for is then
  subscribed exactly if lwIP took the request, and nothing else of the client changes.
\<close>

theorem health_check_retries:
  assumes "distinct (map snd (mSubscriptions m))"
  shows "\<exists>as w'. map fst as = filter (\<lambda>a. \<not> subscribed (store m a)) (map snd (mSubscriptions m)) \<and>
    healthCheck (recorded api) (m, w, l) =
      (m\<lparr>store := (\<lambda>a. case map_of as a of None \<Rightarrow> store m a
         | Some e \<Rightarrow> (store m a)\<lparr>subscribed := (e = ERR_OK)\<rparr>)\<rparr>, w',
       l @ (if connected api (m, w) then []
         else [ConnectCall (mLwIPClient m) (brokerIpAddr (mConfig m)) (brokerPort (mConfig m))
           \<lparr>client_id = Some (clientId (mConfig m)), client_user = None, client_pass = None,
            keep_alive = keepAlive (mConfig m), will_topic = None\<rparr>]) @
         map (\<lambda>(a, e). SubscribeCall (mLwIPClient m) (topic (store m a)) sQos a e) as)"
proof -
  obtain w1 where c: "connect (recorded api) (m, w, l) = (m, w1, l @ [connect_call m])"
    using connect_recorded [of api m w l] by blast
  show ?thesis
    using resubscribe_loop [OF assms, of m api w l] resubscribe_loop [OF assms, of m api w1 "l @ [connect_call m]"]
    by (cases "connected api (m, w)")
      (simp_all add: healthCheck_def c Let_def answered_def subscribe_call_def connect_call_def)
qed

theorem health_check_retries_witness:
  "\<exists>e w'. healthCheck (recorded (mini_mqtt\<lparr>mqtt_client_is_connected := (\<lambda>c w. False)\<rparr>)) (example_client, (), []) =
    (example_client\<lparr>store := (store example_client)(0x10 := example_subscription\<lparr>subscribed := (e = ERR_OK)\<rparr>)\<rparr>, w',
     [ConnectCall 1 [192, 168, 112, 11] 1883
        \<lparr>client_id = Some ''LwIPServer'', client_user = None, client_pass = None, keep_alive = 25, will_topic = None\<rparr>,
      SubscribeCall 1 (Some ''t'') 0 0x10 e])"
proof -
  let ?api = "mini_mqtt\<lparr>mqtt_client_is_connected := (\<lambda>c w. False)\<rparr> :: unit mqtt_api"
  have F: "mSubscriptions example_client = [(SubscriptionKey (Some ''t''), 0x10)]" "mLwIPClient example_client = 1"
      "brokerIpAddr (mConfig example_client) = [192, 168, 112, 11]" "brokerPort (mConfig example_client) = 1883"
      "clientId (mConfig example_client) = ''LwIPServer''" "keepAlive (mConfig example_client) = 25"
      "topic (store example_client a) = Some ''t''" "\<not> subscribed (store example_client a)"
      "store example_client a = example_subscription" for a
    by (simp_all add: example_client_def example_subscription_def Config_new_def sDefaultIp_def sDefaultId_def
        sKeepAlive_def)
  have "\<not> connected ?api (example_client, ())" by (simp add: connected_def)
  with health_check_retries [of example_client ?api "()" "[]"]
  have "\<exists>as w'. map fst as = [0x10] \<and> healthCheck (recorded ?api) (example_client, (), []) =
      (example_client\<lparr>store := (\<lambda>a. case map_of as a of None \<Rightarrow> store example_client a
         | Some e \<Rightarrow> (store example_client a)\<lparr>subscribed := (e = ERR_OK)\<rparr>)\<rparr>, w',
     [ConnectCall 1 [192, 168, 112, 11] 1883
        \<lparr>client_id = Some ''LwIPServer'', client_user = None, client_pass = None, keep_alive = 25, will_topic = None\<rparr>] @
      map (\<lambda>(a, e). SubscribeCall 1 (Some ''t'') 0 a e) as)"
    by (simp add: F(1-8) sQos_def)
  then obtain as w' where as: "map fst as = [0x10]" and h: "healthCheck (recorded ?api) (example_client, (), []) =
      (example_client\<lparr>store := (\<lambda>a. case map_of as a of None \<Rightarrow> store example_client a
         | Some e \<Rightarrow> (store example_client a)\<lparr>subscribed := (e = ERR_OK)\<rparr>)\<rparr>, w',
     [ConnectCall 1 [192, 168, 112, 11] 1883
        \<lparr>client_id = Some ''LwIPServer'', client_user = None, client_pass = None, keep_alive = 25, will_topic = None\<rparr>] @
      map (\<lambda>(a, e). SubscribeCall 1 (Some ''t'') 0 a e) as)"
    by (elim exE conjE) (rule that)
  from as obtain e where e: "as = [(0x10, e)]" by (cases as) auto
  have "(\<lambda>a. case map_of as a of None \<Rightarrow> store example_client a
         | Some e \<Rightarrow> (store example_client a)\<lparr>subscribed := (e = ERR_OK)\<rparr>) =
      (store example_client)(0x10 := example_subscription\<lparr>subscribed := (e = ERR_OK)\<rparr>)"
    by (simp add: e fun_eq_iff F(9))
  then show ?thesis using h e by auto
qed

end
