(* ===== verification/Debug_Uart.thy ===== *)
theory Debug_Uart
  imports Dma_Rx_Buffer Hal_Types
begin

text \<open>
  The debug UART, \<open>src/stm32h7/DebugUart.cpp\<close>, with the wrappers of FreeRTOS it uses,
  \<open>include/lwipserver/freertos/StreamBuffer.h\<close> and \<open>Mutex.h\<close>: transmission through a stream buffer and
  a DMA buffer, reception through the circular buffer of \<open>Dma_Rx_Buffer\<close>, the error interrupt, the
  initialisation, newlib's \<open>_write\<close> and \<open>_read\<close>, and the stubs of the other system calls. FreeRTOS and the HAL are the fields of \<open>uart_env\<close>.
\<close>

section \<open>Model\<close>

text \<open>newlib's error codes.\<close>

definition EIO :: int where "EIO = 5"
definition EBADF :: int where "EBADF = 9"

record DebugUartConfig =
  baud :: u32
  blockingTxTimeout_ms :: u32
  txWait_ms :: u32
  useStreamRx :: bool
  useStreamTx :: bool

definition DebugUartConfig_new :: DebugUartConfig where
  "DebugUartConfig_new = \<lparr>baud = 1500000, blockingTxTimeout_ms = 1000, txWait_ms = 20,
     useStreamRx = True, useStreamTx = True\<rparr>"

subsection \<open>What the HAL is asked to do\<close>

datatype dma_stream = DMA1_Stream0 | DMA1_Stream1

datatype dma_request = DMA_REQUEST_USART3_TX | DMA_REQUEST_USART3_RX

datatype dma_direction = DMA_MEMORY_TO_PERIPH | DMA_PERIPH_TO_MEMORY

datatype dma_mode = DMA_NORMAL | DMA_CIRCULAR

datatype dma_priority = DMA_PRIORITY_LOW | DMA_PRIORITY_HIGH

text \<open>The settings of a DMA stream; the increments are flags, the alignments numbers of bytes,
  the bursts numbers of beats, the threshold of the FIFO in quarters.\<close>

record dma_init =
  DmaInstance :: dma_stream
  Request :: dma_request
  Direction :: dma_direction
  PeriphInc :: bool
  MemInc :: bool
  PeriphDataAlignment :: nat
  MemDataAlignment :: nat
  DmaMode :: dma_mode
  Priority :: dma_priority
  FIFOMode :: bool
  FIFOThreshold :: nat
  MemBurst :: nat
  PeriphBurst :: nat

record uart_init =
  BaudRate :: u32
  WordLength :: nat
  StopBits :: nat
  Parity :: bool
  HwFlowCtl :: bool
  UartModeTx :: bool
  UartModeRx :: bool
  OverSampling :: nat
  OneBitSampling :: bool
  ClockPrescaler :: nat
  AdvFeatureInit :: bool

datatype irq = DMA1_Stream0_IRQn | DMA1_Stream1_IRQn | USART3_IRQn

datatype uart_op =
    GPIOD_CLK_ENABLE | USART3_CLK_ENABLE | DMA1_CLK_ENABLE
  | UART_GPIO_Init gpio_port gpio_init
  | LINKDMA dma_stream
  | RegisterErrorCallback
  | NVIC_SetPriority irq nat nat | NVIC_EnableIRQ irq
  | UART_Abort | UART_Receive_DMA int
  | CleanDCache nat | UART_Transmit_DMA "u8 list"
  | UART_Transmit "u8 list" u16 u32
  | InvalidateDCache int

record 'w uart_env =
  pdMS_TO_TICKS :: "u32 \<Rightarrow> u32"
  xSemaphoreTake :: "u32 \<Rightarrow> 'w \<Rightarrow> bool \<times> 'w"
  xSemaphoreGive :: "'w \<Rightarrow> bool \<times> 'w"
  xStreamBufferSend :: "u8 list \<Rightarrow> u32 \<Rightarrow> 'w \<Rightarrow> nat \<times> 'w"
  xStreamBufferReceive :: "nat \<Rightarrow> u32 \<Rightarrow> 'w \<Rightarrow> u8 list \<times> 'w"
  busy_tx :: "'w \<Rightarrow> bool"
  DMA_GET_COUNTER :: "'w \<Rightarrow> int \<times> 'w"
  rx_memory :: "'w \<Rightarrow> u8 list"
  dma_error_code :: "'w \<Rightarrow> u32"
  uart_error_code :: "'w \<Rightarrow> u32"
  HAL_UART_Init :: "uart_init \<Rightarrow> 'w \<Rightarrow> hal_status \<times> 'w"
  HAL_DMA_Init :: "dma_init \<Rightarrow> 'w \<Rightarrow> hal_status \<times> 'w"
  HAL_UART_Receive :: "'w \<Rightarrow> (hal_status \<times> u8) \<times> 'w"
  error_interrupt :: "'w \<Rightarrow> bool \<times> 'w"
  uart_effect :: "uart_op \<Rightarrow> 'w \<Rightarrow> 'w"

text \<open>
  The static variables. \<open>rx_memory\<close> is what the DMA has stored: the program sees it in \<open>sRxBuffer\<close> once
  the data cache has been invalidated.
\<close>

record debug_uart =
  sConfig :: DebugUartConfig
  sUartError :: bool
  sRxBuffer :: DmaRxBuffer
  sTxBuffer1 :: "u8 list"
  errno :: int
  uart_ops :: "uart_op list"

definition debug_uart_new :: debug_uart where
  "debug_uart_new = \<lparr>sConfig = DebugUartConfig_new, sUartError = False, sRxBuffer = DmaRxBuffer_new,
     sTxBuffer1 = replicate 64 0, errno = 0, uart_ops = []\<rparr>"

definition uart_call ::
  "'w uart_env \<Rightarrow> uart_op \<Rightarrow> debug_uart \<times> 'w \<Rightarrow> debug_uart \<times> 'w" where
  "uart_call env op = (\<lambda>(u, w). (u\<lparr>uart_ops := uart_ops u @ [op]\<rparr>, uart_effect env op w))"

subsection \<open>FreeRTOS wrappers\<close>

definition sWaitForever :: u32 where "sWaitForever = 0xFFFFFFFF"

definition Mutex_lock :: "'w uart_env \<Rightarrow> u32 \<Rightarrow> 'w \<Rightarrow> bool \<times> 'w" where
  "Mutex_lock env wait_ms w = xSemaphoreTake env (pdMS_TO_TICKS env wait_ms) w"

definition Mutex_unlock :: "'w uart_env \<Rightarrow> 'w \<Rightarrow> bool \<times> 'w" where
  "Mutex_unlock env w = xSemaphoreGive env w"

definition StreamBuffer_send :: "'w uart_env \<Rightarrow> u8 list \<Rightarrow> u32 \<Rightarrow> 'w \<Rightarrow> nat \<times> 'w" where
  "StreamBuffer_send env buf wait_ms w = xStreamBufferSend env buf (pdMS_TO_TICKS env wait_ms) w"

definition StreamBuffer_receive :: "'w uart_env \<Rightarrow> nat \<Rightarrow> u32 \<Rightarrow> 'w \<Rightarrow> u8 list \<times> 'w" where
  "StreamBuffer_receive env n wait_ms w =
     xStreamBufferReceive env n (pdMS_TO_TICKS env wait_ms) w"

subsection \<open>Transmission\<close>

definition debugUartTx :: "'w uart_env \<Rightarrow> u8 list \<Rightarrow> debug_uart \<times> 'w \<Rightarrow> nat \<times> debug_uart \<times> 'w" where
  "debugUartTx env data = (\<lambda>(u, w).
     let (locked, w) = Mutex_lock env sWaitForever w;
       (n, w) = StreamBuffer_send env data (txWait_ms (sConfig u)) w;
       (unlocked, w) = Mutex_unlock env w
     in (n, u, w))"

definition debugUartTx_string ::
  "'w uart_env \<Rightarrow> string \<Rightarrow> debug_uart \<times> 'w \<Rightarrow> debug_uart \<times> 'w" where
  "debugUartTx_string env text uw = snd (debugUartTx env (map of_char text) uw)"

definition debugUartService :: "'w uart_env \<Rightarrow> debug_uart \<times> 'w \<Rightarrow> debug_uart \<times> 'w" where
  "debugUartService env = (\<lambda>(u, w).
     if \<not> busy_tx env w then
       let (bs, w) = StreamBuffer_receive env (length (sTxBuffer1 u)) 0 w;
         u = u\<lparr>sTxBuffer1 := bs @ drop (length bs) (sTxBuffer1 u)\<rparr>;
         n = (of_nat (length bs) :: u16)
       in if 0 < n then
            uart_call env (UART_Transmit_DMA (take (unat n) (sTxBuffer1 u)))
              (uart_call env (CleanDCache (length (sTxBuffer1 u))) (u, w))
          else (u, w)
     else (u, w))"

subsection \<open>The error interrupt\<close>

definition HAL_DMA_ERROR_NONE :: u32 where "HAL_DMA_ERROR_NONE = 0"
definition HAL_DMA_ERROR_TE :: u32 where "HAL_DMA_ERROR_TE = 1"

definition uartErroHandler :: "'w uart_env \<Rightarrow> debug_uart \<times> 'w \<Rightarrow> debug_uart \<times> 'w" where
  "uartErroHandler env uw =
     (let (u, w) = uart_call env UART_Abort uw;
        uw = (u\<lparr>sUartError := True\<rparr>, w);
        uw = (if dma_error_code env (snd uw) = HAL_DMA_ERROR_NONE then uw
              else if dma_error_code env (snd uw) = HAL_DMA_ERROR_TE then
                debugUartTx_string env (''RX DMA Transfer Error'' @ [CHR 0x0A]) uw
              else debugUartTx_string env (''RX DMA Error'' @ [CHR 0x0A]) uw);
        uw = (if uart_error_code env (snd uw) \<noteq> 0
              then debugUartTx_string env (''UART Error'' @ [CHR 0x0A]) uw else uw);
        uw = (if uart_error_code env (snd uw) = 0 \<and> dma_error_code env (snd uw) = 0
              then debugUartTx_string env (''UART Error with no ErrorCode'' @ [CHR 0x0A]) uw else uw)
      in if useStreamRx (sConfig (fst uw)) then uart_call env (UART_Receive_DMA sBufferSize) uw else uw)"

text \<open>A point of the program at which the error interrupt may be taken.\<close>

definition interrupt_point :: "'w uart_env \<Rightarrow> debug_uart \<times> 'w \<Rightarrow> debug_uart \<times> 'w" where
  "interrupt_point env = (\<lambda>(u, w).
     case error_interrupt env w of (taken, w) \<Rightarrow> if taken then uartErroHandler env (u, w) else (u, w))"

subsection \<open>Initialisation\<close>

text \<open>\<open>None\<close> is one of the endless loops after a failed call of the HAL.\<close>

definition uart_pin :: "nat \<Rightarrow> gpio_init" where
  "uart_pin pin = \<lparr>Pin = [pin], Mode = GPIO_MODE_AF_PP, Pull = GPIO_PULLUP,
     GpioSpeed = GPIO_SPEED_FREQ_VERY_HIGH, Alternate = GPIO_AF7_USART3\<rparr>"

definition uart_settings :: "DebugUartConfig \<Rightarrow> uart_init" where
  "uart_settings cfg = \<lparr>BaudRate = baud cfg, WordLength = 8, StopBits = 1, Parity = False,
     HwFlowCtl = False, UartModeTx = True, UartModeRx = True, OverSampling = 16, OneBitSampling = False,
     ClockPrescaler = 1, AdvFeatureInit = False\<rparr>"

definition tx_dma_settings :: dma_init where
  "tx_dma_settings = \<lparr>DmaInstance = DMA1_Stream0, Request = DMA_REQUEST_USART3_TX,
     Direction = DMA_MEMORY_TO_PERIPH, PeriphInc = False, MemInc = True, PeriphDataAlignment = 1,
     MemDataAlignment = 1, DmaMode = DMA_NORMAL, Priority = DMA_PRIORITY_LOW, FIFOMode = False,
     FIFOThreshold = 4, MemBurst = 1, PeriphBurst = 1\<rparr>"

definition rx_dma_settings :: "DebugUartConfig \<Rightarrow> dma_init" where
  "rx_dma_settings cfg = \<lparr>DmaInstance = DMA1_Stream1, Request = DMA_REQUEST_USART3_RX,
     Direction = DMA_PERIPH_TO_MEMORY, PeriphInc = False, MemInc = True, PeriphDataAlignment = 1,
     MemDataAlignment = 1, DmaMode = (if useStreamRx cfg then DMA_CIRCULAR else DMA_NORMAL),
     Priority = DMA_PRIORITY_HIGH, FIFOMode = False,
     FIFOThreshold = 4, MemBurst = 1, PeriphBurst = 1\<rparr>"

definition uart_gpio_ops :: "uart_op list" where
  "uart_gpio_ops = [GPIOD_CLK_ENABLE, UART_GPIO_Init GPIOD (uart_pin 8),
     GPIOD_CLK_ENABLE, UART_GPIO_Init GPIOD (uart_pin 9), USART3_CLK_ENABLE]"

definition uart_irq_ops :: "uart_op list" where
  "uart_irq_ops = [RegisterErrorCallback,
     NVIC_SetPriority DMA1_Stream0_IRQn 15 2, NVIC_EnableIRQ DMA1_Stream0_IRQn,
     NVIC_SetPriority DMA1_Stream1_IRQn 15 0, NVIC_EnableIRQ DMA1_Stream1_IRQn,
     NVIC_SetPriority USART3_IRQn 15 1, NVIC_EnableIRQ USART3_IRQn]"

definition debugUartInit :: "'w uart_env \<Rightarrow> debug_uart \<times> 'w \<Rightarrow> (debug_uart \<times> 'w) option" where
  "debugUartInit env uw =
     (let cfg = sConfig (fst uw);
        (u, w) = fold (uart_call env) uart_gpio_ops uw;
        (st, w) = HAL_UART_Init env (uart_settings cfg) w
      in if st \<noteq> HAL_OK then None
         else let (u, w) = uart_call env DMA1_CLK_ENABLE (u, w);
           (st, w) = HAL_DMA_Init env tx_dma_settings w
         in if st \<noteq> HAL_OK then None
            else let (u, w) = uart_call env (LINKDMA DMA1_Stream0) (u, w);
              (st, w) = HAL_DMA_Init env (rx_dma_settings cfg) w
            in if st \<noteq> HAL_OK then None
               else let uw = fold (uart_call env) (LINKDMA DMA1_Stream1 # uart_irq_ops) (u, w)
                 in Some (if useStreamRx cfg then uart_call env (UART_Receive_DMA sBufferSize) uw else uw))"

subsection \<open>System calls\<close>

definition STDIN_FILENO :: int where "STDIN_FILENO = 0"
definition STDOUT_FILENO :: int where "STDOUT_FILENO = 1"
definition STDERR_FILENO :: int where "STDERR_FILENO = 2"

definition uart_write :: "'w uart_env \<Rightarrow> int \<Rightarrow> u8 list \<Rightarrow> debug_uart \<times> 'w \<Rightarrow> int \<times> debug_uart \<times> 'w" where
  "uart_write env fd data = (\<lambda>(u, w).
     if fd = STDOUT_FILENO \<or> fd = STDERR_FILENO then
       if useStreamTx (sConfig u) then
         let (n, u, w) = debugUartTx env data (u, w) in (int n, u, w)
       else
         let (u, w) = uart_call env
           (UART_Transmit data (of_nat (length data)) (blockingTxTimeout_ms (sConfig u))) (u, w)
         in (int (length data), u, w)
     else (-1, u\<lparr>errno := EBADF\<rparr>, w))"

text \<open>One round of the loop of \<open>_read\<close>: the result and the bytes stored for the caller, if it returns.\<close>

definition readRound ::
  "'w uart_env \<Rightarrow> int \<Rightarrow> debug_uart \<times> 'w \<Rightarrow> (int \<times> u8 list) option \<times> debug_uart \<times> 'w" where
  "readRound env n uw =
     (let (u, w) = interrupt_point env uw;
        (localCounter, w) = DMA_GET_COUNTER env w;
        u = u\<lparr>sRxBuffer := updatePointers localCounter (sRxBuffer u)\<rparr>;
        (u, w) = uart_call env (InvalidateDCache sBufferSize) (u, w);
        b = (sRxBuffer u)\<lparr>mBuffer := rx_memory env w\<rparr>;
        (copySize, bytes, b) = copy n b;
        u = u\<lparr>sRxBuffer := b\<rparr>
      in if 0 < copySize then (Some (copySize, bytes), u, w)
         else let (u, w) = interrupt_point env (u, w)
           in if sUartError u then (Some (-1, []), u\<lparr>errno := EIO\<rparr>, w) else (None, u, w))"

partial_function (option) readLoop ::
  "'w uart_env \<Rightarrow> int \<Rightarrow> debug_uart \<times> 'w \<Rightarrow> (int \<times> u8 list \<times> debug_uart \<times> 'w) option" where
  "readLoop env n uw =
     (case readRound env n uw of
        (Some (r, bytes), u, w) \<Rightarrow> Some (r, bytes, u, w)
      | (None, uw) \<Rightarrow> readLoop env n uw)"

definition uart_read ::
  "'w uart_env \<Rightarrow> int \<Rightarrow> int \<Rightarrow> debug_uart \<times> 'w \<Rightarrow> (int \<times> u8 list \<times> debug_uart \<times> 'w) option" where
  "uart_read env fd n = (\<lambda>(u, w).
     if fd = STDIN_FILENO then
       if useStreamRx (sConfig u) then readLoop env n (u\<lparr>sUartError := False\<rparr>, w)
       else case HAL_UART_Receive env w of ((hstatus, byte), w) \<Rightarrow>
         let u = u\<lparr>sRxBuffer := (sRxBuffer u)\<lparr>mBuffer := (mBuffer (sRxBuffer u))[0 := byte]\<rparr>\<rparr>
         in if hstatus = HAL_OK then Some (1, take 1 (mBuffer (sRxBuffer u)), u, w) else Some (EIO, [], u, w)
     else Some (-1, [], u\<lparr>errno := EBADF\<rparr>, w))"

text \<open>
  The stubs of \<open>src/stm32h7/Syscalls.cpp\<close>, for what newlib needs but the device has not: the result and
  the new \<open>errno\<close>.
\<close>

definition ENOSYS :: int where "ENOSYS = 88"

definition sys_close :: "int \<Rightarrow> int \<times> int" where "sys_close file = (-1, ENOSYS)"
definition sys_fstat :: "int \<Rightarrow> 'st \<Rightarrow> int \<times> int" where "sys_fstat file st = (-1, ENOSYS)"
definition sys_isatty :: "int \<Rightarrow> int \<times> int" where "sys_isatty file = (0, ENOSYS)"
definition sys_getpid :: "int \<times> int" where "sys_getpid = (-1, ENOSYS)"
definition sys_kill :: "int \<Rightarrow> int \<Rightarrow> int \<times> int" where "sys_kill pid sig = (-1, ENOSYS)"
definition sys_lseek :: "int \<Rightarrow> int \<Rightarrow> int \<Rightarrow> int \<times> int" where "sys_lseek file ptr dir = (-1, ENOSYS)"

section \<open>Initialisation ends\<close>

lemma debugUartInit_returns:
  assumes "\<And>i w. fst (HAL_UART_Init env i w) = HAL_OK" and "\<And>i w. fst (HAL_DMA_Init env i w) = HAL_OK"
  shows "\<exists>u' w'. debugUartInit env (u, w) = Some (u', w')"
proof -
  have "HAL_UART_Init env i w = (HAL_OK, snd (HAL_UART_Init env i w))"
    and "HAL_DMA_Init env j w = (HAL_OK, snd (HAL_DMA_Init env j w))" for i j w
    using assms(1) [of i w] assms(2) [of j w] by (simp_all add: prod_eq_iff)
  then have "debugUartInit env (u, w) \<noteq> None"
    by (simp add: debugUartInit_def Let_def del: fold_simps split: prod.split) (metis prod.inject)
  then show ?thesis by auto
qed

section \<open>Transmission keeps the order\<close>

text \<open>
  What a stream buffer promises: with \<open>content\<close> the bytes it holds, a send appends the first bytes of
  its argument and tells how many, a receive takes bytes off the front, and nothing else concerns it.
\<close>

definition stream_laws :: "'w uart_env \<Rightarrow> ('w \<Rightarrow> u8 list) \<Rightarrow> bool" where
  "stream_laws env content \<longleftrightarrow>
     (\<forall>bs t w. fst (xStreamBufferSend env bs t w) \<le> length bs \<and>
        content (snd (xStreamBufferSend env bs t w)) =
          content w @ take (fst (xStreamBufferSend env bs t w)) bs) \<and>
     (\<forall>n t w. length (fst (xStreamBufferReceive env n t w)) \<le> n \<and>
        content w = fst (xStreamBufferReceive env n t w) @ content (snd (xStreamBufferReceive env n t w))) \<and>
     (\<forall>t w. content (snd (xSemaphoreTake env t w)) = content w) \<and>
     (\<forall>w. content (snd (xSemaphoreGive env w)) = content w) \<and>
     (\<forall>op w. content (uart_effect env op w) = content w)"

fun dma_bytes :: "uart_op \<Rightarrow> u8 list" where
  "dma_bytes (UART_Transmit_DMA bs) = bs"
| "dma_bytes op = []"

text \<open>The bytes handed to the DMA so far.\<close>

definition transmitted :: "debug_uart \<Rightarrow> u8 list" where
  "transmitted u = concat (map dma_bytes (uart_ops u))"

text \<open>
  A run of the program's output: calls of \<open>_write\<close> on the standard streams and of the service function;
  the result is what \<open>_write\<close> has reported as written.
\<close>

datatype output_event = Write_event bool "u8 list" | Service_event

fun output_run ::
  "'w uart_env \<Rightarrow> output_event list \<Rightarrow> debug_uart \<times> 'w \<Rightarrow> u8 list \<times> debug_uart \<times> 'w" where
  "output_run env [] uw = ([], uw)"
| "output_run env (Write_event err bs # es) uw =
     (let (r, uw) = uart_write env (if err then STDERR_FILENO else STDOUT_FILENO) bs uw;
        (out, uw) = output_run env es uw
      in (take (nat r) bs @ out, uw))"
| "output_run env (Service_event # es) uw = output_run env es (debugUartService env uw)"

definition tx_buffer_ok :: "debug_uart \<Rightarrow> bool" where
  "tx_buffer_ok u \<longleftrightarrow> length (sTxBuffer1 u) = 64 \<and> useStreamTx (sConfig u)"

lemma debugUartTx_stream:
  assumes "stream_laws env content" and "debugUartTx env bs (u, w) = (n, u', w')"
  shows "u' = u \<and> n \<le> length bs \<and> content w' = content w @ take n bs"
proof -
  obtain l w1 where 1: "Mutex_lock env sWaitForever w = (l, w1)" by fastforce
  obtain k w2 where 2: "StreamBuffer_send env bs (txWait_ms (sConfig u)) w1 = (k, w2)" by fastforce
  obtain m w3 where 3: "Mutex_unlock env w2 = (m, w3)" by fastforce
  have "content w1 = content w"
    using assms(1) 1 unfolding stream_laws_def Mutex_lock_def by (metis snd_conv)
  moreover have "k \<le> length bs \<and> content w2 = content w1 @ take k bs"
    using assms(1) 2 unfolding stream_laws_def StreamBuffer_send_def by (metis fst_conv snd_conv)
  moreover have "content w3 = content w2"
    using assms(1) 3 unfolding stream_laws_def Mutex_unlock_def by (metis snd_conv)
  ultimately show ?thesis
    using assms(2) by (simp add: debugUartTx_def 1 2 3)
qed

lemma uart_write_stream:
  assumes "stream_laws env content" and "tx_buffer_ok u" and "fd \<in> {STDOUT_FILENO, STDERR_FILENO}"
    and "uart_write env fd bs (u, w) = (r, u', w')"
  shows "u' = u \<and> 0 \<le> r \<and> r \<le> int (length bs) \<and> content w' = content w @ take (nat r) bs"
proof -
  obtain n u1 w1 where t: "debugUartTx env bs (u, w) = (n, u1, w1)" by (metis prod_cases3)
  have "r = int n \<and> u' = u1 \<and> w' = w1"
    using assms(2-4) t by (auto simp: uart_write_def tx_buffer_ok_def)
  then show ?thesis using debugUartTx_stream [OF assms(1) t] by simp
qed

lemma debugUartService_stream:
  assumes "stream_laws env content" and "tx_buffer_ok u" and "debugUartService env (u, w) = (u', w')"
  shows "tx_buffer_ok u' \<and> transmitted u' @ content w' = transmitted u @ content w"
proof (cases "busy_tx env w")
  case True
  then show ?thesis using assms by (simp add: debugUartService_def)
next
  case False
  obtain bs w1 where r: "StreamBuffer_receive env 64 0 w = (bs, w1)" by fastforce
  have law: "length bs \<le> 64 \<and> content w = bs @ content w1"
    using assms(1) r unfolding stream_laws_def StreamBuffer_receive_def by (metis fst_conv snd_conv)
  then have n: "unat (of_nat (length bs) :: u16) = length bs" by (simp add: unat_of_nat take_bit_nat_eq_self)
  have len: "length (sTxBuffer1 u) = 64" using assms(2) by (simp add: tx_buffer_ok_def)
  have eff: "content (uart_effect env op v) = content v" for op v
    using assms(1) by (simp add: stream_laws_def)
  show ?thesis
  proof (cases "bs = []")
    case True
    then show ?thesis
      using assms(2,3) False r law len by (auto simp: debugUartService_def transmitted_def tx_buffer_ok_def)
  next
    case ne: False
    then have "(0 :: u16) < of_nat (length bs)" using n by (simp add: word_greater_zero_iff) auto
    then show ?thesis
      using assms(2,3) False r law n
      by (auto simp: debugUartService_def len transmitted_def tx_buffer_ok_def uart_call_def eff)
  qed
qed

lemma output_run_stream:
  assumes "stream_laws env content" and "tx_buffer_ok u" and "output_run env es (u, w) = (out, u', w')"
  shows "transmitted u' @ content w' = transmitted u @ content w @ out"
  using assms(2,3)
proof (induction es arbitrary: u w out)
  case (Cons e es)
  show ?case
  proof (cases e)
    case (Write_event err bs)
    obtain r u1 w1 where wr: "uart_write env (if err then STDERR_FILENO else STDOUT_FILENO) bs (u, w) = (r, u1, w1)"
      by (metis prod_cases3)
    have u1: "u1 = u" and c: "content w1 = content w @ take (nat r) bs"
      using uart_write_stream [OF assms(1) Cons.prems(1) _ wr] by auto
    obtain out2 where o: "output_run env es (u, w1) = (out2, u', w')" "out = take (nat r) bs @ out2"
      using Cons.prems(2) wr by (auto simp: Write_event u1 split: prod.splits)
    show ?thesis using Cons.IH [OF Cons.prems(1) o(1)] by (simp add: c o(2))
  next
    case Service_event
    obtain u1 w1 where sv: "debugUartService env (u, w) = (u1, w1)" by fastforce
    note d = debugUartService_stream [OF assms(1) Cons.prems(1) sv]
    have "output_run env es (u1, w1) = (out, u', w')" using Cons.prems(2) sv by (simp add: Service_event)
    then show ?thesis using Cons.IH d by (metis append_assoc)
  qed
qed simp

section \<open>The DMA sees what was written\<close>

text \<open>
  Each block that is handed to the DMA is not empty, lies in the transmit buffer, and the whole buffer has
  been written back from the data cache directly before.
\<close>

definition dma_ok :: "uart_op list \<Rightarrow> bool" where
  "dma_ok ops \<longleftrightarrow> (\<forall>i<length ops. \<forall>bs. ops ! i = UART_Transmit_DMA bs \<longrightarrow>
     0 < i \<and> ops ! (i - 1) = CleanDCache 64 \<and> 0 < length bs \<and> length bs \<le> 64)"

definition uart_inv :: "debug_uart \<Rightarrow> bool" where
  "uart_inv u \<longleftrightarrow> length (sTxBuffer1 u) = 64 \<and> dma_ok (uart_ops u)"

text \<open>A stream buffer delivers at most as much as is asked for.\<close>

definition bounded_receive :: "'w uart_env \<Rightarrow> bool" where
  "bounded_receive env \<longleftrightarrow> (\<forall>n t w. length (fst (xStreamBufferReceive env n t w)) \<le> n)"

lemma dma_ok_snoc: "dma_ok ops \<Longrightarrow> (\<And>bs. op \<noteq> UART_Transmit_DMA bs) \<Longrightarrow> dma_ok (ops @ [op])"
  by (auto simp: dma_ok_def nth_append less_Suc_eq split: if_splits)

lemma dma_ok_block:
  assumes "dma_ok ops" and "0 < length bs" and "length bs \<le> 64"
  shows "dma_ok (ops @ [CleanDCache 64, UART_Transmit_DMA bs])"
proof -
  have "dma_ok (ops @ [CleanDCache 64])" using assms(1) by (rule dma_ok_snoc) simp
  then have "dma_ok ((ops @ [CleanDCache 64]) @ [UART_Transmit_DMA bs])"
    using assms(2,3) by (auto simp: dma_ok_def nth_append less_Suc_eq split: if_splits)
  then show ?thesis by simp
qed

lemma uart_call_keeps [inv_intros]:
  "uart_inv (fst uw) \<Longrightarrow> (\<And>bs. op \<noteq> UART_Transmit_DMA bs) \<Longrightarrow> uart_inv (fst (uart_call env op uw))"
  by (cases uw) (simp add: uart_inv_def uart_call_def dma_ok_snoc)

lemma uart_calls_effect:
  "fold (uart_call env) ops (u, w) = (u\<lparr>uart_ops := uart_ops u @ ops\<rparr>, fold (uart_effect env) ops w)"
  by (induction ops arbitrary: u w) (simp_all add: uart_call_def)

lemma dma_ok_append: "dma_ok ops \<Longrightarrow> \<forall>op\<in>set cs. \<forall>bs. op \<noteq> UART_Transmit_DMA bs \<Longrightarrow> dma_ok (ops @ cs)"
proof (induction cs arbitrary: ops)
  case (Cons c cs)
  have "dma_ok (ops @ [c])" using Cons.prems by (intro dma_ok_snoc) auto
  then show ?case using Cons.IH [of "ops @ [c]"] Cons.prems by simp
qed simp

lemma debugUartTx_same: "debugUartTx env data (u, w) = (n, u', w') \<Longrightarrow> u' = u"
  by (auto simp: debugUartTx_def Let_def split: prod.splits)

lemma debugUartTx_keeps [simp]:
  "fst (snd (debugUartTx env data uw)) = fst uw" "fst (debugUartTx_string env text uw) = fst uw"
  by (cases uw; simp add: debugUartTx_string_def debugUartTx_def Let_def split: prod.split)+

lemma uartErroHandler_keeps [inv_intros]:
  assumes "uart_inv (fst uw)"
  shows "uart_inv (fst (uartErroHandler env uw))"
proof -
  obtain u w where c: "uart_call env UART_Abort uw = (u, w)" by fastforce
  have "uart_inv u" using uart_call_keeps [OF assms, of UART_Abort env] c by simp
  then have "uart_inv (u\<lparr>sUartError := True\<rparr>)" by (simp add: uart_inv_def)
  then show ?thesis by (auto simp: uartErroHandler_def c Let_def intro: inv_intros)
qed

lemma interrupt_point_keeps [inv_intros]: "uart_inv (fst uw) \<Longrightarrow> uart_inv (fst (interrupt_point env uw))"
  by (cases uw) (auto simp: interrupt_point_def split: prod.split intro: inv_intros)

lemma uart_inv_update [simp]:
  "uart_inv (u\<lparr>sRxBuffer := b\<rparr>) = uart_inv u" "uart_inv (u\<lparr>errno := e\<rparr>) = uart_inv u"
  "uart_inv (u\<lparr>sUartError := x\<rparr>) = uart_inv u"
  by (simp_all add: uart_inv_def)

lemma readRound_keeps:
  assumes "uart_inv (fst uw)" and "readRound env n uw = (r, u', w')"
  shows "uart_inv u'"
proof -
  obtain u w where i: "interrupt_point env uw = (u, w)" by fastforce
  then have u: "uart_inv u" using interrupt_point_keeps [OF assms(1)] by (metis fst_conv)
  obtain c w1 where d: "DMA_GET_COUNTER env w = (c, w1)" by fastforce
  let ?u = "u\<lparr>sRxBuffer := updatePointers c (sRxBuffer u)\<rparr>"
  obtain u2 w2 where iv: "uart_call env (InvalidateDCache sBufferSize) (?u, w1) = (u2, w2)" by fastforce
  then have u2: "uart_inv u2"
    using uart_call_keeps [of "(?u, w1)" "InvalidateDCache sBufferSize" env] u by simp
  obtain k bytes b where c: "copy n ((sRxBuffer u2)\<lparr>mBuffer := rx_memory env w2\<rparr>) = (k, bytes, b)"
    by (metis prod_cases3)
  obtain u3 w3 where j: "interrupt_point env (u2\<lparr>sRxBuffer := b\<rparr>, w2) = (u3, w3)" by fastforce
  then have "uart_inv u3" using interrupt_point_keeps [of "(u2\<lparr>sRxBuffer := b\<rparr>, w2)" env] u2 by simp
  then show ?thesis
    using assms(2) u2 by (auto simp: readRound_def i d iv c j Let_def split: if_splits)
qed

lemma readLoop_keeps:
  assumes "readLoop env n uw = Some r" and "uart_inv (fst uw)"
  shows "uart_inv (fst (snd (snd r)))"
proof (rule readLoop.raw_induct [where P = "\<lambda>env n uw r. uart_inv (fst uw) \<longrightarrow> uart_inv (fst (snd (snd r)))",
      OF _ assms(1), THEN mp, OF _ assms(2)])
  fix f :: "'a uart_env \<Rightarrow> int \<Rightarrow> debug_uart \<times> 'a \<Rightarrow> (int \<times> u8 list \<times> debug_uart \<times> 'a) option" and env :: "'a uart_env"
    and n uw r
  assume IH: "\<And>env n uw r. f env n uw = Some r \<Longrightarrow> uart_inv (fst uw) \<longrightarrow> uart_inv (fst (snd (snd r)))"
  assume run: "(case readRound env n uw of (Some (r, bytes), u, w) \<Rightarrow> Some (r, bytes, u, w)
      | (None, uw) \<Rightarrow> f env n uw) = Some r"
  show "uart_inv (fst uw) \<longrightarrow> uart_inv (fst (snd (snd r)))"
  proof
    assume inv: "uart_inv (fst uw)"
    obtain a u w where a: "readRound env n uw = (a, u, w)" by (metis prod_cases3)
    have u: "uart_inv u" by (rule readRound_keeps [OF inv a])
    then show "uart_inv (fst (snd (snd r)))"
      using run a IH [of env n "(u, w)" r] by (cases a) auto
  qed
qed

lemma uart_read_keeps:
  assumes "uart_read env fd n (u, w) = Some (k, bytes, u', w')" and "uart_inv u"
  shows "uart_inv u'"
  using assms readLoop_keeps [of env n "(u\<lparr>sUartError := False\<rparr>, w)" "(k, bytes, u', w')"]
  by (auto simp: uart_read_def Let_def split: if_splits prod.splits)

lemma uart_write_keeps:
  assumes "uart_write env fd bs (u, w) = (r, u', w')" and "uart_inv u"
  shows "uart_inv u'"
proof -
  have "uart_inv (fst (uart_call env
      (UART_Transmit bs (of_nat (length bs)) (blockingTxTimeout_ms (sConfig u))) (u, w)))"
    using assms(2) by (intro inv_intros) simp_all
  then show ?thesis
    using assms by (auto simp: uart_write_def Let_def dest: debugUartTx_same split: if_splits prod.splits)
qed

lemma debugUartService_keeps:
  assumes "bounded_receive env" and "uart_inv u"
  shows "uart_inv (fst (debugUartService env (u, w)))"
proof (cases "busy_tx env w")
  case False
  obtain bs w1 where r: "StreamBuffer_receive env 64 0 w = (bs, w1)" by fastforce
  then have len: "length bs \<le> 64"
    using assms(1) unfolding StreamBuffer_receive_def bounded_receive_def by (metis fst_conv)
  then have n: "unat (of_nat (length bs) :: u16) = length bs"
    by (simp add: unat_of_nat take_bit_nat_eq_self)
  have tx: "length (sTxBuffer1 u) = 64" using assms(2) by (simp add: uart_inv_def)
  then have l: "length (bs @ drop (length bs) (sTxBuffer1 u)) = 64" using len by simp
  show ?thesis
  proof (cases "bs = []")
    case True
    then show ?thesis using False r assms(2) tx by (simp add: debugUartService_def uart_inv_def)
  next
    case ne: False
    then have "0 < unat (of_nat (length bs) :: u16)" by (simp add: n)
    then have "0 < (of_nat (length bs) :: u16)" by (simp add: word_less_nat_alt)
    moreover have "dma_ok (uart_ops u @ [CleanDCache 64, UART_Transmit_DMA bs])"
      using dma_ok_block [of "uart_ops u" bs] assms(2) ne len by (simp add: uart_inv_def)
    ultimately show ?thesis
      using False r tx l len
      by (simp add: debugUartService_def uart_inv_def uart_call_def n Let_def split: prod.split)
  qed
qed (simp add: debugUartService_def assms(2))

lemma debugUartInit_keeps:
  assumes "debugUartInit env (u, w) = Some (u', w')" and "uart_inv u"
  shows "uart_inv u'"
proof -
  obtain cs where "u' = u\<lparr>uart_ops := uart_ops u @ cs\<rparr>" and "\<forall>op\<in>set cs. \<forall>bs. op \<noteq> UART_Transmit_DMA bs"
    using assms(1)
    by (auto simp: debugUartInit_def uart_calls_effect uart_call_def Let_def uart_gpio_ops_def uart_irq_ops_def
        simp del: fold_simps split: prod.splits if_splits)
  then show ?thesis using assms(2) dma_ok_append by (auto simp: uart_inv_def)
qed

text \<open>Everything that can happen to the module after its initialisation.\<close>

inductive uart_run :: "'w uart_env \<Rightarrow> debug_uart \<times> 'w \<Rightarrow> bool" for env where
  initialised: "debugUartInit env (debug_uart_new, w) = Some uw \<Longrightarrow> uart_run env uw"
| service: "uart_run env uw \<Longrightarrow> uart_run env (debugUartService env uw)"
| written: "uart_run env uw \<Longrightarrow> uart_write env fd bs uw = (r, uw') \<Longrightarrow> uart_run env uw'"
| read: "uart_run env uw \<Longrightarrow> uart_read env fd n uw = Some (k, bytes, uw') \<Longrightarrow> uart_run env uw'"
| error: "uart_run env uw \<Longrightarrow> uart_run env (uartErroHandler env uw)"
| outside: "uart_run env (u, w) \<Longrightarrow> uart_run env (u, w')"

lemma uart_run_inv:
  assumes "uart_run env uw" and "bounded_receive env"
  shows "uart_inv (fst uw)"
  using assms
proof (induction rule: uart_run.induct)
  case (initialised w uw)
  have "uart_inv debug_uart_new" by (simp add: uart_inv_def debug_uart_new_def dma_ok_def)
  then show ?case using debugUartInit_keeps [of env debug_uart_new w "fst uw" "snd uw"] initialised.hyps by simp
next
  case (service uw)
  then show ?case using debugUartService_keeps [of env "fst uw" "snd uw"] by simp
next
  case (written uw fd bs r uw')
  then show ?case using uart_write_keeps [of env fd bs "fst uw" "snd uw" r "fst uw'" "snd uw'"] by simp
next
  case (read uw fd n k bytes uw')
  then show ?case using uart_read_keeps [of env fd n "fst uw" "snd uw" k bytes "fst uw'" "snd uw'"] by simp
qed (auto intro: inv_intros)

section \<open>Reception\<close>

lemma take_last_Nil_iff: "0 < n \<Longrightarrow> take_last n xs = [] \<longleftrightarrow> xs = []"
  by (cases xs) (auto simp: take_last_def)

text \<open>An interrupt that is not taken changes nothing; otherwise the handler leaves the receive buffer alone.\<close>

lemma debugUartTx_string_state [simp]: "fst (debugUartTx_string env t uw) = fst uw"
  by (cases uw) (auto simp: debugUartTx_string_def debugUartTx_def Let_def split: prod.splits)

lemma uart_call_state [simp]:
  "sRxBuffer (fst (uart_call env op uw)) = sRxBuffer (fst uw)"
  "sUartError (fst (uart_call env op uw)) = sUartError (fst uw)"
  "sConfig (fst (uart_call env op uw)) = sConfig (fst uw)"
  "errno (fst (uart_call env op uw)) = errno (fst uw)"
  by (cases uw, simp add: uart_call_def)+

lemma uartErroHandler_state:
  "sRxBuffer (fst (uartErroHandler env uw)) = sRxBuffer (fst uw)"
  "sUartError (fst (uartErroHandler env uw))"
  by (simp_all add: uartErroHandler_def Let_def split: prod.splits) (metis fst_conv uart_call_state)+

lemma interrupt_point_buffer: "sRxBuffer (fst (interrupt_point env uw)) = sRxBuffer (fst uw)"
  by (cases uw) (auto simp: interrupt_point_def uartErroHandler_state split: prod.splits)

text \<open>The world after the first interrupt point and the reading of the counter, and the counter.\<close>

definition counter_read :: "'w uart_env \<Rightarrow> debug_uart \<times> 'w \<Rightarrow> int \<times> 'w" where
  "counter_read env uw = DMA_GET_COUNTER env (snd (interrupt_point env uw))"

text \<open>The buffer as a round of \<open>_read\<close> sees it.\<close>

definition buffer_seen :: "'w uart_env \<Rightarrow> debug_uart \<times> 'w \<Rightarrow> DmaRxBuffer" where
  "buffer_seen env uw =
     (updatePointers (fst (counter_read env uw)) (sRxBuffer (fst uw)))
       \<lparr>mBuffer := rx_memory env (uart_effect env (InvalidateDCache sBufferSize) (snd (counter_read env uw)))\<rparr>"

lemma readRound_result:
  assumes "copy n (buffer_seen env uw) = (k, bytes, b)"
  shows "if 0 < k
    then \<exists>u w. readRound env n uw = (Some (k, bytes), u, w) \<and> sRxBuffer u = b
    else \<exists>r u w. readRound env n uw = (r, u, w) \<and> sRxBuffer u = b \<and>
      (if sUartError u then r = Some (-1, []) \<and> errno u = EIO else r = None)"
proof -
  obtain u1 w1 where i: "interrupt_point env uw = (u1, w1)" by fastforce
  have b1: "sRxBuffer u1 = sRxBuffer (fst uw)" using interrupt_point_buffer [of env uw] i by simp
  obtain c w2 where d: "DMA_GET_COUNTER env w1 = (c, w2)" by fastforce
  have seen: "buffer_seen env uw = (updatePointers c (sRxBuffer u1))
      \<lparr>mBuffer := rx_memory env (uart_effect env (InvalidateDCache sBufferSize) w2)\<rparr>"
    by (simp add: buffer_seen_def counter_read_def i d b1)
  let ?u = "(u1\<lparr>sRxBuffer := updatePointers c (sRxBuffer u1)\<rparr>)
      \<lparr>uart_ops := uart_ops u1 @ [InvalidateDCache sBufferSize], sRxBuffer := b\<rparr>"
  let ?w = "uart_effect env (InvalidateDCache sBufferSize) w2"
  have cp: "copy n ((updatePointers c (sRxBuffer u1))\<lparr>mBuffer := rx_memory env ?w\<rparr>) = (k, bytes, b)"
    using assms seen by simp
  show ?thesis
  proof (cases "0 < k")
    case True
    then show ?thesis by (simp add: readRound_def i d cp uart_call_def)
  next
    case False
    obtain u3 w3 where p: "interrupt_point env (?u, ?w) = (u3, w3)" by fastforce
    have "sRxBuffer u3 = b" using interrupt_point_buffer [of env "(?u, ?w)"] p by simp
    moreover have "readRound env n uw =
        (if sUartError u3 then (Some (-1, []), u3\<lparr>errno := EIO\<rparr>, w3) else (None, u3, w3))"
      using False p by (simp add: readRound_def i d cp uart_call_def)
    ultimately show ?thesis using False by (cases "sUartError u3") simp_all
  qed
qed

lemma readLoop_first:
  assumes "readRound env n uw = (Some (r, bytes), u, w)"
  shows "readLoop env n uw = Some (r, bytes, u, w)"
  by (subst readLoop.simps) (simp add: assms)

lemma uart_read_first:
  assumes "useStreamRx (sConfig u)"
    and "copy n (buffer_seen env (u\<lparr>sUartError := False\<rparr>, w)) = (k, bytes, b)" and "0 < k"
  shows "\<exists>u' w'. uart_read env STDIN_FILENO n (u, w) = Some (k, bytes, u', w') \<and> sRxBuffer u' = b"
  using readRound_result [OF assms(2)] assms(1,3)
  by (auto simp: uart_read_def intro!: readLoop_first)

text \<open>Without an interrupt and with the documented counter, the buffer is as after receiving the bytes.\<close>

lemma buffer_seen_receive:
  assumes "error_interrupt env w = (False, w1)" and "DMA_GET_COUNTER env w1 = (dma_counter bs (sRxBuffer u), w2)"
    and "rx_memory env (uart_effect env (InvalidateDCache sBufferSize) w2) = mBuffer (dma_write bs (sRxBuffer u))"
  shows "buffer_seen env (u, w) = rx_receive bs (sRxBuffer u)"
proof -
  have "(updatePointers c b)\<lparr>mBuffer := m\<rparr> = updatePointers c (b\<lparr>mBuffer := m\<rparr>)" for c b m
    by (simp add: updatePointers_def Let_def)
  then show ?thesis
    using assms
    by (simp add: buffer_seen_def counter_read_def interrupt_point_def rx_receive_def dma_write_def)
qed

section \<open>An example\<close>

text \<open>A stream buffer of 1024 bytes as the world; the DMA has stored nothing and no interrupt occurs.\<close>

definition mini_uart :: "bool \<Rightarrow> (u8 list) uart_env" where
  "mini_uart err = \<lparr>pdMS_TO_TICKS = (\<lambda>ms. ms), xSemaphoreTake = (\<lambda>t w. (True, w)),
     xSemaphoreGive = (\<lambda>w. (True, w)),
     xStreamBufferSend = (\<lambda>bs t w. (min (length bs) (1024 - length w), w @ take (1024 - length w) bs)),
     xStreamBufferReceive = (\<lambda>n t w. (take n w, drop n w)), busy_tx = (\<lambda>w. False),
     DMA_GET_COUNTER = (\<lambda>w. (if err then 128 else 125, w)), rx_memory = (\<lambda>w. mBuffer (dma_write [65, 66, 67] DmaRxBuffer_new)),
     dma_error_code = (\<lambda>w. 0), uart_error_code = (\<lambda>w. 8), HAL_UART_Init = (\<lambda>i w. (HAL_OK, w)),
     HAL_DMA_Init = (\<lambda>i w. (HAL_OK, w)), HAL_UART_Receive = (\<lambda>w. ((HAL_OK, 65), w)),
     error_interrupt = (\<lambda>w. (err, w)), uart_effect = (\<lambda>op w. w)\<rparr>"

lemma mini_stream: "stream_laws (mini_uart err) (\<lambda>w. w)"
  by (auto simp: stream_laws_def mini_uart_def min_def)

section \<open>Properties\<close>

text \<open>
  C12. Output keeps its order: over any run of writes and services, what has been handed to the DMA
  followed by what waits in the stream buffer is exactly what \<open>_write\<close> has reported as written.
\<close>

theorem uart_output_in_order:
  assumes "stream_laws env content" and "content w = []" and "output_run env es (debug_uart_new, w) = (out, u, w')"
  shows "transmitted u @ content w' = out"
proof -
  have "tx_buffer_ok debug_uart_new" and "transmitted debug_uart_new = []"
    by (simp_all add: tx_buffer_ok_def debug_uart_new_def DebugUartConfig_new_def transmitted_def)
  then show ?thesis using output_run_stream [OF assms(1) _ assms(3)] assms(2) by simp
qed

theorem uart_output_in_order_witness:
  "\<exists>out u w'. output_run (mini_uart False) [Write_event False [104, 105], Service_event, Write_event True [33]]
      (debug_uart_new, []) = (out, u, w') \<and> transmitted u @ w' = out"
  using uart_output_in_order [OF mini_stream, of "[]"] by (metis prod_cases3)

text \<open>
  C13. The DMA sends what the program wrote: however initialisation, output, input and error interrupts interleave, each
  block that is handed to the DMA is not empty, fits the transmit buffer, and is preceded directly by
  writing back the whole buffer from the data cache.
\<close>

theorem uart_dma_coherent:
  assumes "bounded_receive env" and "uart_run env (u, w)"
    and "i < length (uart_ops u)" and "uart_ops u ! i = UART_Transmit_DMA bs"
  shows "0 < i \<and> uart_ops u ! (i - 1) = CleanDCache 64 \<and> 0 < length bs \<and> length bs \<le> 64"
  using uart_run_inv [OF assms(2,1)] assms(3,4) by (simp add: uart_inv_def dma_ok_def)

lemma mini_init:
  assumes "debugUartInit (mini_uart e) (u, w) = Some (u', w')"
  shows "w' = w \<and> sTxBuffer1 u' = sTxBuffer1 u"
proof -
  have "fold (\<lambda>op w. w) cs w = w" for cs :: "uart_op list" and w :: "u8 list" by (induction cs) auto
  then show ?thesis
    using assms
    by (auto simp: debugUartInit_def uart_calls_effect uart_call_def Let_def mini_uart_def simp del: fold_simps
        split: if_splits)
qed

theorem uart_dma_coherent_witness:
  "\<exists>u w i. uart_run (mini_uart False) (u, w) \<and> uart_ops u ! i = UART_Transmit_DMA [104, 105] \<and>
    uart_ops u ! (i - 1) = CleanDCache 64"
proof -
  let ?env = "mini_uart False"
  obtain u w where init: "debugUartInit ?env (debug_uart_new, [104, 105]) = Some (u, w)"
    using debugUartInit_returns [of ?env debug_uart_new "[104, 105]"] by (auto simp: mini_uart_def)
  then have w: "w = [104, 105]" "length (sTxBuffer1 u) = 64"
    using mini_init [OF init] by (simp_all add: debug_uart_new_def)
  obtain u1 w1 where s: "debugUartService ?env (u, w) = (u1, w1)" by fastforce
  then have ops: "uart_ops u1 = uart_ops u @ [CleanDCache 64, UART_Transmit_DMA [104, 105]]"
    using w by (auto simp: debugUartService_def StreamBuffer_receive_def mini_uart_def uart_call_def Let_def)
  have run: "uart_run ?env (u1, w1)"
    using uart_run.service [OF uart_run.initialised [OF init]] s by simp
  let ?i = "Suc (length (uart_ops u))"
  have "uart_ops u1 ! ?i = UART_Transmit_DMA [104, 105]" and "?i < length (uart_ops u1)"
    by (simp_all add: ops nth_append)
  moreover have "bounded_receive ?env" by (simp add: bounded_receive_def mini_uart_def)
  ultimately have "uart_ops u1 ! (?i - 1) = CleanDCache 64"
    using uart_dma_coherent [OF _ run] by blast
  with run \<open>uart_ops u1 ! ?i = _\<close> show ?thesis by blast
qed

text \<open>
  C14. \<open>_read\<close> on standard input, in streaming mode and for a positive count, implements a fetch from a
  queue of 128 bytes. Suppose that the buffer is consistent, that the counter and the memory read are those of a
  DMA that has stored fewer than 128 bytes since the pointers were last updated,
  that these or the bytes left from before are not none, and that the error interrupt is not taken before
  the counter is read. Then the first round of the loop returns at least one byte and at most as many as
  asked for, the oldest first, and the rest stays for the next call. Of more than 128 unread bytes only the
  last 128 are kept, the older ones are lost.
\<close>

theorem uart_read_fetches:
  assumes "useStreamRx (sConfig u)" and "rx_inv (sRxBuffer u)" and "0 < n" and "length bs < 128"
    and "rx_content (sRxBuffer u) @ bs \<noteq> []"
    and "error_interrupt env w = (False, w1)" and "DMA_GET_COUNTER env w1 = (dma_counter bs (sRxBuffer u), w2)"
    and "rx_memory env (uart_effect env (InvalidateDCache sBufferSize) w2) = mBuffer (dma_write bs (sRxBuffer u))"
  shows "\<exists>k bytes u' w'. uart_read env STDIN_FILENO n (u, w) = Some (k, bytes, u', w') \<and>
    0 < k \<and> k \<le> n \<and> k = int (length bytes) \<and> rx_inv (sRxBuffer u') \<and>
    bytes @ rx_content (sRxBuffer u') = take_last 128 (rx_content (sRxBuffer u) @ bs)"
proof -
  let ?q = "rx_receive bs (sRxBuffer u)"
  obtain k bytes b where c: "copy n ?q = (k, bytes, b)" by (metis prod_cases3)
  have inv: "rx_inv ?q" by (rule rx_receive_inv) (rule assms(2))
  have content: "rx_content ?q = take_last 128 (rx_content (sRxBuffer u) @ bs)"
    by (rule rxq.content_receive) (use assms(2,4) in simp_all)
  then have "rx_content ?q \<noteq> []" using assms(5) take_last_Nil_iff [of 128 "rx_content (sRxBuffer u) @ bs"] by simp
  then have pos: "0 < k" using copy_fst_iff [OF inv, of n] assms(3) c by simp
  have fetch: "bytes @ rx_content b = rx_content ?q" "k = int (length bytes)" "k \<le> n" "rx_inv b"
    using rxq.fetch_splits [OF inv, of n] rxq.fetch_count [OF inv, of n] rxq.fetch_bound [OF inv, of n]
      rxq.inv_fetch [OF inv, of n] assms(3) c by simp_all
  have "buffer_seen env (u\<lparr>sUartError := False\<rparr>, w) = ?q"
    using buffer_seen_receive [OF assms(6), of bs "u\<lparr>sUartError := False\<rparr>" w2] assms(7,8) by simp
  then obtain u' w' where "uart_read env STDIN_FILENO n (u, w) = Some (k, bytes, u', w')" "sRxBuffer u' = b"
    using uart_read_first [OF assms(1) _ pos] c by metis
  then show ?thesis using pos fetch content by auto
qed

theorem uart_read_fetches_witness:
  "\<exists>k bytes u' w'. uart_read (mini_uart False) STDIN_FILENO 2 (debug_uart_new, []) = Some (k, bytes, u', w') \<and>
    0 < k \<and> k \<le> 2 \<and> bytes @ rx_content (sRxBuffer u') = [65, 66, 67]"
proof -
  have "DMA_GET_COUNTER (mini_uart False) [] = (dma_counter [65, 66, 67] (sRxBuffer debug_uart_new), [])"
    by (simp add: mini_uart_def dma_counter_def sBufferSize_def debug_uart_new_def DmaRxBuffer_new_def)
  moreover have "take_last 128 (rx_content (sRxBuffer debug_uart_new) @ [65, 66, 67]) = [65, 66, 67]"
    by (simp add: take_last_def debug_uart_new_def rx_content_new)
  ultimately show ?thesis
    using uart_read_fetches [of debug_uart_new 2 "[65, 66, 67]" "mini_uart False" "[]" "[]" "[]"] rx_inv_new
    by (fastforce simp: debug_uart_new_def DebugUartConfig_new_def mini_uart_def)
qed

text \<open>
  C40. A UART error replays stale data: the error handler restarts the DMA at the beginning of the buffer
  but leaves the pointers as they are. So a \<open>_read\<close> in streaming mode and for a positive count that finds a consistent buffer with nothing unread while
  the tail is not at the start of the buffer, and during which an error interrupt restarts the DMA so that
  the counter is 128 again, does not report the error: it takes the distance from the old tail to the end
  of the buffer for received bytes, and returns whatever is there, although not a single byte has arrived.
  (With the tail at 0, as after the start, the counter 128 changes nothing.)
\<close>

theorem uart_error_replays_stale_bytes:
  assumes "useStreamRx (sConfig u)" and "rx_inv (sRxBuffer u)" and "0 < n"
    and "rx_content (sRxBuffer u) = []" and "mTail (sRxBuffer u) \<noteq> 0"
    and "error_interrupt env w = (True, w1)"
    and "fst (counter_read env (u\<lparr>sUartError := False\<rparr>, w)) = 128"
  shows "\<exists>bytes u' w'. uart_read env STDIN_FILENO n (u, w) =
    Some (min (128 - mTail (sRxBuffer u)) n, bytes, u', w') \<and> 0 < min (128 - mTail (sRxBuffer u)) n"
proof -
  let ?b = "sRxBuffer u"
  have size: "mSize ?b = 0" using assms(2,4) length_rx_content [of ?b] by (simp add: rx_inv_def)
  have "mHead ?b mod 128 = mHead ?b" using assms(2) by (simp add: rx_inv_def)
  then have ht: "mHead ?b = mTail ?b" using assms(2) size by (simp add: rx_inv_def)
  have t: "0 < mTail ?b" "mTail ?b < 128" using assms(2,5) by (simp_all add: rx_inv_def)
  obtain m where seen: "buffer_seen env (u\<lparr>sUartError := False\<rparr>, w) = (updatePointers 128 ?b)\<lparr>mBuffer := m\<rparr>"
    using assms(7) by (simp add: buffer_seen_def)
  have "updatePointers 128 ?b = ?b\<lparr>mSize := 128 - mTail ?b, mTail := 0\<rparr>"
    using t size by (simp add: updatePointers_def sBufferSize_def)
  then have "fst (copy n (buffer_seen env (u\<lparr>sUartError := False\<rparr>, w))) = min (128 - mTail ?b) n"
    using t ht by (simp add: seen copy_def availableAtEnd_def sBufferSize_def Let_def)
  then obtain bytes b where c: "copy n (buffer_seen env (u\<lparr>sUartError := False\<rparr>, w)) =
      (min (128 - mTail ?b) n, bytes, b)" by (metis prod.collapse)
  have pos: "0 < min (128 - mTail ?b) n" using t assms(3) by simp
  show ?thesis using uart_read_first [OF assms(1) c pos] pos by blast
qed

theorem uart_error_replays_stale_bytes_witness:
  "\<exists>bytes u' w'. uart_read (mini_uart True) STDIN_FILENO 200
      (debug_uart_new\<lparr>sRxBuffer := DmaRxBuffer_new\<lparr>mHead := 3, mTail := 3\<rparr>\<rparr>, []) = Some (125, bytes, u', w')"
proof -
  let ?u = "debug_uart_new\<lparr>sRxBuffer := DmaRxBuffer_new\<lparr>mHead := 3, mTail := 3\<rparr>\<rparr>"
  have "fst (counter_read (mini_uart True) (?u\<lparr>sUartError := False\<rparr>, [])) = 128"
    by (simp add: counter_read_def mini_uart_def)
  moreover have "rx_content (sRxBuffer ?u) = []"
    using length_rx_content [of "sRxBuffer ?u"] by (simp add: DmaRxBuffer_new_def del: length_rx_content)
  ultimately show ?thesis
    using uart_error_replays_stale_bytes [of ?u 200 "mini_uart True" "[]" "[]"]
    by (fastforce simp: debug_uart_new_def DebugUartConfig_new_def DmaRxBuffer_new_def rx_inv_def mini_uart_def)
qed

end
