(* ===== verification/Memory_Map.thy ===== *)
theory Memory_Map
  imports Hal_Types
begin

text \<open>
  The regions of the memory protection unit, \<open>Base::mpuConfig\<close> in \<open>src/stm32h7/Base.cpp\<close>, and what they
  mean for an access: which addresses are blocked, and which the data cache leaves alone. The DMA
  shares the second kind with the program.
\<close>

section \<open>Model\<close>

datatype mpu_access = MPU_REGION_NO_ACCESS | MPU_REGION_FULL_ACCESS

text \<open>\<open>SizeLog\<close> is the size of a region as a power of two; the flags are those of the HAL's structure.\<close>

record mpu_region =
  Enable :: bool
  BaseAddress :: u32
  SizeLog :: nat
  AccessPermission :: mpu_access
  IsBufferable :: bool
  IsCacheable :: bool
  IsShareable :: bool
  Number :: nat
  TypeExtField :: nat
  SubRegionDisable :: u8
  DisableExec :: bool

datatype mpu_op = MPU_Disable | MPU_ConfigRegion mpu_region | MPU_Enable_PrivilegedDefault

definition LWIP_RAM_HEAP_POINTER :: u32 where "LWIP_RAM_HEAP_POINTER = 0x30044000"

definition MEM_SIZE :: nat where "MEM_SIZE = 10 * 1024"

definition everything :: mpu_region where
  "everything = \<lparr>Enable = True, BaseAddress = 0, SizeLog = 32,
     AccessPermission = MPU_REGION_NO_ACCESS, IsBufferable = False, IsCacheable = False,
     IsShareable = True, Number = 0, TypeExtField = 0, SubRegionDisable = 0x87, DisableExec = True\<rparr>"

definition descriptors :: mpu_region where
  "descriptors = \<lparr>Enable = True, BaseAddress = 0x30000000, SizeLog = 11,
     AccessPermission = MPU_REGION_FULL_ACCESS, IsBufferable = True, IsCacheable = False,
     IsShareable = False, Number = 1, TypeExtField = 0, SubRegionDisable = 0, DisableExec = False\<rparr>"

definition heap_region :: mpu_region where
  "heap_region = \<lparr>Enable = True, BaseAddress = LWIP_RAM_HEAP_POINTER, SizeLog = 14,
     AccessPermission = MPU_REGION_FULL_ACCESS, IsBufferable = False, IsCacheable = False,
     IsShareable = True, Number = 2, TypeExtField = 1, SubRegionDisable = 0, DisableExec = False\<rparr>"

definition mpuConfig :: "mpu_op list" where
  "mpuConfig = [MPU_Disable, MPU_ConfigRegion everything, MPU_ConfigRegion descriptors,
     MPU_ConfigRegion heap_region, MPU_Enable_PrivilegedDefault]"

section \<open>The protection unit\<close>

text \<open>
  The architecture's rule: a region covers the addresses of its aligned block, less those of its eight
  equal parts whose bit of \<open>SubRegionDisable\<close> is set; of the enabled regions that cover an address
  the one with the highest number decides; where none does, privileged code sees the default
  memory map.
\<close>

definition covers :: "mpu_region \<Rightarrow> u32 \<Rightarrow> bool" where
  "covers r a \<longleftrightarrow> Enable r \<and> unat a div 2 ^ SizeLog r = unat (BaseAddress r) div 2 ^ SizeLog r \<and>
     \<not> bit (SubRegionDisable r) (unat a mod 2 ^ SizeLog r div 2 ^ (SizeLog r - 3))"

fun mpu_run :: "mpu_op list \<Rightarrow> mpu_region list \<times> bool \<Rightarrow> mpu_region list \<times> bool" where
  "mpu_run [] s = s"
| "mpu_run (MPU_Disable # ops) (rs, on) = mpu_run ops (rs, False)"
| "mpu_run (MPU_ConfigRegion r # ops) (rs, on) = mpu_run ops (r # filter (\<lambda>r'. Number r' \<noteq> Number r) rs, on)"
| "mpu_run (MPU_Enable_PrivilegedDefault # ops) (rs, on) = mpu_run ops (rs, True)"

text \<open>The number of the region that decides, \<open>None\<close> for the default map.\<close>

definition deciding :: "mpu_region list \<Rightarrow> u32 \<Rightarrow> mpu_region option" where
  "deciding rs a =
     (let cs = filter (\<lambda>r. covers r a) rs in
      find (\<lambda>r. \<forall>r'\<in>set cs. Number r' \<le> Number r) cs)"

definition mpu_map :: "u32 \<Rightarrow> mpu_region option" where
  "mpu_map a = (case mpu_run mpuConfig ([], False) of (rs, on) \<Rightarrow> if on then deciding rs a else None)"

section \<open>Lemmas\<close>

lemma div_eq_iff_range: "0 < k \<Longrightarrow> n div k = m \<longleftrightarrow> m * k \<le> n \<and> n < Suc m * k" for n k m :: nat
  by (metis div_less_iff_less_mult div_nat_eqI less_Suc_eq less_eq_div_iff_mult_less_eq mult.commute order_refl le_less_Suc_eq nat_less_le)

lemma subregions_0x87: "k < 8 \<Longrightarrow> \<not> bit (0x87 :: u8) k \<longleftrightarrow> 3 \<le> k \<and> k < 7" for k :: nat
proof -
  assume "k < 8"
  then consider "k = 0" | "k = 1" | "k = 2" | "k = 3" | "k = 4" | "k = 5" | "k = 6" | "k = 7" by linarith
  then show ?thesis by cases (simp_all add: bit_iff_odd)
qed

lemma mpu_regions: "mpu_run mpuConfig ([], False) = ([heap_region, descriptors, everything], True)"
  by (simp add: mpuConfig_def everything_def descriptors_def heap_region_def)

lemma covers_everything: "covers everything a \<longleftrightarrow> 0x60000000 \<le> unat a \<and> unat a < 0xE0000000"
proof -
  have lt: "unat a < 2 ^ 32" using unsigned_less [of a, where ?'a = nat] by simp
  have k: "unat a div 2 ^ 29 < 8" using lt by (simp add: less_mult_imp_div_less)
  have "covers everything a \<longleftrightarrow> 3 \<le> unat a div 2 ^ 29 \<and> unat a div 2 ^ 29 < 7"
    using lt subregions_0x87 [OF k] by (simp add: covers_def everything_def)
  also have "\<dots> \<longleftrightarrow> 0x60000000 \<le> unat a \<and> unat a < 0xE0000000"
    by (simp add: less_eq_div_iff_mult_less_eq div_less_iff_less_mult)
  finally show ?thesis .
qed

lemma covers_descriptors: "covers descriptors a \<longleftrightarrow> 0x30000000 \<le> unat a \<and> unat a < 0x30000800"
proof -
  have "covers descriptors a \<longleftrightarrow> unat a div 2 ^ 11 = 0x60000"
    by (simp add: covers_def descriptors_def)
  also have "\<dots> \<longleftrightarrow> 0x30000000 \<le> unat a \<and> unat a < 0x30000800"
    by (subst div_eq_iff_range) simp_all
  finally show ?thesis .
qed

lemma covers_heap: "covers heap_region a \<longleftrightarrow> 0x30044000 \<le> unat a \<and> unat a < 0x30048000"
proof -
  have "covers heap_region a \<longleftrightarrow> unat a div 2 ^ 14 = 0xC011"
    by (simp add: covers_def heap_region_def LWIP_RAM_HEAP_POINTER_def)
  also have "\<dots> \<longleftrightarrow> 0x30044000 \<le> unat a \<and> unat a < 0x30048000"
    by (subst div_eq_iff_range) simp_all
  finally show ?thesis .
qed

lemma mpu_map_cases:
  "mpu_map a =
     (if 0x60000000 \<le> unat a \<and> unat a < 0xE0000000 then Some everything
      else if 0x30000000 \<le> unat a \<and> unat a < 0x30000800 then Some descriptors
      else if 0x30044000 \<le> unat a \<and> unat a < 0x30048000 then Some heap_region else None)"
  by (simp add: mpu_map_def mpu_regions deciding_def Let_def covers_everything covers_descriptors covers_heap)

section \<open>Properties\<close>

text \<open>
  The protection unit blocks exactly the addresses of external memory, 0x60000000 to 0xDFFFFFFF: code, the
  internal memories, the peripherals and the system registers stay accessible.
\<close>

theorem mpu_blocks_external_memory:
  "(\<exists>r. mpu_map a = Some r \<and> AccessPermission r = MPU_REGION_NO_ACCESS) \<longleftrightarrow>
    0x60000000 \<le> unat a \<and> unat a < 0xE0000000"
  by (simp add: mpu_map_cases everything_def descriptors_def heap_region_def)

text \<open>
  C18. What the Ethernet DMA shares with the program through descriptors and transmit buffers is not cached:
  the four receive descriptors at 0x30000000 and the four transmit descriptors at 0x30000400, where the
  linker script puts them, of 24 bytes each, and lwIP's whole heap lie in regions with full access and without cache.
\<close>

theorem dma_memory_not_cached:
  assumes "i < 4 * 24 \<and> a = 0x30000000 + of_nat i \<or> i < 4 * 24 \<and> a = 0x30000400 + of_nat i \<or>
    i < MEM_SIZE \<and> a = LWIP_RAM_HEAP_POINTER + of_nat i"
  shows "\<exists>r. mpu_map a = Some r \<and> AccessPermission r = MPU_REGION_FULL_ACCESS \<and> \<not> IsCacheable r"
proof -
  have i: "i < 10240" using assms by (auto simp: MEM_SIZE_def)
  have "unat (b + of_nat i) = unat b + i" if "unat b + i < 2 ^ 32" for b :: u32
    using that i by (simp add: unat_plus_exact unat_of_nat take_bit_nat_eq_self)
  then have "unat a = 0x30000000 + i \<and> i < 96 \<or> unat a = 0x30000400 + i \<and> i < 96 \<or>
      unat a = 0x30044000 + i \<and> i < 10240"
    using assms by (auto simp: MEM_SIZE_def LWIP_RAM_HEAP_POINTER_def)
  then show ?thesis
    by (auto simp: mpu_map_cases descriptors_def heap_region_def)
qed

theorem dma_memory_not_cached_witness:
  "\<exists>r. mpu_map 0x30046000 = Some r \<and> AccessPermission r = MPU_REGION_FULL_ACCESS \<and> \<not> IsCacheable r"
  using dma_memory_not_cached [of 8192 "0x30046000"] by (simp add: MEM_SIZE_def LWIP_RAM_HEAP_POINTER_def)

text \<open>
  The receive buffers are not in any of the regions: the pool that the linker script puts at 0x30000800, of twelve
  buffers with at least 1024 bytes each, keeps the default attributes, so it is cached, and the driver
  has to invalidate the cache for each buffer.
\<close>

theorem rx_pool_keeps_default_map:
  assumes "i < 12 * 1024"
  shows "mpu_map (0x30000800 + of_nat i) = None"
proof -
  have "unat (0x30000800 + of_nat i :: u32) = 0x30000800 + i"
    using assms by (simp add: unat_plus_exact unat_of_nat take_bit_nat_eq_self)
  with assms show ?thesis by (simp add: mpu_map_cases)
qed

theorem rx_pool_keeps_default_map_witness: "mpu_map 0x30000900 = None"
  using rx_pool_keeps_default_map [of 256] by simp

end
