(* ===== verification/Boot.thy ===== *)
theory Boot
  imports Memory_Map
begin

text \<open>
  From reset to \<open>main\<close>: the startup code of \<open>src/stm32h7/Startup.cpp\<close>, the registers that
  \<open>System_Init\<close> of \<open>src/stm32h7/System.cpp\<close> puts into a known state, the clock tree of
  \<open>Base::systemClockConfig\<close> in \<open>src/stm32h7/Base.cpp\<close>, and the tick of \<open>src/stm32h7/Timebase.cpp\<close>.
\<close>

section \<open>Model\<close>

subsection \<open>System registers\<close>

record system_regs =
  CPACR :: u32
  RCC_CR :: u32
  RCC_CFGR :: u32
  D1CFGR :: u32
  D2CFGR :: u32
  D3CFGR :: u32
  PLLCKSELR :: u32
  PLLCFGR :: u32
  PLL1DIVR :: u32
  PLL1FRACR :: u32
  PLL2DIVR :: u32
  PLL2FRACR :: u32
  PLL3DIVR :: u32
  PLL3FRACR :: u32
  RCC_CIER :: u32
  DBGMCU_IDCODE :: u32
  AXI_TARG7 :: u32
  FMC_BTCR0 :: u32
  VTOR :: u32
  d2sram1_clock :: bool
  d2sram2_clock :: bool

definition sVectTabOffset :: u32 where "sVectTabOffset = 0"

text \<open>Values of the device's header.\<close>

definition RCC_CR_HSION :: u32 where "RCC_CR_HSION = 1"
definition FLASH_BANK1_BASE :: u32 where "FLASH_BANK1_BASE = 0x08000000"

definition System_Init :: "system_regs \<Rightarrow> system_regs" where
  "System_Init r =
     (let r = r\<lparr>CPACR := CPACR r OR (push_bit 20 3 OR push_bit 22 3)\<rparr>;
        r = r\<lparr>RCC_CR := RCC_CR r OR RCC_CR_HSION\<rparr>;
        r = r\<lparr>RCC_CFGR := 0\<rparr>;
        r = r\<lparr>RCC_CR := RCC_CR r AND 0xEAF6ED7F\<rparr>;
        r = r\<lparr>D1CFGR := 0, D2CFGR := 0, D3CFGR := 0, PLLCKSELR := 0, PLLCFGR := 0, PLL1DIVR := 0,
              PLL1FRACR := 0, PLL2DIVR := 0, PLL2FRACR := 0, PLL3DIVR := 0, PLL3FRACR := 0\<rparr>;
        r = r\<lparr>RCC_CR := RCC_CR r AND 0xFFFBFFFF\<rparr>;
        r = r\<lparr>RCC_CIER := 0\<rparr>;
        r = (if DBGMCU_IDCODE r AND 0xFFFF0000 < 0x20000000 then r\<lparr>AXI_TARG7 := 1\<rparr> else r);
        r = r\<lparr>FMC_BTCR0 := 0x000030D2\<rparr>;
        r = r\<lparr>VTOR := FLASH_BANK1_BASE OR sVectTabOffset\<rparr>
      in r\<lparr>d2sram1_clock := True, d2sram2_clock := True\<rparr>)"

subsection \<open>Startup\<close>

text \<open>The symbols of the linker script, and the constructors of the static objects in their order.\<close>

record linker =
  sidata :: nat
  sdata :: nat
  edata :: nat
  sbss :: nat
  ebss :: nat

record machine =
  memory :: "nat \<Rightarrow> u8"
  registers :: system_regs

fun copy_bytes :: "nat \<Rightarrow> nat \<Rightarrow> nat \<Rightarrow> (nat \<Rightarrow> u8) \<Rightarrow> nat \<Rightarrow> u8" where
  "copy_bytes 0 src dst m = m"
| "copy_bytes (Suc n) src dst m = copy_bytes n (src + 1) (dst + 1) (m(dst := m src))"

fun fill_bytes :: "nat \<Rightarrow> nat \<Rightarrow> u8 \<Rightarrow> (nat \<Rightarrow> u8) \<Rightarrow> nat \<Rightarrow> u8" where
  "fill_bytes 0 dst v m = m"
| "fill_bytes (Suc n) dst v m = fill_bytes n (dst + 1) v (m(dst := v))"

definition init_sections :: "linker \<Rightarrow> machine \<Rightarrow> machine" where
  "init_sections ld s =
     (let n = edata ld - sdata ld;
        s = s\<lparr>memory := copy_bytes n (sidata ld) (sdata ld) (memory s)\<rparr>
      in s\<lparr>memory := fill_bytes (ebss ld - sbss ld) (sbss ld) 0 (memory s)\<rparr>)"

text \<open>\<open>main\<close> gets the machine after the constructors; the code after the call never ends.\<close>

definition Reset_Handler :: "linker \<Rightarrow> (machine \<Rightarrow> machine) list \<Rightarrow> (machine \<Rightarrow> 'r) \<Rightarrow> machine \<Rightarrow> 'r" where
  "Reset_Handler ld init_array main s =
     (let s = init_sections ld s;
        s = s\<lparr>registers := System_Init (registers s)\<rparr>;
        s = fold (\<lambda>pf s. pf s) init_array s
      in main s)"

subsection \<open>Clocks\<close>

text \<open>Frequencies in Hz. \<open>HSE_VALUE\<close> is the crystal that \<open>stm32h7xx_hal_conf.h\<close> names.\<close>

definition HSE_VALUE :: nat where "HSE_VALUE = 8000000"

datatype vci_range = RCC_PLL1VCIRANGE_0 | RCC_PLL1VCIRANGE_1 | RCC_PLL1VCIRANGE_2 | RCC_PLL1VCIRANGE_3

record osc_init =
  HSEState :: bool
  HSIState :: bool
  CSIState :: bool
  PLLState :: bool
  PLLSourceHSE :: bool
  PLLM :: nat
  PLLN :: nat
  PLLFRACN :: nat
  PLLP :: nat
  PLLR :: nat
  PLLQ :: nat
  PLLVCOWIDE :: bool
  PLLRGE :: vci_range

record clk_init =
  SYSCLKSourcePLL :: bool
  SYSCLKDivider :: nat
  AHBCLKDivider :: nat
  APB3CLKDivider :: nat
  APB1CLKDivider :: nat
  APB2CLKDivider :: nat
  APB4CLKDivider :: nat

definition osc_settings :: osc_init where
  "osc_settings = \<lparr>HSEState = True, HSIState = False, CSIState = False, PLLState = True,
     PLLSourceHSE = True, PLLM = 5, PLLN = 160, PLLFRACN = 0, PLLP = 2, PLLR = 2, PLLQ = 4,
     PLLVCOWIDE = True, PLLRGE = RCC_PLL1VCIRANGE_2\<rparr>"

definition clk_settings :: clk_init where
  "clk_settings = \<lparr>SYSCLKSourcePLL = True, SYSCLKDivider = 1, AHBCLKDivider = 2, APB3CLKDivider = 2,
     APB1CLKDivider = 2, APB2CLKDivider = 2, APB4CLKDivider = 2\<rparr>"

datatype clock_op = ConfigSupply_LDO | VOLTAGESCALING_SCALE1 | D2SRAM3_CLK_ENABLE | CSI_ENABLE
  | SYSCFG_CLK_ENABLE | EnableCompensationCell

record 'w clock_env =
  PWR_FLAG_VOSRDY :: "'w \<Rightarrow> bool \<times> 'w"
  HAL_RCC_OscConfig :: "osc_init \<Rightarrow> 'w \<Rightarrow> hal_status \<times> 'w"
  HAL_RCC_ClockConfig :: "clk_init \<Rightarrow> nat \<Rightarrow> 'w \<Rightarrow> hal_status \<times> 'w"
  clock_effect :: "clock_op \<Rightarrow> 'w \<Rightarrow> 'w"

partial_function (option) await_vosrdy :: "'w clock_env \<Rightarrow> 'w \<Rightarrow> 'w option" where
  "await_vosrdy env w =
     (case PWR_FLAG_VOSRDY env w of (ready, w) \<Rightarrow> if ready then Some w else await_vosrdy env w)"

text \<open>\<open>None\<close> is one of the loops that do not end. The flash latency is 4 wait states.\<close>

definition systemClockConfig :: "'w clock_env \<Rightarrow> 'w \<Rightarrow> 'w option" where
  "systemClockConfig env w =
     (case await_vosrdy env (clock_effect env VOLTAGESCALING_SCALE1 (clock_effect env ConfigSupply_LDO w)) of
        None \<Rightarrow> None
      | Some w \<Rightarrow>
          let (ret, w) = HAL_RCC_OscConfig env osc_settings (clock_effect env D2SRAM3_CLK_ENABLE w)
          in if ret \<noteq> HAL_OK then None
             else let (ret, w) = HAL_RCC_ClockConfig env clk_settings 4 w
               in if ret \<noteq> HAL_OK then None
                  else Some (fold (clock_effect env) [CSI_ENABLE, SYSCFG_CLK_ENABLE, EnableCompensationCell] w))"

text \<open>The documented clock tree, for these settings and an oscillator of \<open>hse\<close> Hz.\<close>

definition pll_input :: "nat \<Rightarrow> nat" where "pll_input hse = hse div PLLM osc_settings"

definition vco :: "nat \<Rightarrow> nat" where "vco hse = pll_input hse * PLLN osc_settings"

definition sysclk :: "nat \<Rightarrow> nat" where
  "sysclk hse = vco hse div PLLP osc_settings div SYSCLKDivider clk_settings"

definition hclk :: "nat \<Rightarrow> nat" where "hclk hse = sysclk hse div AHBCLKDivider clk_settings"

definition pclk1 :: "nat \<Rightarrow> nat" where "pclk1 hse = hclk hse div APB1CLKDivider clk_settings"

text \<open>The frequencies of the reference clock that a range stands for.\<close>

fun in_range :: "vci_range \<Rightarrow> nat \<Rightarrow> bool" where
  "in_range RCC_PLL1VCIRANGE_0 f \<longleftrightarrow> 1000000 \<le> f \<and> f \<le> 2000000"
| "in_range RCC_PLL1VCIRANGE_1 f \<longleftrightarrow> 2000000 \<le> f \<and> f \<le> 4000000"
| "in_range RCC_PLL1VCIRANGE_2 f \<longleftrightarrow> 4000000 \<le> f \<and> f \<le> 8000000"
| "in_range RCC_PLL1VCIRANGE_3 f \<longleftrightarrow> 8000000 \<le> f \<and> f \<le> 16000000"

subsection \<open>The tick\<close>

datatype tick_op = SYSTICK_Config nat | SysTick_SetPriority nat nat

definition HAL_InitTick :: "nat \<Rightarrow> nat \<Rightarrow> tick_op list" where
  "HAL_InitTick hclk_freq TickPriority = [SYSTICK_Config (hclk_freq div 1000), SysTick_SetPriority TickPriority 0]"

record ticks =
  uwTick :: u32
  rtos_ticks :: nat
  tick_interrupt :: bool

definition HAL_SuspendTick :: "ticks \<Rightarrow> ticks" where "HAL_SuspendTick t = t\<lparr>tick_interrupt := False\<rparr>"

definition HAL_ResumeTick :: "ticks \<Rightarrow> ticks" where "HAL_ResumeTick t = t\<lparr>tick_interrupt := True\<rparr>"

text \<open>\<open>scheduler_started\<close> is the state of the scheduler not being \<open>taskSCHEDULER_NOT_STARTED\<close>.\<close>

definition SysTick_Handler :: "bool \<Rightarrow> ticks \<Rightarrow> ticks" where
  "SysTick_Handler scheduler_started t =
     (let t = t\<lparr>uwTick := uwTick t + 1\<rparr> in
      if scheduler_started then t\<lparr>rtos_ticks := rtos_ticks t + 1\<rparr> else t)"

section \<open>Lemmas\<close>

lemma copy_bytes_disjoint:
  assumes "src + n \<le> dst \<or> dst + n \<le> src"
  shows "copy_bytes n src dst m a = (if dst \<le> a \<and> a < dst + n then m (src + (a - dst)) else m a)"
  using assms
proof (induction n arbitrary: src dst m)
  case (Suc n)
  define m1 where "m1 = m(dst := m src)"
  have m1: "m1 b = (if b = dst then m src else m b)" for b by (simp add: m1_def)
  have "src + 1 + n \<le> dst + 1 \<or> dst + 1 + n \<le> src + 1" using Suc.prems by linarith
  from Suc.IH [OF this, of m1]
  have IH: "copy_bytes (Suc n) src dst m a =
      (if dst + 1 \<le> a \<and> a < dst + 1 + n then m1 (src + 1 + (a - (dst + 1))) else m1 a)"
    unfolding m1_def copy_bytes.simps .
  consider "a = dst" | "dst < a" "a < dst + Suc n" | "a < dst \<or> dst + Suc n \<le> a" by linarith
  then show ?case
  proof cases
    case 2
    then have "src + 1 + (a - (dst + 1)) = src + (a - dst)" by simp
    moreover have "src + (a - dst) \<noteq> dst" using Suc.prems 2 by linarith
    ultimately show ?thesis using 2 IH by (simp add: m1)
  qed (use IH in \<open>auto simp: m1\<close>)
qed auto

lemma fill_bytes_eq: "fill_bytes n dst v m a = (if dst \<le> a \<and> a < dst + n then v else m a)"
  by (induction n arbitrary: dst m) auto

lemma await_vosrdy_returns:
  assumes "fst (PWR_FLAG_VOSRDY env (((snd \<circ> PWR_FLAG_VOSRDY env) ^^ k) w))"
  shows "\<exists>w'. await_vosrdy env w = Some w'"
  using assms
proof (induction k arbitrary: w)
  case 0
  then show ?case by (subst await_vosrdy.simps) (auto split: prod.splits)
next
  case (Suc k)
  have "\<exists>w'. await_vosrdy env (snd (PWR_FLAG_VOSRDY env w)) = Some w'"
    using Suc.prems by (intro Suc.IH) (simp add: funpow_Suc_right del: funpow.simps(2))
  then show ?case by (subst await_vosrdy.simps) (auto split: prod.splits)
qed

lemma systemClockConfig_returns:
  assumes "\<And>w. \<exists>k. fst (PWR_FLAG_VOSRDY env (((snd \<circ> PWR_FLAG_VOSRDY env) ^^ k) w))"
    and "\<And>i w. fst (HAL_RCC_OscConfig env i w) = HAL_OK" and "\<And>i n w. fst (HAL_RCC_ClockConfig env i n w) = HAL_OK"
  shows "\<exists>w'. systemClockConfig env w = Some w'"
proof -
  let ?w = "clock_effect env VOLTAGESCALING_SCALE1 (clock_effect env ConfigSupply_LDO w)"
  obtain k where k: "fst (PWR_FLAG_VOSRDY env (((snd \<circ> PWR_FLAG_VOSRDY env) ^^ k) ?w))"
    using assms(1) [of ?w] by (rule exE)
  obtain w1 where "await_vosrdy env ?w = Some w1" using await_vosrdy_returns [OF k] by (rule exE)
  moreover have "r = HAL_OK" if "HAL_RCC_OscConfig env i w = (r, w')" for i w r w'
    using assms(2) [of i w] that by simp
  moreover have "r = HAL_OK" if "HAL_RCC_ClockConfig env i n w = (r, w')" for i n w r w'
    using assms(3) [of i n w] that by simp
  ultimately have "systemClockConfig env w \<noteq> None"
    by (auto simp: systemClockConfig_def Let_def simp del: fold_simps split: prod.splits)
  then show ?thesis by auto
qed

lemma init_sections_memory:
  assumes "sdata ld \<le> edata ld" and "sbss ld \<le> ebss ld"
    and "sidata ld + (edata ld - sdata ld) \<le> sdata ld \<or> edata ld \<le> sidata ld"
    and "edata ld \<le> sbss ld \<or> ebss ld \<le> sdata ld"
  shows "memory (init_sections ld s) a =
    (if sdata ld \<le> a \<and> a < edata ld then memory s (sidata ld + (a - sdata ld))
     else if sbss ld \<le> a \<and> a < ebss ld then 0 else memory s a)"
proof -
  have "sidata ld + (edata ld - sdata ld) \<le> sdata ld \<or> sdata ld + (edata ld - sdata ld) \<le> sidata ld"
    using assms(1,3) by linarith
  from copy_bytes_disjoint [OF this] show ?thesis
    using assms by (auto simp: init_sections_def Let_def fill_bytes_eq)
qed

section \<open>Properties\<close>

text \<open>
  C27. Startup hands an initialised machine to the constructors of the static objects, which run in their order,
  and then to \<open>main\<close>: wherever the linker put the sections without overlap, every byte of the data section has
  its value from flash, every byte of the bss section is zero, all other memory is as it was at reset, and the
  system registers have been set.
\<close>

theorem startup_initialises:
  assumes "sdata ld \<le> edata ld" and "sbss ld \<le> ebss ld"
    and "sidata ld + (edata ld - sdata ld) \<le> sdata ld \<or> edata ld \<le> sidata ld"
    and "edata ld \<le> sbss ld \<or> ebss ld \<le> sdata ld"
  shows "\<exists>m. Reset_Handler ld init_array main s = main (fold (\<lambda>pf m. pf m) init_array m) \<and>
    registers m = System_Init (registers s) \<and>
    memory m = (\<lambda>a. if sdata ld \<le> a \<and> a < edata ld then memory s (sidata ld + (a - sdata ld))
      else if sbss ld \<le> a \<and> a < ebss ld then 0 else memory s a)"
proof -
  let ?m = "init_sections ld s"
  have "registers ?m = registers s" by (simp add: init_sections_def Let_def)
  then show ?thesis
    using init_sections_memory [OF assms, of s]
    by (intro exI [of _ "?m\<lparr>registers := System_Init (registers ?m)\<rparr>"]) (auto simp: Reset_Handler_def Let_def)
qed

theorem startup_initialises_witness:
  "\<forall>r. \<exists>m. Reset_Handler \<lparr>sidata = 100, sdata = 200, edata = 204, sbss = 204, ebss = 208\<rparr> [] id
      \<lparr>memory = of_nat, registers = r\<rparr> = m \<and> memory m 202 = 102 \<and> memory m 205 = 0 \<and> memory m 208 = 208"
proof
  fix r
  show "\<exists>m. Reset_Handler \<lparr>sidata = 100, sdata = 200, edata = 204, sbss = 204, ebss = 208\<rparr> [] id
      \<lparr>memory = of_nat, registers = r\<rparr> = m \<and> memory m 202 = 102 \<and> memory m 205 = 0 \<and> memory m 208 = 208"
    using startup_initialises [of "\<lparr>sidata = 100, sdata = 200, edata = 204, sbss = 204, ebss = 208\<rparr>" "[]" id
        "\<lparr>memory = of_nat, registers = r\<rparr>"] by auto
qed

text \<open>
  \<open>System_Init\<close> makes the clock control register known: whatever it held at power-on, afterwards the internal oscillator
  HSI is on, and the clock security system, HSE with its bypass, HSI48, CSI and the three PLLs are off; no
  other bit changes, the clock configuration registers are zero, and the vector table is the one in flash.
\<close>

theorem system_init_known_clocks:
  "(\<forall>i. bit (RCC_CR (System_Init r)) i \<longleftrightarrow>
      i = 0 \<or> bit (RCC_CR r) i \<and> i \<notin> {7, 9, 12, 16, 18, 19, 24, 26, 28}) \<and>
    RCC_CFGR (System_Init r) = 0 \<and> PLLCFGR (System_Init r) = 0 \<and> PLLCKSELR (System_Init r) = 0 \<and>
    RCC_CIER (System_Init r) = 0 \<and> VTOR (System_Init r) = 0x08000000"
proof -
  have cr: "RCC_CR (System_Init r) = (RCC_CR r OR 1) AND 0xEAF2ED7F"
    by (simp add: System_Init_def Let_def RCC_CR_HSION_def and.assoc)
  have mask: "bit (0xEAF2ED7F :: u32) i \<longleftrightarrow> i < 32 \<and> i \<notin> {7, 9, 12, 16, 18, 19, 24, 26, 28}" for i
  proof (cases "i < 32")
    case True
    have "\<forall>i\<in>set [0..<32]. bit (0xEAF2ED7F :: u32) i \<longleftrightarrow> i \<notin> {7, 9, 12, 16, 18, 19, 24, 26, 28}"
      by code_simp
    then show ?thesis using True by simp
  qed (use bit_imp_le_length [of "0xEAF2ED7F :: u32" i] in auto)
  have "bit (RCC_CR (System_Init r)) i \<longleftrightarrow>
      i = 0 \<or> bit (RCC_CR r) i \<and> i \<notin> {7, 9, 12, 16, 18, 19, 24, 26, 28}" for i
    unfolding cr bit_and_iff mask
    by (auto simp: bit_or_iff bit_1_iff dest: bit_imp_le_length)
  moreover have "RCC_CFGR (System_Init r) = 0" and "PLLCFGR (System_Init r) = 0"
    and "PLLCKSELR (System_Init r) = 0" and "RCC_CIER (System_Init r) = 0" and "VTOR (System_Init r) = 0x08000000"
    by (simp_all add: System_Init_def Let_def FLASH_BANK1_BASE_def sVectTabOffset_def)
  ultimately show ?thesis by simp
qed

text \<open>
  The clock tree that the comments describe belongs to an oscillator of 25 MHz: 400 MHz for the CPU, 200 MHz for the
  buses, 100 MHz for the peripherals. With the oscillator that the configuration of the HAL names, the same
  settings give 128 MHz, 64 MHz and 32 MHz, and a reference clock of 1.6 MHz that is outside the range the
  PLL is set up for.
\<close>

theorem clock_tree_follows_oscillator:
  "sysclk 25000000 = 400000000 \<and> hclk 25000000 = 200000000 \<and> pclk1 25000000 = 100000000 \<and>
    in_range (PLLRGE osc_settings) (pll_input 25000000) \<and>
    sysclk HSE_VALUE = 128000000 \<and> hclk HSE_VALUE = 64000000 \<and> pclk1 HSE_VALUE = 32000000 \<and>
    \<not> in_range (PLLRGE osc_settings) (pll_input HSE_VALUE)"
  by (simp add: sysclk_def hclk_def pclk1_def vco_def pll_input_def osc_settings_def clk_settings_def HSE_VALUE_def)

text \<open>
  The tick that \<open>HAL_InitTick\<close> programs is twice as fast as the millisecond it stands for: the reload value is
  taken from the bus clock, but the system timer counts the CPU clock, which is twice as fast, so there are
  2000 ticks in a second, until something sets up the timer anew.
\<close>

theorem tick_runs_at_double_rate:
  "\<exists>n. HAL_InitTick (hclk HSE_VALUE) prio = [SYSTICK_Config n, SysTick_SetPriority prio 0] \<and>
    sysclk HSE_VALUE = 2000 * n"
  by (simp add: HAL_InitTick_def sysclk_def hclk_def vco_def pll_input_def osc_settings_def clk_settings_def
      HSE_VALUE_def)

end
