(* ===== verification/Vectors.thy ===== *)
theory Vectors
  imports Debug_Uart
begin

text \<open>
  The interrupt vectors, \<open>src/stm32h7/Vectors.cpp\<close>, with the handlers of \<open>src/stm32h7/Interrupts.cpp\<close>,
  \<open>Timebase.cpp\<close> and \<open>DebugUart.cpp\<close> that replace the weak default ones when the program is linked.
\<close>

section \<open>Model\<close>

text \<open>The functions with a weak definition, whose body is an endless loop: exceptions and interrupts.\<close>

definition weak_exceptions :: "string list" where
  "weak_exceptions =
    [''NMI_Handler'', ''HardFault_Handler'', ''MemManage_Handler'', ''BusFault_Handler'',
     ''UsageFault_Handler'', ''SVC_Handler'', ''DebugMon_Handler'', ''PendSV_Handler'', ''SysTick_Handler'']"

definition weak_interrupts :: "string list" where
  "weak_interrupts =
    [''WWDG_IRQHandler'', ''PVD_AVD_IRQHandler'', ''TAMP_STAMP_IRQHandler'', ''RTC_WKUP_IRQHandler'',
     ''FLASH_IRQHandler'', ''RCC_IRQHandler'', ''EXTI0_IRQHandler'', ''EXTI1_IRQHandler'',
     ''EXTI2_IRQHandler'', ''EXTI3_IRQHandler'', ''EXTI4_IRQHandler'', ''DMA1_Stream0_IRQHandler'',
     ''DMA1_Stream1_IRQHandler'', ''DMA1_Stream2_IRQHandler'', ''DMA1_Stream3_IRQHandler'',
     ''DMA1_Stream4_IRQHandler'', ''DMA1_Stream5_IRQHandler'', ''DMA1_Stream6_IRQHandler'',
     ''ADC_IRQHandler'', ''FDCAN1_IT0_IRQHandler'', ''FDCAN2_IT0_IRQHandler'', ''FDCAN1_IT1_IRQHandler'',
     ''FDCAN2_IT1_IRQHandler'', ''EXTI9_5_IRQHandler'', ''TIM1_BRK_IRQHandler'', ''TIM1_UP_IRQHandler'',
     ''TIM1_TRG_COM_IRQHandler'', ''TIM1_CC_IRQHandler'', ''TIM2_IRQHandler'', ''TIM3_IRQHandler'',
     ''TIM4_IRQHandler'', ''I2C1_EV_IRQHandler'', ''I2C1_ER_IRQHandler'', ''I2C2_EV_IRQHandler'',
     ''I2C2_ER_IRQHandler'', ''SPI1_IRQHandler'', ''SPI2_IRQHandler'', ''USART1_IRQHandler'',
     ''USART2_IRQHandler'', ''USART3_IRQHandler'', ''EXTI15_10_IRQHandler'', ''RTC_Alarm_IRQHandler'',
     ''TIM8_BRK_TIM12_IRQHandler'', ''TIM8_UP_TIM13_IRQHandler'', ''TIM8_TRG_COM_TIM14_IRQHandler'',
     ''TIM8_CC_IRQHandler'', ''DMA1_Stream7_IRQHandler'', ''FMC_IRQHandler'', ''SDMMC1_IRQHandler'',
     ''TIM5_IRQHandler'', ''SPI3_IRQHandler'', ''UART4_IRQHandler'', ''UART5_IRQHandler'',
     ''TIM6_DAC_IRQHandler'', ''TIM7_IRQHandler'', ''DMA2_Stream0_IRQHandler'',
     ''DMA2_Stream1_IRQHandler'', ''DMA2_Stream2_IRQHandler'', ''DMA2_Stream3_IRQHandler'',
     ''DMA2_Stream4_IRQHandler'', ''ETH_IRQHandler'', ''ETH_WKUP_IRQHandler'', ''FDCAN_CAL_IRQHandler'',
     ''DMA2_Stream5_IRQHandler'', ''DMA2_Stream6_IRQHandler'', ''DMA2_Stream7_IRQHandler'',
     ''USART6_IRQHandler'', ''I2C3_EV_IRQHandler'', ''I2C3_ER_IRQHandler'', ''OTG_HS_EP1_OUT_IRQHandler'',
     ''OTG_HS_EP1_IN_IRQHandler'', ''OTG_HS_WKUP_IRQHandler'', ''OTG_HS_IRQHandler'', ''DCMI_IRQHandler'',
     ''RNG_IRQHandler'', ''FPU_IRQHandler'', ''UART7_IRQHandler'', ''UART8_IRQHandler'',
     ''SPI4_IRQHandler'', ''SPI5_IRQHandler'', ''SPI6_IRQHandler'', ''SAI1_IRQHandler'',
     ''LTDC_IRQHandler'', ''LTDC_ER_IRQHandler'', ''DMA2D_IRQHandler'', ''SAI2_IRQHandler'',
     ''QUADSPI_IRQHandler'', ''LPTIM1_IRQHandler'', ''CEC_IRQHandler'', ''I2C4_EV_IRQHandler'',
     ''I2C4_ER_IRQHandler'', ''SPDIF_RX_IRQHandler'', ''OTG_FS_EP1_OUT_IRQHandler'',
     ''OTG_FS_EP1_IN_IRQHandler'', ''OTG_FS_WKUP_IRQHandler'', ''OTG_FS_IRQHandler'',
     ''DMAMUX1_OVR_IRQHandler'', ''HRTIM1_Master_IRQHandler'', ''HRTIM1_TIMA_IRQHandler'',
     ''HRTIM1_TIMB_IRQHandler'', ''HRTIM1_TIMC_IRQHandler'', ''HRTIM1_TIMD_IRQHandler'',
     ''HRTIM1_TIME_IRQHandler'', ''HRTIM1_FLT_IRQHandler'', ''DFSDM1_FLT0_IRQHandler'',
     ''DFSDM1_FLT1_IRQHandler'', ''DFSDM1_FLT2_IRQHandler'', ''DFSDM1_FLT3_IRQHandler'',
     ''SAI3_IRQHandler'', ''SWPMI1_IRQHandler'', ''TIM15_IRQHandler'', ''TIM16_IRQHandler'',
     ''TIM17_IRQHandler'', ''MDIOS_WKUP_IRQHandler'', ''MDIOS_IRQHandler'', ''JPEG_IRQHandler'',
     ''MDMA_IRQHandler'', ''SDMMC2_IRQHandler'', ''HSEM1_IRQHandler'', ''ADC3_IRQHandler'',
     ''DMAMUX2_OVR_IRQHandler'', ''BDMA_Channel0_IRQHandler'', ''BDMA_Channel1_IRQHandler'',
     ''BDMA_Channel2_IRQHandler'', ''BDMA_Channel3_IRQHandler'', ''BDMA_Channel4_IRQHandler'',
     ''BDMA_Channel5_IRQHandler'', ''BDMA_Channel6_IRQHandler'', ''BDMA_Channel7_IRQHandler'',
     ''COMP1_IRQHandler'', ''LPTIM2_IRQHandler'', ''LPTIM3_IRQHandler'', ''LPTIM4_IRQHandler'',
     ''LPTIM5_IRQHandler'', ''LPUART1_IRQHandler'', ''CRS_IRQHandler'', ''ECC_IRQHandler'',
     ''SAI4_IRQHandler'', ''WAKEUP_PIN_IRQHandler'']"

text \<open>The table; \<open>None\<close> is \<open>nullptr\<close>. The first entry is the initial stack pointer.\<close>

definition exception_vectors :: "string option list" where
  "exception_vectors =
    [Some ''_estack'', Some ''Reset_Handler'', Some ''NMI_Handler'', Some ''HardFault_Handler'',
     Some ''MemManage_Handler'', Some ''BusFault_Handler'', Some ''UsageFault_Handler'', None, None, None,
     None, Some ''SVC_Handler'', Some ''DebugMon_Handler'', None, Some ''PendSV_Handler'',
     Some ''SysTick_Handler'']"

definition interrupt_vectors :: "string option list" where
  "interrupt_vectors =
    [Some ''WWDG_IRQHandler'', Some ''PVD_AVD_IRQHandler'', Some ''TAMP_STAMP_IRQHandler'',
     Some ''RTC_WKUP_IRQHandler'', Some ''FLASH_IRQHandler'', Some ''RCC_IRQHandler'',
     Some ''EXTI0_IRQHandler'', Some ''EXTI1_IRQHandler'', Some ''EXTI2_IRQHandler'',
     Some ''EXTI3_IRQHandler'', Some ''EXTI4_IRQHandler'', Some ''DMA1_Stream0_IRQHandler'',
     Some ''DMA1_Stream1_IRQHandler'', Some ''DMA1_Stream2_IRQHandler'', Some ''DMA1_Stream3_IRQHandler'',
     Some ''DMA1_Stream4_IRQHandler'', Some ''DMA1_Stream5_IRQHandler'', Some ''DMA1_Stream6_IRQHandler'',
     Some ''ADC_IRQHandler'', Some ''FDCAN1_IT0_IRQHandler'', Some ''FDCAN2_IT0_IRQHandler'',
     Some ''FDCAN1_IT1_IRQHandler'', Some ''FDCAN2_IT1_IRQHandler'', Some ''EXTI9_5_IRQHandler'',
     Some ''TIM1_BRK_IRQHandler'', Some ''TIM1_UP_IRQHandler'', Some ''TIM1_TRG_COM_IRQHandler'',
     Some ''TIM1_CC_IRQHandler'', Some ''TIM2_IRQHandler'', Some ''TIM3_IRQHandler'',
     Some ''TIM4_IRQHandler'', Some ''I2C1_EV_IRQHandler'', Some ''I2C1_ER_IRQHandler'',
     Some ''I2C2_EV_IRQHandler'', Some ''I2C2_ER_IRQHandler'', Some ''SPI1_IRQHandler'',
     Some ''SPI2_IRQHandler'', Some ''USART1_IRQHandler'', Some ''USART2_IRQHandler'',
     Some ''USART3_IRQHandler'', Some ''EXTI15_10_IRQHandler'', Some ''RTC_Alarm_IRQHandler'', None,
     Some ''TIM8_BRK_TIM12_IRQHandler'', Some ''TIM8_UP_TIM13_IRQHandler'',
     Some ''TIM8_TRG_COM_TIM14_IRQHandler'', Some ''TIM8_CC_IRQHandler'', Some ''DMA1_Stream7_IRQHandler'',
     Some ''FMC_IRQHandler'', Some ''SDMMC1_IRQHandler'', Some ''TIM5_IRQHandler'',
     Some ''SPI3_IRQHandler'', Some ''UART4_IRQHandler'', Some ''UART5_IRQHandler'',
     Some ''TIM6_DAC_IRQHandler'', Some ''TIM7_IRQHandler'', Some ''DMA2_Stream0_IRQHandler'',
     Some ''DMA2_Stream1_IRQHandler'', Some ''DMA2_Stream2_IRQHandler'', Some ''DMA2_Stream3_IRQHandler'',
     Some ''DMA2_Stream4_IRQHandler'', Some ''ETH_IRQHandler'', Some ''ETH_WKUP_IRQHandler'',
     Some ''FDCAN_CAL_IRQHandler'', None, None, None, None, Some ''DMA2_Stream5_IRQHandler'',
     Some ''DMA2_Stream6_IRQHandler'', Some ''DMA2_Stream7_IRQHandler'', Some ''USART6_IRQHandler'',
     Some ''I2C3_EV_IRQHandler'', Some ''I2C3_ER_IRQHandler'', Some ''OTG_HS_EP1_OUT_IRQHandler'',
     Some ''OTG_HS_EP1_IN_IRQHandler'', Some ''OTG_HS_WKUP_IRQHandler'', Some ''OTG_HS_IRQHandler'',
     Some ''DCMI_IRQHandler'', None, Some ''RNG_IRQHandler'', Some ''FPU_IRQHandler'',
     Some ''UART7_IRQHandler'', Some ''UART8_IRQHandler'', Some ''SPI4_IRQHandler'',
     Some ''SPI5_IRQHandler'', Some ''SPI6_IRQHandler'', Some ''SAI1_IRQHandler'',
     Some ''LTDC_IRQHandler'', Some ''LTDC_ER_IRQHandler'', Some ''DMA2D_IRQHandler'',
     Some ''SAI2_IRQHandler'', Some ''QUADSPI_IRQHandler'', Some ''LPTIM1_IRQHandler'',
     Some ''CEC_IRQHandler'', Some ''I2C4_EV_IRQHandler'', Some ''I2C4_ER_IRQHandler'',
     Some ''SPDIF_RX_IRQHandler'', Some ''OTG_FS_EP1_OUT_IRQHandler'', Some ''OTG_FS_EP1_IN_IRQHandler'',
     Some ''OTG_FS_WKUP_IRQHandler'', Some ''OTG_FS_IRQHandler'', Some ''DMAMUX1_OVR_IRQHandler'',
     Some ''HRTIM1_Master_IRQHandler'', Some ''HRTIM1_TIMA_IRQHandler'', Some ''HRTIM1_TIMB_IRQHandler'',
     Some ''HRTIM1_TIMC_IRQHandler'', Some ''HRTIM1_TIMD_IRQHandler'', Some ''HRTIM1_TIME_IRQHandler'',
     Some ''HRTIM1_FLT_IRQHandler'', Some ''DFSDM1_FLT0_IRQHandler'', Some ''DFSDM1_FLT1_IRQHandler'',
     Some ''DFSDM1_FLT2_IRQHandler'', Some ''DFSDM1_FLT3_IRQHandler'', Some ''SAI3_IRQHandler'',
     Some ''SWPMI1_IRQHandler'', Some ''TIM15_IRQHandler'', Some ''TIM16_IRQHandler'',
     Some ''TIM17_IRQHandler'', Some ''MDIOS_WKUP_IRQHandler'', Some ''MDIOS_IRQHandler'',
     Some ''JPEG_IRQHandler'', Some ''MDMA_IRQHandler'', None, Some ''SDMMC2_IRQHandler'',
     Some ''HSEM1_IRQHandler'', None, Some ''ADC3_IRQHandler'', Some ''DMAMUX2_OVR_IRQHandler'',
     Some ''BDMA_Channel0_IRQHandler'', Some ''BDMA_Channel1_IRQHandler'',
     Some ''BDMA_Channel2_IRQHandler'', Some ''BDMA_Channel3_IRQHandler'',
     Some ''BDMA_Channel4_IRQHandler'', Some ''BDMA_Channel5_IRQHandler'',
     Some ''BDMA_Channel6_IRQHandler'', Some ''BDMA_Channel7_IRQHandler'', Some ''COMP1_IRQHandler'',
     Some ''LPTIM2_IRQHandler'', Some ''LPTIM3_IRQHandler'', Some ''LPTIM4_IRQHandler'',
     Some ''LPTIM5_IRQHandler'', Some ''LPUART1_IRQHandler'', None, Some ''CRS_IRQHandler'',
     Some ''ECC_IRQHandler'', Some ''SAI4_IRQHandler'', None, None, Some ''WAKEUP_PIN_IRQHandler'']"

definition g_pfnVectors :: "string option list" where
  "g_pfnVectors = exception_vectors @ interrupt_vectors"

text \<open>What a handler does.\<close>

datatype handler = Endless_loop | No_operation | Uart_handler | Dma_handler dma_stream | Tick_handler
  | Reset_entry | Kernel_handler

definition Interrupts_handlers :: "(string \<times> handler) list" where
  "Interrupts_handlers = [(''NMI_Handler'', No_operation), (''HardFault_Handler'', Endless_loop),
     (''MemManage_Handler'', Endless_loop), (''BusFault_Handler'', Endless_loop),
     (''UsageFault_Handler'', Endless_loop), (''DebugMon_Handler'', No_operation)]"

definition DebugUart_handlers :: "(string \<times> handler) list" where
  "DebugUart_handlers = [(''USART3_IRQHandler'', Uart_handler),
     (''DMA1_Stream0_IRQHandler'', Dma_handler DMA1_Stream0),
     (''DMA1_Stream1_IRQHandler'', Dma_handler DMA1_Stream1)]"

text \<open>The two handlers of the kernel's port get their names from \<open>FreeRTOSConfig.h\<close>.\<close>

definition kernel_handlers :: "(string \<times> handler) list" where
  "kernel_handlers = [(''SVC_Handler'', Kernel_handler), (''PendSV_Handler'', Kernel_handler)]"

definition strong_handlers :: "(string \<times> handler) list" where
  "strong_handlers = (''Reset_Handler'', Reset_entry) # (''SysTick_Handler'', Tick_handler) #
     Interrupts_handlers @ DebugUart_handlers @ kernel_handlers"

text \<open>Linking: a strong definition wins, then the weak one.\<close>

definition resolve :: "string \<Rightarrow> handler option" where
  "resolve name = (case map_of strong_handlers name of
     Some h \<Rightarrow> Some h
   | None \<Rightarrow> if name \<in> set (weak_exceptions @ weak_interrupts) then Some Endless_loop else None)"

text \<open>The architecture takes the handler of interrupt \<open>n\<close> from entry \<open>16 + n\<close>; the device's interrupt numbers.\<close>

fun irq_number :: "irq \<Rightarrow> nat" where
  "irq_number DMA1_Stream0_IRQn = 11"
| "irq_number DMA1_Stream1_IRQn = 12"
| "irq_number USART3_IRQn = 39"

definition vector_of :: "nat \<Rightarrow> handler option" where
  "vector_of i = (if i < length g_pfnVectors then Option.bind (g_pfnVectors ! i) resolve else None)"

definition enabled_irqs :: "uart_op list \<Rightarrow> irq list" where
  "enabled_irqs ops = concat (map (\<lambda>op. case op of NVIC_EnableIRQ i \<Rightarrow> [i] | _ \<Rightarrow> []) ops)"

section \<open>Lemmas\<close>

lemma resolve_weak:
  "name \<in> set weak_exceptions \<or> name \<in> set weak_interrupts \<Longrightarrow> \<exists>h. resolve name = Some h"
  by (simp add: resolve_def split: option.split)

text \<open>The entries follow the order of the weak definitions, with the reserved ones in between.\<close>

lemma interrupt_names: "List.map_filter id interrupt_vectors = weak_interrupts"
  by (simp add: interrupt_vectors_def weak_interrupts_def map_filter_simps)

lemma exception_names: "List.map_filter id (drop 2 exception_vectors) = weak_exceptions"
  by (simp add: exception_vectors_def weak_exceptions_def map_filter_simps)

lemma map_filter_id_mem: "Some x \<in> set vs \<Longrightarrow> x \<in> set (List.map_filter id vs)"
  by (force simp: List.map_filter_def)

lemma resolve_Reset: "resolve ''Reset_Handler'' = Some Reset_entry"
  by (simp add: resolve_def strong_handlers_def)

lemma tl_vectors:
  "tl g_pfnVectors = Some ''Reset_Handler'' # drop 2 exception_vectors @ interrupt_vectors"
  by (simp add: g_pfnVectors_def exception_vectors_def)

lemma length_vectors: "length exception_vectors = 16" "length interrupt_vectors = 150"
  by (simp_all add: exception_vectors_def interrupt_vectors_def)

lemma vector_exception: "i < 16 \<Longrightarrow> vector_of i = Option.bind (exception_vectors ! i) resolve"
  by (simp add: vector_of_def g_pfnVectors_def length_vectors nth_append)

lemma vector_interrupt: "i < 150 \<Longrightarrow> vector_of (16 + i) = Option.bind (interrupt_vectors ! i) resolve"
  by (simp add: vector_of_def g_pfnVectors_def length_vectors nth_append)

lemma interrupt_entries:
  "interrupt_vectors ! 11 = Some ''DMA1_Stream0_IRQHandler''"
  "interrupt_vectors ! 12 = Some ''DMA1_Stream1_IRQHandler''"
  "interrupt_vectors ! 39 = Some ''USART3_IRQHandler''"
  by (simp_all add: interrupt_vectors_def)

lemma exception_entries:
  "exception_vectors ! 1 = Some ''Reset_Handler''" "exception_vectors ! 15 = Some ''SysTick_Handler''"
  by (simp_all add: exception_vectors_def)

lemma resolve_strong:
  "resolve ''SysTick_Handler'' = Some Tick_handler"
  "resolve ''DMA1_Stream0_IRQHandler'' = Some (Dma_handler DMA1_Stream0)"
  "resolve ''DMA1_Stream1_IRQHandler'' = Some (Dma_handler DMA1_Stream1)"
  "resolve ''USART3_IRQHandler'' = Some Uart_handler"
  by (simp_all add: resolve_def strong_handlers_def Interrupts_handlers_def DebugUart_handlers_def)

section \<open>Properties\<close>

text \<open>
  The table is complete: it has the 16 entries of the architecture and the 150 of the device, and every
  entry after the stack pointer that is not reserved names a function that exists.
\<close>

theorem vectors_resolve:
  "length g_pfnVectors = 166 \<and>
    list_all (\<lambda>v. case v of None \<Rightarrow> True | Some name \<Rightarrow> \<exists>h. resolve name = Some h) (tl g_pfnVectors)"
proof -
  have "\<exists>h. resolve name = Some h" if "Some name \<in> set (drop 2 exception_vectors @ interrupt_vectors)" for name
    using that map_filter_id_mem exception_names interrupt_names resolve_weak by (metis UnE set_append)
  moreover have "length g_pfnVectors = 166" by (simp add: g_pfnVectors_def length_vectors)
  ultimately show ?thesis
    by (auto simp: tl_vectors resolve_Reset list_all_iff split: option.split)
qed

text \<open>
  C29. Every interrupt that \<open>debugUartInit\<close> enables reaches the handler of its own peripheral, not the endless
  loop of a weak default or of a neighbour in the table; so do the reset and the tick.
\<close>

theorem enabled_interrupts_handled:
  "map (\<lambda>i. vector_of (16 + irq_number i)) (enabled_irqs uart_irq_ops) =
      [Some (Dma_handler DMA1_Stream0), Some (Dma_handler DMA1_Stream1), Some Uart_handler] \<and>
    vector_of 1 = Some Reset_entry \<and> vector_of 15 = Some Tick_handler"
proof -
  have "enabled_irqs uart_irq_ops = [DMA1_Stream0_IRQn, DMA1_Stream1_IRQn, USART3_IRQn]"
    by (simp add: enabled_irqs_def uart_irq_ops_def)
  moreover have "vector_of (16 + 11) = Some (Dma_handler DMA1_Stream0)"
    and "vector_of (16 + 12) = Some (Dma_handler DMA1_Stream1)" and "vector_of (16 + 39) = Some Uart_handler"
    by (subst vector_interrupt; simp only: interrupt_entries resolve_strong bind.simps; simp)+
  moreover have "vector_of 1 = Some Reset_entry" and "vector_of 15 = Some Tick_handler"
    by (subst vector_exception; simp only: exception_entries resolve_strong resolve_Reset bind.simps; simp)+
  ultimately show ?thesis by simp
qed

end
