(* ===== verification/Main_RTOS.thy ===== *)
theory Main_RTOS
  imports Network_RTOS Boot Vectors Tcp_Echo
begin

text \<open>
  The application, \<open>src/app-freertos/MainRTOS.cpp\<close> with \<open>Base\<close> of \<open>include/lwipserver/stm32h7/Base.h\<close>: the order
  in which the components are initialised, and the idle task that runs the network stack. The
  components keep their state side by side and share the world.
\<close>

section \<open>Model\<close>

datatype base_op = Mpu_op mpu_op | SCB_EnableICache | SCB_EnableDCache | HAL_Init | StartScheduler

record ('w, 'm) system_env =
  uart_functions :: "'w uart_env"
  net_functions :: "('w, 'm) net_env"
  tcp_functions :: "'w lwip"
  clock_functions :: "'w clock_env"
  ip_addr_any :: ptr
  base_effect :: "base_op \<Rightarrow> 'w \<Rightarrow> 'w"

record ('w, 'm) system =
  uart :: debug_uart
  sNetwork :: "'m network"
  sTcpEchoServer :: "'w tcp_server"

subsection \<open>\<open>Base\<close>\<close>

definition cpuCacheEnable :: "base_op list" where
  "cpuCacheEnable = [SCB_EnableICache, SCB_EnableDCache]"

definition Base_init ::
  "('w, 'm) system_env \<Rightarrow> ('w, 'm) system \<times> 'w \<Rightarrow> (('w, 'm) system \<times> 'w) option" where
  "Base_init env = (\<lambda>(s, w).
     let w = fold (base_effect env) (map Mpu_op mpuConfig @ cpuCacheEnable @ [HAL_Init]) w in
     case systemClockConfig (clock_functions env) w of
       None \<Rightarrow> None
     | Some w \<Rightarrow>
         (case debugUartInit (uart_functions env) (uart s, w) of
            None \<Rightarrow> None
          | Some (u, w) \<Rightarrow> Some (s\<lparr>uart := u\<rparr>, w)))"

definition Base_wait :: "('w, 'm) system_env \<Rightarrow> u32 \<Rightarrow> 'w \<Rightarrow> 'w" where
  "Base_wait env time_ms w = HAL_Delay (hal (net_functions env)) time_ms w"

definition Base_tick :: "('w, 'm) system_env \<Rightarrow> 'w \<Rightarrow> u32 \<times> 'w" where
  "Base_tick env w = HAL_GetTick (hal (net_functions env)) w"

definition Base_service ::
  "('w, 'm) system_env \<Rightarrow> ('w, 'm) system \<times> 'w \<Rightarrow> ('w, 'm) system \<times> 'w" where
  "Base_service env = (\<lambda>(s, w).
     case debugUartService (uart_functions env) (uart s, w) of (u, w) \<Rightarrow> (s\<lparr>uart := u\<rparr>, w))"

definition Base_debug ::
  "('w, 'm) system_env \<Rightarrow> u8 list \<Rightarrow> ('w, 'm) system \<times> 'w \<Rightarrow> ('w, 'm) system \<times> 'w" where
  "Base_debug env data = (\<lambda>(s, w).
     case debugUartTx (uart_functions env) data (uart s, w) of (n, u, w) \<Rightarrow> (s\<lparr>uart := u\<rparr>, w))"

subsection \<open>\<open>main\<close> and the idle task\<close>

text \<open>The state when the scheduler starts; \<open>None\<close> is an initialisation that does not end.\<close>

definition main :: "('w, 'm) system_env \<Rightarrow> ('w, 'm) system \<times> 'w \<Rightarrow> (('w, 'm) system \<times> 'w) option" where
  "main env sw =
     (case Base_init env sw of
        None \<Rightarrow> None
      | Some (s, w) \<Rightarrow>
          (case Network_init (net_functions env) (sNetwork s, w) of
             None \<Rightarrow> None
           | Some (n, w) \<Rightarrow>
               let (t, w) = TcpEchoServer_init (tcp_functions env) (ip_addr_any env) (sTcpEchoServer s, w)
               in Some (s\<lparr>sNetwork := n, sTcpEchoServer := t\<rparr>, base_effect env StartScheduler w)))"

definition vApplicationIdleHook ::
  "('w, 'm) system_env \<Rightarrow> ('w, 'm) system \<times> 'w \<Rightarrow> (('w, 'm) system \<times> 'w) option" where
  "vApplicationIdleHook env sw =
     (case Base_service env sw of (s, w) \<Rightarrow>
        (case lwipThread (net_functions env) (sNetwork s, w) of
           None \<Rightarrow> None
         | Some (n, w) \<Rightarrow> Some (s\<lparr>sNetwork := n\<rparr>, w)))"

definition configMINIMAL_STACK_SIZE :: nat where "configMINIMAL_STACK_SIZE = 512"

text \<open>The size, in words, of the stack that \<open>vApplicationGetIdleTaskMemory\<close> hands to the kernel.\<close>

definition sLwIPTaskStackSize :: nat where "sLwIPTaskStackSize = 8 * configMINIMAL_STACK_SIZE"

definition system_new :: "netif \<Rightarrow> ('w, 'm) system" where
  "system_new g = \<lparr>uart = debug_uart_new, sNetwork = Network_new g eth_tx_init rx_start, sTcpEchoServer = TcpServer_new\<rparr>"

section \<open>Runs of the system\<close>

text \<open>
  After \<open>main\<close>: the idle hook runs, lwIP reports an event to the server, \<open>printf\<close> writes to the debug UART, lwIP
  hands a packet to the driver or the DMA finishes with a descriptor, a receive buffer is freed, or something
  happens outside.
\<close>

inductive system_step ::
  "('w, 'm) system_env \<Rightarrow> ('w, 'm) system \<times> 'w \<Rightarrow> ('w, 'm) system \<times> 'w \<Rightarrow> bool" for env where
  idle: "vApplicationIdleHook env sw = Some sw' \<Longrightarrow> system_step env sw sw'"
| server: "server_step (tcp_functions env) (sTcpEchoServer s) w t w' \<Longrightarrow>
    system_step env (s, w) (s\<lparr>sTcpEchoServer := t\<rparr>, w')"
| printf: "uart_write (uart_functions env) fd bs (uart s, w) = (r, u, w') \<Longrightarrow>
    system_step env (s, w) (s\<lparr>uart := u\<rparr>, w')"
| ring: "tx_step (tx_ring (sNetwork s)) tx \<Longrightarrow>
    system_step env (s, w) (s\<lparr>sNetwork := (sNetwork s)\<lparr>tx_ring := tx\<rparr>\<rparr>, w')"
| rx_freed: "pbuf_free_custom (rx_functions (net_functions env)) p (rx_state (sNetwork s), w) = (rx, w') \<Longrightarrow>
    system_step env (s, w) (s\<lparr>sNetwork := (sNetwork s)\<lparr>rx_state := rx\<rparr>\<rparr>, w')"
| outside: "system_step env (s, w) (s, w')"

inductive system_run ::
  "('w, 'm) system_env \<Rightarrow> ('w, 'm) system \<times> 'w \<Rightarrow> ('w, 'm) system \<times> 'w \<Rightarrow> bool" for env where
  start: "system_run env sw sw"
| step: "system_run env sw sw1 \<Longrightarrow> system_step env sw1 sw2 \<Longrightarrow> system_run env sw sw2"

inductive_cases system_stepE: "system_step env sw sw'"

text \<open>What the components guarantee, all together.\<close>

definition server_ok :: "('w, 'm) system_env \<Rightarrow> 'w tcp_server \<Rightarrow> bool" where
  "server_ok env t \<longleftrightarrow> mRecvCallback t = Some (echo_recv (tcp_functions env)) \<and>
     length (mConnections t) \<le> sMaxConnections \<and> list_all conn_ok (mConnections t)"

definition system_ok :: "('w, 'm) system_env \<Rightarrow> ('w, 'm) system \<Rightarrow> bool" where
  "system_ok env s \<longleftrightarrow> net_inv (sNetwork s) \<and> tx_reachable (tx_ring (sNetwork s)) \<and>
     server_ok env (sTcpEchoServer s)"

lemma system_ok_update [inv_intros]:
  "system_ok env s \<Longrightarrow> system_ok env (s\<lparr>uart := u\<rparr>)"
  "system_ok env s \<Longrightarrow> server_ok env t \<Longrightarrow> system_ok env (s\<lparr>sTcpEchoServer := t\<rparr>)"
  "system_ok env s \<Longrightarrow> tx_step (tx_ring (sNetwork s)) tx \<Longrightarrow>
    system_ok env (s\<lparr>sNetwork := (sNetwork s)\<lparr>tx_ring := tx\<rparr>\<rparr>)"
  "system_ok env s \<Longrightarrow> system_ok env (s\<lparr>sNetwork := (sNetwork s)\<lparr>rx_state := rx\<rparr>\<rparr>)"
  by (auto simp: system_ok_def net_inv_def calls_back_def intro: tx_reachable.step)

lemma system_okD:
  "system_ok env s \<Longrightarrow> server_ok env (sTcpEchoServer s)"
  "system_ok env s \<Longrightarrow> tx_inv (tx_ring (sNetwork s))"
  using tx_reachable_keeps by (auto simp: system_ok_def)

lemma Base_init_only_uart:
  "Base_init env (s, w) = Some (s', w') \<Longrightarrow> sNetwork s' = sNetwork s \<and> sTcpEchoServer s' = sTcpEchoServer s"
  by (auto simp: Base_init_def Let_def split: option.splits)

lemma Base_service_only_uart:
  "Base_service env (s, w) = (s', w') \<Longrightarrow> sNetwork s' = sNetwork s \<and> sTcpEchoServer s' = sTcpEchoServer s"
  by (auto simp: Base_service_def split: prod.splits)

lemma main_ok:
  assumes "main env (system_new g, w) = Some (s, w')"
  shows "system_ok env s"
proof -
  obtain s1 w1 n w2 t w3 where b: "Base_init env (system_new g, w) = Some (s1, w1)"
    and n: "Network_init (net_functions env) (sNetwork s1, w1) = Some (n, w2)"
    and t: "TcpEchoServer_init (tcp_functions env) (ip_addr_any env) (sTcpEchoServer s1, w2) = (t, w3)"
    and s: "s = s1\<lparr>sNetwork := n, sTcpEchoServer := t\<rparr>"
    using assms by (auto simp: main_def Let_def split: option.splits prod.splits)
  have "sNetwork s1 = Network_new g eth_tx_init rx_start" and "sTcpEchoServer s1 = TcpServer_new"
    using Base_init_only_uart [OF b] by (simp_all add: system_new_def)
  with n t have "net_inv n" and "server_ok env t"
    using Network_init_inv init_handler by (fastforce simp: server_ok_def)+
  moreover have "tx_ring n = eth_tx_init"
    using Network_init_ring [OF n] \<open>sNetwork s1 = _\<close> by (simp add: Network_new_def)
  ultimately show ?thesis by (simp add: s system_ok_def tx_reachable.start)
qed

lemma server_step_ok [inv_intros]:
  assumes "server_step (tcp_functions env) t w t' w'" and "server_ok env t"
  shows "server_ok env t'"
proof -
  have "server_steps (tcp_functions env) t w t' w'"
    using assms(1) by (rule server_steps.more [OF server_steps.none])
  then show ?thesis using echo_h.steps_succ assms(2) by (fastforce simp: server_ok_def)
qed

lemma idle_hook_ok [inv_intros]:
  assumes "vApplicationIdleHook env (s, w) = Some (s', w')" and "system_ok env s"
  shows "system_ok env s'"
proof -
  obtain s1 w1 n where b: "Base_service env (s, w) = (s1, w1)"
    and n: "lwipThread (net_functions env) (sNetwork s1, w1) = Some (n, w')" and s': "s' = s1\<lparr>sNetwork := n\<rparr>"
    using assms(1) by (auto simp: vApplicationIdleHook_def split: option.splits prod.splits)
  have s1: "sNetwork s1 = sNetwork s" "sTcpEchoServer s1 = sTcpEchoServer s"
    using Base_service_only_uart [OF b] by simp_all
  then have "net_inv n" and "tx_reachable (tx_ring n)"
    using lwipThread_inv [OF _ n] lwipThread_ring [OF n] tx_reachable.step [OF _ tx_step.release] assms(2)
    by (auto simp: system_ok_def)
  then show ?thesis using s1 s' assms(2) by (simp add: system_ok_def)
qed

lemma system_step_ok:
  assumes "system_step env (s, w) (s', w')" and "system_ok env s"
  shows "system_ok env s'"
  using assms
  by (auto elim!: system_stepE intro: inv_intros system_okD)

lemma system_run_ok:
  assumes "system_run env (s, w) (s', w')" and "system_ok env s"
  shows "system_ok env s'"
proof -
  have "system_run env sw sw' \<Longrightarrow> system_ok env (fst sw) \<longrightarrow> system_ok env (fst sw')" for sw sw'
    by (induction rule: system_run.induct) (metis system_step_ok prod.collapse)+
  from this [OF assms(1)] show ?thesis using assms(2) by simp
qed

section \<open>Initialisation and the idle hook end\<close>

text \<open>
  Hardware that works: the voltage regulator becomes ready, the HAL accepts the settings of the clocks, of the
  UART and of its DMA, and the clock runs.
\<close>

definition healthy :: "('w, 'm) system_env \<Rightarrow> bool" where
  "healthy env \<longleftrightarrow>
     (\<forall>w. \<exists>k. fst (PWR_FLAG_VOSRDY (clock_functions env) (((snd \<circ> PWR_FLAG_VOSRDY (clock_functions env)) ^^ k) w))) \<and>
     (\<forall>i w. fst (HAL_RCC_OscConfig (clock_functions env) i w) = HAL_OK) \<and>
     (\<forall>i n w. fst (HAL_RCC_ClockConfig (clock_functions env) i n w) = HAL_OK) \<and>
     (\<forall>i w. fst (HAL_UART_Init (uart_functions env) i w) = HAL_OK) \<and>
     (\<forall>i w. fst (HAL_DMA_Init (uart_functions env) i w) = HAL_OK) \<and>
     clock_runs (Ether (hal (net_functions env)))"

lemma main_returns:
  assumes "healthy env"
  shows "\<exists>s' w'. main env (s, w) = Some (s', w')"
proof -
  have "\<forall>w. \<exists>w'. systemClockConfig (clock_functions env) w = Some w'"
    using assms systemClockConfig_returns unfolding healthy_def by metis
  then obtain c where "systemClockConfig (clock_functions env) w = Some (c w)" for w by metis
  moreover have "\<forall>u w. \<exists>r. debugUartInit (uart_functions env) (u, w) = Some r"
    using assms debugUartInit_returns unfolding healthy_def by metis
  then obtain d where "debugUartInit (uart_functions env) (u, w) = Some (d u w)" for u w by metis
  moreover have "\<forall>n w. \<exists>r. Network_init (net_functions env) (n, w) = Some r"
    using assms Network_init_returns unfolding healthy_def by metis
  then obtain e where "Network_init (net_functions env) (n, w) = Some (e n w)" for n w by metis
  ultimately have "main env (s, w) \<noteq> None"
    by (simp add: main_def Base_init_def Let_def split: prod.split)
  then show ?thesis by auto
qed

lemma idle_returns:
  assumes "tx_inv (tx_ring (sNetwork s))"
    and "finite_backlog (rx_functions (net_functions env)) m"
  shows "\<exists>s' w'. vApplicationIdleHook env (s, w) = Some (s', w')"
proof -
  obtain rw where rw: "drains (rx_functions (net_functions env)) (rx_state (sNetwork s), snd (Base_service env (s, w))) rw"
    using backlog_drains [OF assms(2)] by blast
  obtain s1 w1 where b: "Base_service env (s, w) = (s1, w1)" by fastforce
  then have "sNetwork s1 = sNetwork s" using Base_service_only_uart [OF b] by simp
  then obtain n w2 where "lwipThread (net_functions env) (sNetwork s1, w1) = Some (n, w2)"
    using lwipThread_returns [of "sNetwork s" "net_functions env" w1 rw] assms(1) rw b by auto
  then show ?thesis using b by (simp add: vApplicationIdleHook_def)
qed

section \<open>A system for the example\<close>

text \<open>All calls succeed and leave the world alone, a number, but for the clock of \<open>sample_env\<close>.\<close>

definition calm_uart :: "u32 uart_env" where
  "calm_uart = \<lparr>pdMS_TO_TICKS = (\<lambda>ms. ms), xSemaphoreTake = (\<lambda>t. Pair True), xSemaphoreGive = Pair True,
     xStreamBufferSend = (\<lambda>bs t. Pair 0), xStreamBufferReceive = (\<lambda>n t. Pair []), busy_tx = (\<lambda>w. False),
     DMA_GET_COUNTER = Pair 128, rx_memory = (\<lambda>w. []), dma_error_code = (\<lambda>w. 0), uart_error_code = (\<lambda>w. 0),
     HAL_UART_Init = (\<lambda>i. Pair HAL_OK), HAL_DMA_Init = (\<lambda>i. Pair HAL_OK), HAL_UART_Receive = Pair (HAL_OK, 0),
     error_interrupt = Pair False, uart_effect = (\<lambda>op w. w)\<rparr>"

definition calm_lwip :: "u32 lwip" where
  "calm_lwip = \<lparr>pbuf_mem = (\<lambda>w p. \<lparr>p_next = 0, p_payload = 0, p_tot_len = 0, p_len = 0\<rparr>),
     pbuf_ref = (\<lambda>p w. w), pbuf_free = (\<lambda>p. Pair 0), pbuf_chain = (\<lambda>h t w. w), tcp_new = Pair 0x100,
     tcp_bind = (\<lambda>pcb ip port. Pair ERR_OK), tcp_listen = (\<lambda>pcb. Pair 0x200), tcp_close = (\<lambda>pcb. Pair ERR_OK),
     tcp_abort = (\<lambda>pcb w. w), tcp_arg = (\<lambda>pcb arg w. w), tcp_accept = (\<lambda>pcb cb w. w),
     tcp_recv = (\<lambda>pcb cb w. w), tcp_err = (\<lambda>pcb cb w. w), tcp_poll = (\<lambda>pcb cb n w. w),
     tcp_sent = (\<lambda>pcb cb w. w), tcp_setprio_min = (\<lambda>pcb w. w), tcp_recved = (\<lambda>pcb n w. w),
     tcp_sndbuf = (\<lambda>pcb w. 0), tcp_write_copy = (\<lambda>pcb a n. Pair ERR_OK), tcp_output = (\<lambda>pcb w. w)\<rparr>"

definition calm_clock :: "u32 clock_env" where
  "calm_clock = \<lparr>PWR_FLAG_VOSRDY = Pair True, HAL_RCC_OscConfig = (\<lambda>i. Pair HAL_OK),
     HAL_RCC_ClockConfig = (\<lambda>i n. Pair HAL_OK), clock_effect = (\<lambda>op w. w)\<rparr>"

definition calm_system :: "(u32, unit) system_env" where
  "calm_system = \<lparr>uart_functions = calm_uart, net_functions = sample_env, tcp_functions = calm_lwip,
     clock_functions = calm_clock, ip_addr_any = 0, base_effect = (\<lambda>op w. w)\<rparr>"

lemma calm_clock_runs: "clock_runs (Ether sample_hal)"
proof -
  have "round_world (Ether sample_hal) dev w = w + 1000" and time: "round_time (Ether sample_hal) dev w = w"
    for dev w by (simp_all add: round_world_def round_time_def Ether_def Ether_readReg_def sample_hal_def)
  then have rounds: "(round_world (Ether sample_hal) dev ^^ 0) w = w"
    "(round_world (Ether sample_hal) dev ^^ 1) w = w + 1000" for dev w by simp_all
  have "sResetTimeout_ms < w - start \<or> sResetTimeout_ms < w + 1000 - start" for w start :: u32
  proof (cases "unat (w - start) \<le> 500")
    case True
    then have "unat (w - start + 1000) = unat (w - start) + 1000" by (intro unat_plus_exact [THEN trans]) simp_all
    then have "500 < w - start + 1000" by (simp add: word_less_nat_alt)
    then show ?thesis by (simp add: sResetTimeout_ms_def algebra_simps)
  next
    case False
    then show ?thesis by (simp add: sResetTimeout_ms_def word_less_nat_alt)
  qed
  then show ?thesis unfolding clock_runs_def using rounds time by metis
qed

lemma calm_backlog: "finite_backlog (rx_functions (net_functions calm_system)) (\<lambda>w. 0)"
  by (simp add: finite_backlog_def calm_system_def sample_env_def sample_rx_def)

lemma calm_healthy: "healthy calm_system"
proof -
  have "hal sample_env = sample_hal" by (simp add: sample_env_def)
  moreover have "\<exists>k. fst (PWR_FLAG_VOSRDY calm_clock (((snd \<circ> PWR_FLAG_VOSRDY calm_clock) ^^ k) w))" for w
    by (simp add: calm_clock_def)
  ultimately show ?thesis
    by (simp add: healthy_def calm_clock_runs calm_system_def) (simp add: calm_clock_def calm_uart_def)
qed

section \<open>Properties\<close>

text \<open>
  C11. The system as a whole. From the end of \<open>main\<close>, however the idle task, lwIP's events, \<open>printf\<close> and
  transmissions, the DMA and the outside world interleave: the DHCP state agrees with the link flag, the timers run their callbacks,
  the references to packets in the transmit ring are balanced, and the echo server has at most ten
  connections, all in a state that belongs to the server.
\<close>

theorem system_invariant:
  assumes "main env (system_new g, w0) = Some (s0, w1)" and "system_run env (s0, w1) (s, w)"
  shows "(link_flag (sNetwork s) \<longleftrightarrow> mDhcpState (sNetwork s) \<notin> {DhcpLinkDown, Off}) \<and>
    mCallback (mLinkTimer (sNetwork s)) = Some CheckLinkState \<and>
    mCallback (mDHCPTimer (sNetwork s)) = Some DhcpProcess \<and>
    tx_inv (tx_ring (sNetwork s)) \<and>
    taken (tx_calls (tx_ring (sNetwork s))) =
      freed (tx_calls (tx_ring (sNetwork s))) @ pending (tx_ring (sNetwork s)) \<and>
    length (mConnections (sTcpEchoServer s)) \<le> sMaxConnections \<and>
    list_all conn_ok (mConnections (sTcpEchoServer s))"
  using system_run_ok [OF assms(2) main_ok [OF assms(1)]] tx_reachable_keeps [of "tx_ring (sNetwork s)"]
  by (simp add: system_ok_def net_inv_def calls_back_def server_ok_def ledger_def)

theorem system_invariant_witness:
  "\<exists>s0 w1 s w. main calm_system (system_new sample_netif, 0) = Some (s0, w1) \<and>
    vApplicationIdleHook calm_system (s0, w1) = Some (s, w) \<and>
    (link_flag (sNetwork s) \<longleftrightarrow> mDhcpState (sNetwork s) \<notin> {DhcpLinkDown, Off}) \<and>
    length (mConnections (sTcpEchoServer s)) \<le> sMaxConnections"
proof -
  obtain s0 w1 where m: "main calm_system (system_new sample_netif, 0) = Some (s0, w1)"
    using main_returns [OF calm_healthy] by blast
  obtain s w where i: "vApplicationIdleHook calm_system (s0, w1) = Some (s, w)"
    using idle_returns [OF system_okD(2) [OF main_ok [OF m]] calm_backlog] by blast
  have "system_run calm_system (s0, w1) (s, w)"
    by (rule system_run.step [OF system_run.start system_step.idle [OF i]])
  then show ?thesis using system_invariant [OF m] m i by blast
qed

text \<open>
  C24. Startup completes: on hardware that works, \<open>main\<close> gets to the scheduler, through every loop that
  waits for the hardware, from any state of the program and of the world.
\<close>

theorem startup_completes:
  assumes "healthy env"
  shows "\<exists>s' w'. main env (s, w) = Some (s', w')"
  by (rule main_returns [OF assms])

theorem startup_completes_witness:
  "\<exists>s' w'. main calm_system (system_new sample_netif, 7) = Some (s', w')"
  by (rule startup_completes [OF calm_healthy])

text \<open>
  C25. The loops of the idle hook end: in every state that a run of the system reaches, the hook returns, with its
  loops over the transmit ring, the received packets and the timers, provided that the backlog of received
  packets is finite: each packet that \<open>HAL_ETH_ReadData\<close> returns uses up one, and lwIP's input function and
  freeing a packet bring no new ones. The calls of \<open>printf\<close> on the way are not part of this model of the hook; they
  can wait for the mutex and the stream buffer of the debug UART, so that they return is not stated.
\<close>

theorem idle_hook_returns:
  assumes "main env (system_new g, w0) = Some (s0, w1)" and "system_run env (s0, w1) (s, w)"
    and "finite_backlog (rx_functions (net_functions env)) m"
  shows "\<exists>s' w'. vApplicationIdleHook env (s, w) = Some (s', w')"
  using idle_returns [OF system_okD(2) [OF system_run_ok [OF assms(2) main_ok [OF assms(1)]]] assms(3)] .

theorem idle_hook_returns_witness:
  "\<exists>s0 w1 s w. main calm_system (system_new sample_netif, 0) = Some (s0, w1) \<and>
    vApplicationIdleHook calm_system (s0, w1 + 5) = Some (s, w)"
proof -
  obtain s0 w1 where m: "main calm_system (system_new sample_netif, 0) = Some (s0, w1)"
    using main_returns [OF calm_healthy] by blast
  have "system_run calm_system (s0, w1) (s0, w1 + 5)"
    by (rule system_run.step [OF system_run.start system_step.outside])
  from idle_hook_returns [OF m this calm_backlog] m show ?thesis by blast
qed

end
