(* ===== verification/Lan_Phy_Tests.thy ===== *)
theory Lan_Phy_Tests
  imports Lan_Phy
begin

text \<open>
  The repository's unit tests of the PHY driver, \<open>tests/Lan8742Test.cpp\<close>, on the model. The mocks of the
  bus and the clock follow a script of calls with their answers; each lemma is one test: the status that
  it expects, and every call of the script made, in order, and no other.
\<close>

section \<open>The mocks\<close>

datatype mock_call = Read u32 u32 "bool \<times> u32" | Write u32 u32 u32 bool | Tick u32 | Wait u32

text \<open>The calls still expected; \<open>None\<close> after an unexpected one.\<close>

type_synonym script = "mock_call list option"

fun mock_readReg :: "u32 \<Rightarrow> u32 \<Rightarrow> script \<Rightarrow> (bool \<times> u32) \<times> script" where
  "mock_readReg dev reg (Some (Read d r a # cs)) = (if d = dev \<and> r = reg then (a, Some cs) else ((False, 0), None))"
| "mock_readReg dev reg w = ((False, 0), None)"

fun mock_writeReg :: "u32 \<Rightarrow> u32 \<Rightarrow> u32 \<Rightarrow> script \<Rightarrow> bool \<times> script" where
  "mock_writeReg dev reg v (Some (Write d r x ok # cs)) =
     (if d = dev \<and> r = reg \<and> x = v then (ok, Some cs) else (False, None))"
| "mock_writeReg dev reg v w = (False, None)"

fun mock_tick :: "script \<Rightarrow> u32 \<times> script" where
  "mock_tick (Some (Tick t # cs)) = (t, Some cs)"
| "mock_tick w = (0, None)"

fun mock_wait :: "u32 \<Rightarrow> script \<Rightarrow> script" where
  "mock_wait n (Some (Wait k # cs)) = (if k = n then Some cs else None)"
| "mock_wait n w = None"

definition mocks :: "script phy_env" where
  "mocks = \<lparr>readReg = mock_readReg, writeReg = mock_writeReg, tick = mock_tick, wait = mock_wait\<rparr>"

lemma mocks_simps [simp]:
  "readReg mocks = mock_readReg" "writeReg mocks = mock_writeReg" "tick mocks = mock_tick" "wait mocks = mock_wait"
  by (simp_all add: mocks_def)

text \<open>A test that initialises a new object: the status, and whether the script has been followed to its end.\<close>

definition init_test :: "mock_call list \<Rightarrow> Status \<Rightarrow> bool" where
  "init_test cs st \<longleftrightarrow> (\<exists>p. Lan8742_init mocks (\<lparr>mDevAddr = 0\<rparr>, Some cs) = Some (st, p, Some []))"

text \<open>The fixture finds the device at address 1; a test of \<open>getLinkState\<close> goes on from there.\<close>

definition initExpectationsWithDevAddr1 :: "mock_call list" where
  "initExpectationsWithDevAddr1 = [Read 0 sAddr_SMR (False, 0), Read 1 sAddr_SMR (True, 1),
     Write 1 sAddr_BCR sMask_BCR_SOFTRESET True, Tick 0, Read 1 sAddr_BCR (True, 0), Wait sInitializationWaitTime_ms]"

definition link_test :: "mock_call list \<Rightarrow> Status \<Rightarrow> bool" where
  "link_test cs st \<longleftrightarrow> (case Lan8742_init mocks (\<lparr>mDevAddr = 0\<rparr>, Some (initExpectationsWithDevAddr1 @ cs)) of
     Some (Ok, p, w) \<Rightarrow> getLinkState mocks (p, w) = (st, Some [])
   | _ \<Rightarrow> False)"

section \<open>The tests\<close>

lemma find_none:
  assumes "addr \<le> sMaxDevAddr"
  shows "findDevice mocks addr (Some (map (\<lambda>a. Read (of_nat a) sAddr_SMR (False, 0)) [unat addr..<32] @ cs)) =
    (None, Some cs)"
  using assms
proof (induction "31 - unat addr" arbitrary: addr)
  case 0
  then have "addr = 31" by (simp add: sMaxDevAddr_def word_le_nat_alt word_unat_eq_iff)
  then show ?case by (subst findDevice.simps) (simp add: sMaxDevAddr_def)
next
  case (Suc n)
  then have lt: "unat addr < 31" and ne: "addr \<noteq> 31" by (auto simp: sMaxDevAddr_def)
  then have u: "unat (addr + 1) = Suc (unat addr)" by (simp add: unat_word_ariths)
  have "findDevice mocks (addr + 1)
      (Some (map (\<lambda>a. Read (of_nat a) sAddr_SMR (False, 0)) [unat (addr + 1)..<32] @ cs)) = (None, Some cs)"
    using Suc.hyps lt u by (intro Suc.hyps) (simp_all add: sMaxDevAddr_def word_le_nat_alt)
  moreover have "[unat addr..<32] = unat addr # [unat (addr + 1)..<32]"
    using lt u by (simp add: upt_conv_Cons)
  ultimately show ?case
    using Suc.prems ne by (subst findDevice.simps) (simp add: sMaxDevAddr_def)
qed

lemma CannotFindDevice:
  "init_test (map (\<lambda>a. Read (of_nat a) sAddr_SMR (False, 0)) [0..<32]) AddressError"
  using find_none [of 0 "[]"] by (simp add: init_test_def Lan8742_init_def del: upt_rec_numeral)

lemmas find_first = findDevice.simps [of mocks 0] findDevice.simps [of mocks 1]

lemma CannotWriteToDevice:
  "init_test [Read 0 sAddr_SMR (True, 0), Write 0 sAddr_BCR sMask_BCR_SOFTRESET False] WriteError"
  by (simp add: init_test_def Lan8742_init_def find_first)

lemma CannotReadBCRReg:
  "init_test [Read 0 sAddr_SMR (True, 0), Write 0 sAddr_BCR sMask_BCR_SOFTRESET True, Tick 0,
    Read 0 sAddr_BCR (False, 0)] ReadError"
  by (simp add: init_test_def Lan8742_init_def find_first awaitReset.simps)

lemma TimeoutBeforeReset:
  "init_test [Read 0 sAddr_SMR (True, 0), Write 0 sAddr_BCR sMask_BCR_SOFTRESET True, Tick 0,
    Read 0 sAddr_BCR (True, 0xFFFFFFFF), Tick (2 * sResetTimeout_ms)] ResetTimeout"
  by (simp add: init_test_def Lan8742_init_def find_first awaitReset.simps sMask_BCR_SOFTRESET_def sResetTimeout_ms_def)

lemma fixture_init:
  "Lan8742_init mocks (\<lparr>mDevAddr = 0\<rparr>, Some (initExpectationsWithDevAddr1 @ cs)) =
    Some (Ok, \<lparr>mDevAddr = 1\<rparr>, Some cs)"
  by (simp add: initExpectationsWithDevAddr1_def Lan8742_init_def find_first awaitReset.simps
      sMaxDevAddr_def sMask_SMR_PHYSADDR_def)

lemma InitSequence: "init_test initExpectationsWithDevAddr1 Ok"
  using fixture_init [of "[]"] by (simp add: init_test_def)

lemmas link_test_simps = link_test_def fixture_init getLinkState_def phy_consts

lemma LinkDownTest: "link_test [Read 1 sAddr_BSR (True, 0)] LinkDown"
  by (simp add: link_test_simps)

lemma HalfDuplex100Mbit:
  "link_test [Read 1 sAddr_BSR (True, sMask_BSR_LINK_STATUS), Read 1 sAddr_BCR (True, sMask_BCR_SPEED_SELECT)]
    HalfDuplex100Mbit"
  by (simp add: link_test_simps)

lemma AutoNegNotDone:
  "link_test [Read 1 sAddr_BSR (True, sMask_BSR_LINK_STATUS), Read 1 sAddr_BCR (True, sMask_BCR_AUTONEGO_EN),
    Read 1 sAddr_PHYSCSR (True, sMask_PHYSCSR_10BT_FD)] AutonegoNotDone"
  by (simp add: link_test_simps)

lemma FullDuplex10MbitAutoNegEn:
  "link_test [Read 1 sAddr_BSR (True, sMask_BSR_LINK_STATUS), Read 1 sAddr_BCR (True, sMask_BCR_AUTONEGO_EN),
    Read 1 sAddr_PHYSCSR (True, sMask_PHYSCSR_10BT_FD OR sMask_PHYSCSR_AUTONEGO_DONE)] FullDuplex10Mbit"
  by (simp add: link_test_simps)

end
