(* ===== verification/Options.thy ===== *)
theory Options
  imports Tcp_Server Debug_Uart Memory_Map Eth_Rx Eth_Tx
begin

text \<open>
  The sizes that \<open>include/lwipopts.h\<close>, \<open>include/FreeRTOSConfig.h\<close> and \<open>include/stm32h7xx_hal_conf.h\<close> give to
  lwIP, FreeRTOS and the HAL, and that they fit each other and the code: the conditions that lwIP documents for
  its options, the limits of the server, the pool of receive buffers, the interrupt priorities.
\<close>

section \<open>The options\<close>

definition MEM_ALIGNMENT :: nat where "MEM_ALIGNMENT = 4"
definition MEMP_NUM_TCP_PCB :: nat where "MEMP_NUM_TCP_PCB = 10"
definition MEMP_NUM_TCP_PCB_LISTEN :: nat where "MEMP_NUM_TCP_PCB_LISTEN = 6"
definition MEMP_NUM_TCP_SEG :: nat where "MEMP_NUM_TCP_SEG = 8"
definition PBUF_POOL_BUFSIZE :: nat where "PBUF_POOL_BUFSIZE = 1528"
definition TCP_MSS :: nat where "TCP_MSS = 1500 - 40"
definition TCP_SND_BUF :: nat where "TCP_SND_BUF = 4 * TCP_MSS"
definition TCP_SND_QUEUELEN :: nat where "TCP_SND_QUEUELEN = 2 * TCP_SND_BUF div TCP_MSS"
definition TCP_WND :: nat where "TCP_WND = 2 * TCP_MSS"

definition ETH_TX_DESC_CNT :: nat where "ETH_TX_DESC_CNT = 4"
definition ETH_RX_DESC_CNT :: nat where "ETH_RX_DESC_CNT = 4"

definition configTICK_RATE_HZ :: u32 where "configTICK_RATE_HZ = 1000"
definition configPRIO_BITS :: nat where "configPRIO_BITS = 4"
definition configLIBRARY_LOWEST_INTERRUPT_PRIORITY :: nat where "configLIBRARY_LOWEST_INTERRUPT_PRIORITY = 15"
definition configLIBRARY_MAX_SYSCALL_INTERRUPT_PRIORITY :: nat where
  "configLIBRARY_MAX_SYSCALL_INTERRUPT_PRIORITY = 5"
definition configKERNEL_INTERRUPT_PRIORITY :: nat where
  "configKERNEL_INTERRUPT_PRIORITY = push_bit (8 - configPRIO_BITS) configLIBRARY_LOWEST_INTERRUPT_PRIORITY"
definition configMAX_SYSCALL_INTERRUPT_PRIORITY :: nat where
  "configMAX_SYSCALL_INTERRUPT_PRIORITY = push_bit (8 - configPRIO_BITS) configLIBRARY_MAX_SYSCALL_INTERRUPT_PRIORITY"

lemmas tcp_options = TCP_MSS_def TCP_SND_BUF_def TCP_SND_QUEUELEN_def TCP_WND_def MEMP_NUM_TCP_SEG_def
  PBUF_POOL_BUFSIZE_def

text \<open>Which checksums lwIP computes in outgoing packets.\<close>

definition CHECKSUM_GEN_IP :: bool where "CHECKSUM_GEN_IP = False"
definition CHECKSUM_GEN_UDP :: bool where "CHECKSUM_GEN_UDP = False"
definition CHECKSUM_GEN_TCP :: bool where "CHECKSUM_GEN_TCP = False"

lemmas checksum_options = CHECKSUM_GEN_IP_def CHECKSUM_GEN_UDP_def CHECKSUM_GEN_TCP_def

section \<open>They fit\<close>

text \<open>
  lwIP's conditions: at least two segments in the send buffer, two queue entries for each, a segment
  structure for each entry, a window of at least one segment that 16 bits can announce, and a whole frame in a buffer.
\<close>

lemma lwip_conditions:
  "2 * TCP_MSS \<le> TCP_SND_BUF" "2 * (TCP_SND_BUF div TCP_MSS) \<le> TCP_SND_QUEUELEN"
  "TCP_SND_QUEUELEN \<le> MEMP_NUM_TCP_SEG" "TCP_MSS \<le> TCP_WND" "TCP_WND \<le> 0xFFFF" "TCP_SND_BUF \<le> 0xFFFF"
  "14 + 40 + TCP_MSS \<le> PBUF_POOL_BUFSIZE"
  by (simp_all add: tcp_options)

text \<open>There is a control block for every connection that the server keeps and one to listen with.\<close>

lemma control_blocks_suffice: "sMaxConnections \<le> MEMP_NUM_TCP_PCB" "1 \<le> MEMP_NUM_TCP_PCB_LISTEN"
  by (simp_all add: sMaxConnections_def MEMP_NUM_TCP_PCB_def MEMP_NUM_TCP_PCB_LISTEN_def)

text \<open>
  The heap holds the send buffer of one connection but not of two, so a second busy connection has its data refused,
  which the echo server then keeps.
\<close>

lemma heap_holds_one_send_buffer:
  "TCP_SND_BUF < MEM_SIZE" "MEM_SIZE < 2 * TCP_SND_BUF" "unat LWIP_RAM_HEAP_POINTER mod MEM_ALIGNMENT = 0"
  by (simp_all add: tcp_options MEM_SIZE_def MEM_ALIGNMENT_def LWIP_RAM_HEAP_POINTER_def)

text \<open>
  A full frame takes two receive buffers; the pool holds a whole window of such frames besides the buffers
  of the DMA descriptors, for two connections but not for ten.
\<close>

lemma window_fits_pool:
  "unat ETH_RX_BUFFER_SIZE < 14 + 40 + TCP_MSS" "14 + 40 + TCP_MSS \<le> 2 * unat ETH_RX_BUFFER_SIZE"
  "2 * (2 * (TCP_WND div TCP_MSS)) + ETH_RX_DESC_CNT \<le> ETH_RX_BUFFER_CNT"
  "ETH_RX_BUFFER_CNT < sMaxConnections * (2 * (TCP_WND div TCP_MSS)) + ETH_RX_DESC_CNT"
  by (simp_all add: tcp_options ETH_RX_BUFFER_SIZE_def ETH_RX_BUFFER_CNT_def ETH_RX_DESC_CNT_def sMaxConnections_def)

lemma ring_size: "unat sEthTxDescCount = ETH_TX_DESC_CNT"
  by (simp add: sEthTxDescCount_def ETH_TX_DESC_CNT_def)

text \<open>
  FreeRTOS's rule: the limit for interrupts that use it is not zero, it is above the kernel's own priority, and the
  interrupts of the UART, whose handler uses FreeRTOS, are not above the limit.
\<close>

lemma interrupt_priorities:
  "configMAX_SYSCALL_INTERRUPT_PRIORITY = 0x50" "configKERNEL_INTERRUPT_PRIORITY = 0xF0"
  "\<forall>i p s. NVIC_SetPriority i p s \<in> set uart_irq_ops \<longrightarrow>
    configLIBRARY_MAX_SYSCALL_INTERRUPT_PRIORITY \<le> p \<and> p \<le> configLIBRARY_LOWEST_INTERRUPT_PRIORITY"
  by (simp_all add: configMAX_SYSCALL_INTERRUPT_PRIORITY_def configKERNEL_INTERRUPT_PRIORITY_def configPRIO_BITS_def
      configLIBRARY_MAX_SYSCALL_INTERRUPT_PRIORITY_def configLIBRARY_LOWEST_INTERRUPT_PRIORITY_def uart_irq_ops_def
      push_bit_eq_mult)

text \<open>
  The time to wait for the mutex of the debug UART is meant to be without limit. Where \<open>pdMS_TO_TICKS\<close> multiplies by
  the tick rate in 32 bits, as FreeRTOS 10 does, it is 4294966 ticks, less than 72 minutes.
\<close>

lemma wait_forever_is_finite:
  "sWaitForever * configTICK_RATE_HZ div 1000 = 4294966" "4294966 < 72 * 60 * unat configTICK_RATE_HZ"
  by (simp_all add: sWaitForever_def configTICK_RATE_HZ_def)

section \<open>Checksums\<close>

text \<open>
  The field of the descriptor that asks the DMA to insert checksums, of the IP header (bit 16 set) and of the
  payload with its pseudo header (3).
\<close>

definition insertion :: "TxDescriptor \<Rightarrow> u32" where "insertion d = drop_bit 16 (mDesc3 d) AND 3"

definition inserts_ip :: "TxDescriptor \<Rightarrow> bool" where "inserts_ip d \<longleftrightarrow> bit (insertion d) 0"

definition inserts_payload :: "TxDescriptor \<Rightarrow> bool" where "inserts_payload d \<longleftrightarrow> insertion d = 3"

lemma insertion_bits: "bit (mDesc3 d) 16 \<Longrightarrow> bit (mDesc3 d) 17 \<Longrightarrow> insertion d = 3"
proof (rule bit_word_eqI)
  fix n :: nat
  assume b: "bit (mDesc3 d) 16" "bit (mDesc3 d) 17" and "n < LENGTH(32)"
  have "(3 :: u32) = push_bit 0 1 OR push_bit 1 1" by simp
  then have "bit (3 :: u32) n \<longleftrightarrow> n = 0 \<or> n = 1"
    by (simp only: bit_or_iff bit_exp)
  then show "bit (insertion d) n \<longleftrightarrow> bit (3 :: u32) n"
    using b by (auto simp: insertion_def bit_simps)
qed

lemma fillDescriptor_insertion: "insertion (fst (fillDescriptor h p bufs n i d)) = 3"
  by (rule insertion_bits)
    (auto simp: fillDescriptor_def createSpan_def TxDescriptor_set_def setOwned_def setLastDescriptor_def
      setFirstDescriptor_def setAppData_def bit_or_iff Let_def split: prod.splits)

lemma packed_insertion: "d \<in> set (packed h p bufs n i ds) \<Longrightarrow> insertion d = 3"
  by (induction h p bufs n i ds rule: packed.induct) (auto simp: Let_def fillDescriptor_insertion)

section \<open>Property\<close>

text \<open>
  C30. Every checksum of an accepted packet is asked of someone: of the IP header, and of a TCP or UDP payload,
  either lwIP is configured to compute the checksum (it is not), or every descriptor of the packet asks the DMA
  to insert it. That the DMA does so is not stated: \<open>lwipopts.h\<close> itself notes that the hardware inserts no TCP or
  UDP checksum into an IPv4 fragment.
\<close>

theorem checksums_requested:
  assumes "tx_inv st" and "lowLevelOutput h base p st = (ERR_OK, st')"
  shows "\<exists>ds. inflight st' = inflight st @ ds \<and>
    (CHECKSUM_GEN_IP \<or> (\<forall>d\<in>set ds. inserts_ip d)) \<and>
    (CHECKSUM_GEN_TCP \<and> CHECKSUM_GEN_UDP \<or> (\<forall>d\<in>set ds. inserts_payload d))"
  using assms
proof (cases rule: lowLevelOutput_cases)
  case (sent bufs n)
  let ?ds = "packed h p bufs n 0 (ring_slice (sTxDescriptors st) (unat (sAvailableIndex st)) (needed bufs 0))"
  have ins: "\<forall>d\<in>set ?ds. insertion d = 3" using packed_insertion by blast
  then have "\<forall>d\<in>set ?ds. inserts_payload d" "\<forall>d\<in>set ?ds. inserts_ip d"
    by (auto simp: inserts_payload_def inserts_ip_def)
  with sent(7) show ?thesis by blast
qed simp

theorem checksums_requested_witness:
  "\<exists>ds. inflight (snd (lowLevelOutput one_buffer 0x30000400 7 eth_tx_init)) = inflight eth_tx_init @ ds \<and>
    (\<forall>d\<in>set ds. insertion d = 3)"
proof -
  have "lowLevelOutput one_buffer 0x30000400 7 eth_tx_init =
      (ERR_OK, snd (lowLevelOutput one_buffer 0x30000400 7 eth_tx_init))"
    by (rule one_buffer_sent(1) [OF tx_init_inv init_available]) simp
  from checksums_requested [OF tx_init_inv this] show ?thesis
    by (simp add: checksum_options inserts_payload_def) blast
qed

end
