(* ===== verification/Network_Timing.thy ===== *)
theory Network_Timing
  imports Network_RTOS
begin

text \<open>
  How long the network loop takes to get an address: what one iteration does to the DHCP state while the link
  stays up, seen through the tick and the state of lwIP at the moment at which the DHCP timer is polled.
\<close>

section \<open>One iteration\<close>

text \<open>The network and the world when an iteration of \<open>lwipThread\<close> comes to poll the DHCP timer.\<close>

definition dhcp_poll_point ::
  "('w, 'm) net_env \<Rightarrow> 'm network \<times> 'w \<Rightarrow> ('m network \<times> 'w) option" where
  "dhcp_poll_point env nw = map_option (\<lambda>nw. poll_link_timer env (lwip_call env Sys_check_timeouts nw))
     (Ethernetif_service env nw)"

text \<open>The tick that this poll reads, and whether lwIP has then got an address or has tried too often.\<close>

definition dhcp_tick :: "('w, 'm) net_env \<Rightarrow> 'm network \<times> 'w \<Rightarrow> u32" where
  "dhcp_tick env nw =
     (case dhcp_poll_point env nw of None \<Rightarrow> 0 | Some (n, w) \<Rightarrow> fst (HAL_GetTick (hal env) w))"

definition dhcp_decided :: "('w, 'm) net_env \<Rightarrow> 'm network \<times> 'w \<Rightarrow> bool" where
  "dhcp_decided env nw =
     (case dhcp_poll_point env nw of
       None \<Rightarrow> False
     | Some (n, w) \<Rightarrow>
         let w = snd (HAL_GetTick (hal env) w)
         in dhcp_supplied_address env w \<or> sMaxDhcpTries < dhcp_tries env w)"

definition dhcp_due :: "('w, 'm) net_env \<Rightarrow> 'm network \<times> 'w \<Rightarrow> bool" where
  "dhcp_due env nw \<longleftrightarrow>
     mPrevTick (mDHCPTimer (fst nw)) + mExpiry (mDHCPTimer (fst nw)) < dhcp_tick env nw"

lemma lwipThread_split: "lwipThread env nw = map_option (poll_dhcp_timer env) (dhcp_poll_point env nw)"
  by (simp add: lwipThread_def dhcp_poll_point_def option.map_comp comp_def split: option.split)

subsection \<open>Nothing else runs the DHCP timer\<close>

lemma lwip_call_dhcp [simp]:
  "mDHCPTimer (fst (lwip_call env c nw)) = mDHCPTimer (fst nw)"
  "mDhcpState (fst (lwip_call env c nw)) = mDhcpState (fst nw)"
  "link_flag (fst (lwip_call env c nw)) = link_flag (fst nw)"
  by (cases nw; simp add: lwip_call_def)+

lemma do_link_op_timer [simp]: "mDHCPTimer (do_link_op op n) = mDHCPTimer n"
  by (cases op) (simp_all add: set_link_flag_def lwipLinkCallback_def linkStatusUpdated_def isLinkUp_def Let_def)

lemma do_init_op_timer [simp]: "mDHCPTimer (do_init_op op n) = mDHCPTimer n"
  by (cases op) simp_all

lemma fold_init_op_timer [simp]: "mDHCPTimer (fold do_init_op ops n) = mDHCPTimer n"
  by (induction ops arbitrary: n) simp_all

lemma service_dhcp:
  "Ethernetif_service env nw = Some nw' \<Longrightarrow> mDHCPTimer (fst nw') = mDHCPTimer (fst nw) \<and>
    mDhcpState (fst nw') = mDhcpState (fst nw) \<and> link_flag (fst nw') = link_flag (fst nw) \<and>
    net_inv (fst nw') = net_inv (fst nw)"
  by (cases nw) (auto simp: Ethernetif_service_def net_inv_def calls_back_def split: option.splits)

lemma dhcpProcess_frame [simp]:
  "mDHCPTimer (fst (dhcpProcess env nw)) = mDHCPTimer (fst nw)"
  "link_flag (fst (dhcpProcess env nw)) = link_flag (fst nw)"
  by (cases nw; simp add: dhcpProcess_def dhcpStart_def setStaticIp_def lwip_call_def split: DhcpState.split)+

subsection \<open>The link timer\<close>

lemma poll_link_timer_dhcp:
  assumes "net_inv (fst nw)"
  shows "mDHCPTimer (fst (poll_link_timer env nw)) = mDHCPTimer (fst nw)"
    and "link_flag (fst nw) \<Longrightarrow> link_flag (fst (poll_link_timer env nw)) \<Longrightarrow>
      mDhcpState (fst (poll_link_timer env nw)) = mDhcpState (fst nw)"
proof -
  obtain n w where nw: "nw = (n, w)" by fastforce
  obtain t w1 where t: "HAL_GetTick (hal env) w = (t, w1)" by fastforce
  obtain timer cb where p: "poll t (mLinkTimer n) = (timer, cb)" by fastforce
  have cb: "cb = None \<or> cb = Some CheckLinkState"
    using p assms nw ltimer.idle [of "mLinkTimer n" t] ltimer.fires [of "mLinkTimer n" t]
    by (cases "mPrevTick (mLinkTimer n) + mExpiry (mLinkTimer n) < t") (auto simp: net_inv_def calls_back_def)
  let ?n = "n\<lparr>mLinkTimer := timer\<rparr>"
  have reg: "calls_back ?n" using assms nw by (simp add: net_inv_def calls_back_def)
  obtain st w2 where st: "getLinkState (Ether (hal env)) (sLan8742 n, w1) = (st, w2)" by fastforce
  have eq: "poll_link_timer env (n, w) = run_callback env cb (?n, w1)"
    by (simp add: poll_link_timer_def nw t p)
  show "mDHCPTimer (fst (poll_link_timer env nw)) = mDHCPTimer (fst nw)"
    using cb by (auto simp: eq nw checkLinkState_def split: prod.split)
  show "mDhcpState (fst (poll_link_timer env nw)) = mDhcpState (fst nw)"
    if "link_flag (fst nw)" and "link_flag (fst (poll_link_timer env nw))"
    using cb that link_ops_effect [OF reg, of st "HAL_ETH_GetMACConfig (hal env) w2"]
    by (auto simp: eq nw checkLinkState_def ethernet_link_check_state_def st Let_def split: if_splits)
qed

subsection \<open>The effect of an iteration\<close>

text \<open>A run of the DHCP process that finds lwIP decided, or not.\<close>

fun dhcp_after :: "bool \<Rightarrow> DhcpState \<Rightarrow> DhcpState set" where
  "dhcp_after d Start = {WaitAddress}"
| "dhcp_after d WaitAddress = (if d then {AddressAssigned, Timeout} else {WaitAddress})"
| "dhcp_after d DhcpLinkDown = {Off}"
| "dhcp_after d s = {s}"

lemma dhcpProcess_after:
  "mDhcpState (fst (dhcpProcess env (n, w))) \<in>
     dhcp_after (dhcp_supplied_address env w \<or> sMaxDhcpTries < dhcp_tries env w) (mDhcpState n)"
  by (simp add: dhcpProcess_def dhcpStart_def setStaticIp_def lwip_call_def split: DhcpState.split)

lemma lwipThread_dhcp:
  assumes step: "lwipThread env nw = Some nw'" and inv: "net_inv (fst nw)"
  shows "mDHCPTimer (fst nw') = fst (poll (dhcp_tick env nw) (mDHCPTimer (fst nw)))"
    and "link_flag (fst nw) \<Longrightarrow> link_flag (fst nw') \<Longrightarrow> mDhcpState (fst nw') \<in>
      (if dhcp_due env nw then dhcp_after (dhcp_decided env nw) (mDhcpState (fst nw)) else {mDhcpState (fst nw)})"
proof -
  obtain n w where pt: "dhcp_poll_point env nw = Some (n, w)" and nw': "nw' = poll_dhcp_timer env (n, w)"
    using step by (auto simp: lwipThread_split)
  obtain s where s: "Ethernetif_service env nw = Some s"
    and n: "(n, w) = poll_link_timer env (lwip_call env Sys_check_timeouts s)"
    using pt by (auto simp: dhcp_poll_point_def)
  have i: "net_inv (fst (lwip_call env Sys_check_timeouts s))"
    using service_dhcp [OF s] inv by (simp add: lwip_call_inv)
  have timer: "mDHCPTimer n = mDHCPTimer (fst nw)"
    using poll_link_timer_dhcp(1) [OF i, of env] n service_dhcp [OF s] by (metis fst_conv lwip_call_dhcp(1))
  obtain t w1 where t: "HAL_GetTick (hal env) w = (t, w1)" by fastforce
  have tick: "dhcp_tick env nw = t" by (simp add: dhcp_tick_def pt t)
  obtain timer' cb where p: "poll t (mDHCPTimer n) = (timer', cb)" by fastforce
  have eq: "nw' = run_callback env cb (n\<lparr>mDHCPTimer := timer'\<rparr>, w1)"
    by (simp add: nw' poll_dhcp_timer_def t p)
  have inv_n: "net_inv n" using poll_link_timer_inv [OF i, of env] n by (metis fst_conv)
  have cb: "cb = (if dhcp_due env nw then Some DhcpProcess else None)"
    using p inv_n timer tick by (auto simp: dhcp_due_def poll_def net_inv_def calls_back_def split: if_splits)
  show "mDHCPTimer (fst nw') = fst (poll (dhcp_tick env nw) (mDHCPTimer (fst nw)))"
    using p timer tick by (simp add: eq cb)
  assume up: "link_flag (fst nw)" "link_flag (fst nw')"
  have "link_flag n" using up(2) by (simp add: eq cb split: if_splits)
  then have state: "mDhcpState n = mDhcpState (fst nw)"
    using poll_link_timer_dhcp(2) [OF i, of env] n up(1) service_dhcp [OF s] by (metis fst_conv lwip_call_dhcp(2,3))
  show "mDhcpState (fst nw') \<in>
      (if dhcp_due env nw then dhcp_after (dhcp_decided env nw) (mDhcpState (fst nw)) else {mDhcpState (fst nw)})"
    using dhcpProcess_after [of env "n\<lparr>mDHCPTimer := timer'\<rparr>" w1] state
    by (simp add: eq cb dhcp_decided_def pt t)
qed

subsection \<open>What has been asked of lwIP about the address\<close>

text \<open>The calls of lwIP but for its own timers, and how they end in the states that follow a start of DHCP.\<close>

definition address_calls :: "'m network \<Rightarrow> net_call list" where
  "address_calls n = filter (\<lambda>c. c \<noteq> Sys_check_timeouts) (net_calls n)"

definition dhcp_started :: "'m network \<Rightarrow> bool" where
  "dhcp_started n \<longleftrightarrow> (\<exists>before. address_calls n = before @ [Netif_clear_addresses, Dhcp_start])"

definition static_set :: "'m network \<Rightarrow> bool" where
  "static_set n \<longleftrightarrow> (\<exists>before. address_calls n =
     before @ [Netif_clear_addresses, Dhcp_start, Netif_set_addr IP_ADDR NETMASK_ADDR GW_ADDR])"

definition address_inv :: "'m network \<Rightarrow> bool" where
  "address_inv n \<longleftrightarrow> (mDhcpState n \<in> {WaitAddress, AddressAssigned} \<longrightarrow> dhcp_started n) \<and>
     (mDhcpState n = Timeout \<longrightarrow> static_set n)"

lemma address_calls_app: "address_calls (n\<lparr>net_calls := net_calls n @ cs\<rparr>) =
    address_calls n @ filter (\<lambda>c. c \<noteq> Sys_check_timeouts) cs"
  by (simp add: address_calls_def)

lemma address_inv_cong:
  "net_calls n = net_calls n' \<Longrightarrow> mDhcpState n = mDhcpState n' \<Longrightarrow> address_inv n = address_inv n'"
  by (simp add: address_inv_def dhcp_started_def static_set_def address_calls_def)

lemma address_inv_timers [simp]:
  "address_inv (n\<lparr>mLinkTimer := t\<rparr>) = address_inv n" "address_inv (n\<lparr>mDHCPTimer := t\<rparr>) = address_inv n"
  by (rule address_inv_cong; simp)+

lemma address_inv_timeouts: "address_inv (fst nw) \<Longrightarrow> address_inv (fst (lwip_call env Sys_check_timeouts nw))"
  by (cases nw) (simp add: lwip_call_def address_inv_def dhcp_started_def static_set_def address_calls_app)

lemma address_inv_service:
  assumes "Ethernetif_service env nw = Some nw'"
  shows "address_inv (fst nw') = address_inv (fst nw)"
  using assms by (cases nw) (auto simp: Ethernetif_service_def split: option.splits intro!: address_inv_cong)

lemma do_link_op_calls:
  "net_calls (do_link_op op n) = net_calls n"
  "mDhcpState (do_link_op op n) = mDhcpState n \<or> mDhcpState (do_link_op op n) \<in> {Start, DhcpLinkDown}"
  by (cases op; auto simp: set_link_flag_def lwipLinkCallback_def linkStatusUpdated_def isLinkUp_def Let_def)+

lemma do_init_op_calls:
  "net_calls (do_init_op op n) = net_calls n \<and>
    (mDhcpState (do_init_op op n) = mDhcpState n \<or> mDhcpState (do_init_op op n) \<in> {Start, DhcpLinkDown})"
proof (cases op)
  case (Link_op lop)
  then show ?thesis
    using do_link_op_calls [of lop "n\<lparr>link_calls := link_calls n @ [Link_op lop]\<rparr>"] by simp
qed simp_all

lemma fold_init_op_calls:
  "net_calls (fold do_init_op ops n) = net_calls n \<and>
    (mDhcpState (fold do_init_op ops n) = mDhcpState n \<or> mDhcpState (fold do_init_op ops n) \<in> {Start, DhcpLinkDown})"
proof (induction ops arbitrary: n)
  case (Cons op ops)
  from Cons.IH [of "do_init_op op n"] do_init_op_calls [of op n] show ?case
    unfolding fold_Cons comp_def by metis
qed simp

lemma checkLinkState_calls:
  "net_calls (fst (checkLinkState env nw)) = net_calls (fst nw)"
  "mDhcpState (fst (checkLinkState env nw)) \<in> {mDhcpState (fst nw), Start, DhcpLinkDown}"
proof -
  obtain n w where nw: "nw = (n, w)" by fastforce
  obtain ops w' where "ethernet_link_check_state (hal env) (link_flag n) (sLan8742 n, w) = (ops, w')" by fastforce
  then have "fst (checkLinkState env nw) = fold do_init_op (map Link_op ops) n" by (simp add: nw checkLinkState_def)
  then show "net_calls (fst (checkLinkState env nw)) = net_calls (fst nw)"
    and "mDhcpState (fst (checkLinkState env nw)) \<in> {mDhcpState (fst nw), Start, DhcpLinkDown}"
    using fold_init_op_calls [of "map Link_op ops" n] nw by auto
qed

lemma dhcpProcess_address: "address_inv (fst nw) \<Longrightarrow> address_inv (fst (dhcpProcess env nw))"
  by (cases nw; cases "mDhcpState (fst nw)")
    (auto simp: dhcpProcess_def setStaticIp_def lwip_call_def address_inv_def dhcp_started_def static_set_def address_calls_def)

lemma run_callback_address: "address_inv (fst nw) \<Longrightarrow> address_inv (fst (run_callback env cb nw))"
proof (cases "(env, cb, nw)" rule: run_callback.cases)
  case (2 env' nw')
  assume "address_inv (fst nw)"
  then show ?thesis using 2 checkLinkState_calls [of env nw]
    by (auto simp: address_inv_def dhcp_started_def static_set_def address_calls_def)
qed (auto intro: dhcpProcess_address)

lemma lwipThread_address:
  assumes "lwipThread env nw = Some nw'" and "address_inv (fst nw)"
  shows "address_inv (fst nw')"
proof -
  obtain s where s: "Ethernetif_service env nw = Some s"
    and nw': "nw' = poll_dhcp_timer env (poll_link_timer env (lwip_call env Sys_check_timeouts s))"
    using assms(1) by (auto simp: lwipThread_def split: option.splits)
  have "address_inv (fst (lwip_call env Sys_check_timeouts s))"
    using assms(2) address_inv_service [OF s] by (simp add: address_inv_timeouts)
  then have "address_inv (fst (poll_link_timer env (lwip_call env Sys_check_timeouts s)))"
    by (cases "lwip_call env Sys_check_timeouts s")
      (auto simp: poll_link_timer_def split: prod.split intro!: run_callback_address)
  then show ?thesis
    unfolding nw' by (cases "poll_link_timer env (lwip_call env Sys_check_timeouts s)")
      (auto simp: poll_dhcp_timer_def split: prod.split intro!: run_callback_address)
qed

text \<open>Whether lwIP has an address when the DHCP timer is polled; only then, or when it has tried too often, is there an outcome.\<close>

definition dhcp_answered :: "('w, 'm) net_env \<Rightarrow> 'm network \<times> 'w \<Rightarrow> bool" where
  "dhcp_answered env nw =
     (case dhcp_poll_point env nw of
       None \<Rightarrow> False | Some (n, w) \<Rightarrow> dhcp_supplied_address env (snd (HAL_GetTick (hal env) w)))"

lemma poll_link_timer_state:
  assumes "net_inv (fst nw)"
  shows "mDhcpState (fst (poll_link_timer env nw)) \<in> {mDhcpState (fst nw), Start, DhcpLinkDown}"
proof -
  obtain n w where nw: "nw = (n, w)" by fastforce
  obtain t w1 where t: "HAL_GetTick (hal env) w = (t, w1)" by fastforce
  obtain timer cb where p: "poll t (mLinkTimer n) = (timer, cb)" by fastforce
  have "cb = None \<or> cb = Some CheckLinkState"
    using p assms nw by (auto simp: poll_def net_inv_def split: if_splits)
  then show ?thesis
    using checkLinkState_calls(2) [of env "(n\<lparr>mLinkTimer := timer\<rparr>, w1)"]
    by (auto simp: poll_link_timer_def nw t p)
qed

lemma lwipThread_outcome:
  assumes step: "lwipThread env nw = Some nw'" and inv: "net_inv (fst nw)"
  shows "mDhcpState (fst nw') = AddressAssigned \<Longrightarrow> mDhcpState (fst nw) = AddressAssigned \<or> dhcp_answered env nw"
    and "mDhcpState (fst nw') = Timeout \<Longrightarrow>
      mDhcpState (fst nw) = Timeout \<or> dhcp_decided env nw \<and> \<not> dhcp_answered env nw"
proof -
  obtain n w where pt: "dhcp_poll_point env nw = Some (n, w)" and nw': "nw' = poll_dhcp_timer env (n, w)"
    using step by (auto simp: lwipThread_split)
  obtain s where s: "Ethernetif_service env nw = Some s"
    and n: "(n, w) = poll_link_timer env (lwip_call env Sys_check_timeouts s)"
    using pt by (auto simp: dhcp_poll_point_def)
  have i: "net_inv (fst (lwip_call env Sys_check_timeouts s))"
    using service_dhcp [OF s] inv by (simp add: lwip_call_inv)
  have state: "mDhcpState n \<in> {mDhcpState (fst nw), Start, DhcpLinkDown}"
    using poll_link_timer_state [OF i, of env] n service_dhcp [OF s] by (metis fst_conv lwip_call_dhcp(2))
  have inv_n: "net_inv n" using poll_link_timer_inv [OF i, of env] n by (metis fst_conv)
  obtain t w1 where t: "HAL_GetTick (hal env) w = (t, w1)" by fastforce
  obtain timer cb where p: "poll t (mDHCPTimer n) = (timer, cb)" by fastforce
  have cb: "cb = None \<or> cb = Some DhcpProcess"
    using p inv_n by (auto simp: poll_def net_inv_def split: if_splits)
  have eq: "nw' = run_callback env cb (n\<lparr>mDHCPTimer := timer\<rparr>, w1)" by (simp add: nw' poll_dhcp_timer_def t p)
  note point = dhcp_answered_def dhcp_decided_def pt t
  show "mDhcpState (fst nw) = AddressAssigned \<or> dhcp_answered env nw" if "mDhcpState (fst nw') = AddressAssigned"
    using that cb state by (cases "mDhcpState n")
      (auto simp: eq point dhcpProcess_def setStaticIp_def lwip_call_def split: if_splits)
  show "mDhcpState (fst nw) = Timeout \<or> dhcp_decided env nw \<and> \<not> dhcp_answered env nw"
    if "mDhcpState (fst nw') = Timeout"
    using that cb state by (cases "mDhcpState n")
      (auto simp: eq point dhcpProcess_def setStaticIp_def lwip_call_def split: if_splits)
qed

section \<open>Runs of the loop\<close>

text \<open>
  A run \<open>s 0, ..., s K\<close> of the loop during which the tick, as the DHCP timer sees it, does not run backwards
  and stays a period below the end of its range.
\<close>

definition clocked_run :: "('w, 'm) net_env \<Rightarrow> (nat \<Rightarrow> 'm network \<times> 'w) \<Rightarrow> nat \<Rightarrow> bool" where
  "clocked_run env s K \<longleftrightarrow>
     (\<forall>i<K. lwipThread env (s i) = Some (s (Suc i)) \<and>
        unat (dhcp_tick env (s i)) + unat sDhcpTimerPeriod_ms < 2 ^ 32) \<and>
     (\<forall>j<K. \<forall>i\<le>j. dhcp_tick env (s i) \<le> dhcp_tick env (s j))"

text \<open>More than a period passes from the poll \<open>i\<close> to the poll \<open>j\<close>.\<close>

definition period_passes :: "('w, 'm) net_env \<Rightarrow> (nat \<Rightarrow> 'm network \<times> 'w) \<Rightarrow> nat \<Rightarrow> nat \<Rightarrow> bool" where
  "period_passes env s i j \<longleftrightarrow> i < j \<and>
     unat (dhcp_tick env (s i)) + unat sDhcpTimerPeriod_ms < unat (dhcp_tick env (s j))"

lemma Network_init_timer:
  assumes "Network_init env (Network_new g tx rx, w) = Some nw"
  shows "mDHCPTimer (fst nw) = \<lparr>mExpiry = sDhcpTimerPeriod_ms, mPrevTick = 0, mCallback = Some DhcpProcess\<rparr>"
proof -
  have "mDHCPTimer (fst nw') = LoopTimer_new"
    if "Ethernetif_init env (apfst registerLinkCallback (lwip_call env Lwip_init (Network_new g tx rx, w))) = Some nw'"
    for nw'
    using that by (auto simp: Ethernetif_init_def lwip_call_def registerLinkCallback_def linkStatusUpdated_def isLinkUp_def Network_new_def Let_def
        split: option.splits prod.splits if_splits)
  then show ?thesis
    using assms by (auto simp: Network_init_def registerCallback_def setExpiry_def LoopTimer_new_def
        split: option.splits)
qed

lemma clocked_run_inv:
  assumes "clocked_run env s K" and "net_inv (fst (s 0))" and "i \<le> K"
  shows "net_inv (fst (s i))"
  using assms(3)
proof (induction i)
  case (Suc i)
  then show ?case using assms(1) lwipThread_inv [of "s i" env] by (simp add: clocked_run_def)
qed (rule assms(2))

lemma clocked_run_timer:
  assumes "clocked_run env s K" and "net_inv (fst (s 0))" and "i < K"
  shows "mDHCPTimer (fst (s (Suc i))) = fst (poll (dhcp_tick env (s i)) (mDHCPTimer (fst (s i))))"
  using assms clocked_run_inv [OF assms(1,2), of i] lwipThread_dhcp(1) [of env "s i" "s (Suc i)"]
  by (simp add: clocked_run_def)

lemma clocked_run_bounds:
  assumes run: "clocked_run env s K" and inv: "net_inv (fst (s 0))" and "i < K"
    and start: "mExpiry (mDHCPTimer (fst (s 0))) = sDhcpTimerPeriod_ms" "mPrevTick (mDHCPTimer (fst (s 0))) = 0"
  shows "mExpiry (mDHCPTimer (fst (s (Suc i)))) = sDhcpTimerPeriod_ms"
    and "mPrevTick (mDHCPTimer (fst (s (Suc i)))) \<le> dhcp_tick env (s i)"
  using assms(3)
proof (induction i)
  case 0
  { case 1 then show ?case using clocked_run_timer [OF run inv, of 0] start by simp }
  { case 2 then show ?case
      using clocked_run_timer [OF run inv, of 0] start by (simp add: polled_start_bounded) }
next
  case (Suc i)
  { case 1 then show ?case using clocked_run_timer [OF run inv, of "Suc i"] Suc.IH by simp }
  { case 2
    have "dhcp_tick env (s i) \<le> dhcp_tick env (s (Suc i))" using 2 run by (simp add: clocked_run_def)
    then have "mPrevTick (mDHCPTimer (fst (s (Suc i)))) \<le> dhcp_tick env (s (Suc i))"
      using Suc.IH(2) 2 by (metis Suc_lessD order_trans)
    then show ?case
      using clocked_run_timer [OF run inv, of "Suc i"] 2 by (simp add: polled_start_bounded) }
qed

text \<open>The DHCP process runs in every period.\<close>

lemma dhcp_runs_in_period:
  assumes run: "clocked_run env s K" and inv: "net_inv (fst (s 0))"
    and start: "mExpiry (mDHCPTimer (fst (s 0))) = sDhcpTimerPeriod_ms" "mPrevTick (mDHCPTimer (fst (s 0))) = 0"
    and period: "period_passes env s x y" and "y < K"
  shows "\<exists>c. x < c \<and> c \<le> y \<and> dhcp_due env (s c)"
proof -
  have x: "x < K" "Suc x \<le> y" using assms(6) period by (simp_all add: period_passes_def)
  note b = clocked_run_bounds [OF run inv x(1) start]
  have "unat (dhcp_tick env (s x)) + unat sDhcpTimerPeriod_ms < 2 ^ 32" using run x(1) by (simp add: clocked_run_def)
  then have "no_wrap (mDHCPTimer (fst (s (Suc x))))"
    using b by (simp add: no_wrap_def word_le_nat_alt)
  then have "\<exists>c. Suc x \<le> c \<and> c \<le> y \<and> mPrevTick (mDHCPTimer (fst (s c))) + mExpiry (mDHCPTimer (fst (s c))) <
      dhcp_tick env (s c)"
    using x b period clocked_run_timer [OF run inv] assms(6)
    by (intro polled_expires [of "Suc x" y "\<lambda>i. mDHCPTimer (fst (s i))"])
      (auto simp: period_passes_def word_le_nat_alt)
  then show ?thesis by (auto simp: dhcp_due_def Suc_le_eq)
qed

text \<open>States that a run of the process leaves among themselves are kept while the link stays up.\<close>

lemma dhcp_states_kept:
  assumes run: "clocked_run env s K" and inv: "net_inv (fst (s 0))"
    and up: "\<And>i. m \<le> i \<Longrightarrow> i \<le> K \<Longrightarrow> link_flag (fst (s i))"
    and closed: "\<And>d q. q \<in> X \<Longrightarrow> dhcp_after d q \<subseteq> X"
    and "m \<le> x" and "mDhcpState (fst (s x)) \<in> X" and "x \<le> i" and "i \<le> K"
  shows "mDhcpState (fst (s i)) \<in> X"
  using assms(7,8)
proof (induction i rule: dec_induct)
  case (step i)
  have "lwipThread env (s i) = Some (s (Suc i))" using run step by (simp add: clocked_run_def)
  moreover have "net_inv (fst (s i))" using clocked_run_inv [OF run inv] step by simp
  ultimately have "mDhcpState (fst (s (Suc i))) \<in>
      (if dhcp_due env (s i) then dhcp_after (dhcp_decided env (s i)) (mDhcpState (fst (s i)))
       else {mDhcpState (fst (s i))})"
    using up [of i] up [of "Suc i"] step assms(5) by (intro lwipThread_dhcp(2)) auto
  then show ?case using closed [of "mDhcpState (fst (s i))"] step by (auto split: if_splits)
qed (rule assms(6))

text \<open>How a state with an outcome came about.\<close>

lemma outcome_reason:
  assumes run: "clocked_run env s K" and inv: "net_inv (fst (s 0))" and "mDhcpState (fst (s 0)) \<noteq> q" and "i \<le> K"
    and step: "\<And>j. j < K \<Longrightarrow> mDhcpState (fst (s (Suc j))) = q \<Longrightarrow> mDhcpState (fst (s j)) = q \<or> P j"
    and "mDhcpState (fst (s i)) = q"
  shows "\<exists>j<i. P j \<and> (\<forall>k. j < k \<and> k \<le> i \<longrightarrow> mDhcpState (fst (s k)) = q)"
  using assms(4,6)
proof (induction i)
  case 0
  then show ?case using assms(3) by simp
next
  case (Suc i)
  show ?case
  proof (cases "mDhcpState (fst (s i)) = q")
    case True
    with Suc obtain j where "j < i" "P j" "\<forall>k. j < k \<and> k \<le> i \<longrightarrow> mDhcpState (fst (s k)) = q" by auto
    then show ?thesis using Suc.prems by (intro exI [of _ j]) (auto simp: le_Suc_eq)
  next
    case False
    then have "P i" using step [of i] Suc.prems by simp
    then show ?thesis using Suc.prems by (intro exI [of _ i]) (auto simp: le_Suc_eq)
  qed
qed

lemma clocked_run_address:
  assumes run: "clocked_run env s K" and init: "Network_init env nw = Some (s 0)" and "i \<le> K"
  shows "address_inv (fst (s i))"
  using assms(3)
proof (induction i)
  case 0
  then show ?case using Network_init_dhcp [OF init] by (auto simp: address_inv_def)
next
  case (Suc i)
  then show ?case using run lwipThread_address [of env "s i"] by (simp add: clocked_run_def)
qed

lemma clocked_run_outcome:
  assumes run: "clocked_run env s K" and init: "Network_init env nw = Some (s 0)" and "i \<le> K"
  shows "mDhcpState (fst (s i)) = AddressAssigned \<Longrightarrow> \<exists>j<i. dhcp_answered env (s j) \<and>
      (\<forall>k. j < k \<and> k \<le> i \<longrightarrow> mDhcpState (fst (s k)) = AddressAssigned)"
    and "mDhcpState (fst (s i)) = Timeout \<Longrightarrow> \<exists>j<i. (dhcp_decided env (s j) \<and> \<not> dhcp_answered env (s j)) \<and>
      (\<forall>k. j < k \<and> k \<le> i \<longrightarrow> mDhcpState (fst (s k)) = Timeout)"
proof -
  note inv = Network_init_inv [OF init]
  have step: "lwipThread env (s j) = Some (s (Suc j))" "net_inv (fst (s j))" if "j < K" for j
    using that run clocked_run_inv [OF run inv, of j] by (simp_all add: clocked_run_def)
  show "\<exists>j<i. dhcp_answered env (s j) \<and> (\<forall>k. j < k \<and> k \<le> i \<longrightarrow> mDhcpState (fst (s k)) = AddressAssigned)"
    if "mDhcpState (fst (s i)) = AddressAssigned"
    by (rule outcome_reason [OF run inv _ assms(3) _ that])
      (use Network_init_dhcp [OF init] lwipThread_outcome(1) [OF step] in auto)
  show "\<exists>j<i. (dhcp_decided env (s j) \<and> \<not> dhcp_answered env (s j)) \<and>
      (\<forall>k. j < k \<and> k \<le> i \<longrightarrow> mDhcpState (fst (s k)) = Timeout)" if "mDhcpState (fst (s i)) = Timeout"
    by (rule outcome_reason [OF run inv _ assms(3) _ that])
      (use Network_init_dhcp [OF init] lwipThread_outcome(2) [OF step] in auto)
qed

section \<open>An example\<close>

text \<open>On the board of \<open>sample_env\<close> each iteration takes two seconds, and DHCP gets no answer.\<close>

lemma sample_tick: "HAL_GetTick (hal sample_env) v = (v, v + 1000)"
  by (simp add: sample_env_def sample_hal_def)

lemma sample_call: "snd (lwip_call sample_env c nw) = snd nw"
  by (cases nw) (simp add: lwip_call_def sample_env_def)

lemma sample_effect: "effect sample_hal op v = v"
  by (simp add: sample_hal_def)

lemma sample_check:
  assumes "calls_back n"
  shows "snd (checkLinkState sample_env (n, v)) = v" and "link_flag (fst (checkLinkState sample_env (n, v)))"
proof -
  have h: "hal sample_env = sample_hal" by (simp add: sample_env_def)
  have "fold (effect sample_hal) ops v = v" for ops
    by (induction ops) (simp_all add: sample_effect)
  then show "snd (checkLinkState sample_env (n, v)) = v"
    by (simp add: checkLinkState_def ethernet_link_check_state_def h sample_link Let_def)
  show "link_flag (fst (checkLinkState sample_env (n, v)))"
    using link_ops_effect(1) [OF assms, of HalfDuplex10Mbit]
    by (simp add: checkLinkState_def ethernet_link_check_state_def h sample_link Let_def link_is_down_def)
qed

lemma sample_dhcp: "snd (dhcpProcess sample_env (n, v)) = v"
  by (simp add: dhcpProcess_def dhcpStart_def setStaticIp_def lwip_call_def sample_env_def split: DhcpState.split)

lemma sample_callback: "calls_back n \<Longrightarrow> snd (run_callback sample_env cb (n, v)) = v"
  by (cases cb) (auto simp: sample_check sample_dhcp intro: net_callback.exhaust [of "the cb"])

lemma sample_callback_link:
  "calls_back n \<Longrightarrow> link_flag n \<Longrightarrow> link_flag (fst (run_callback sample_env cb (n, v)))"
  by (cases cb) (auto simp: sample_check intro: net_callback.exhaust [of "the cb"])

lemma sample_step:
  assumes "net_inv n" and "link_flag n" and "tx_ring n = eth_tx_init"
  shows "\<exists>n'. lwipThread sample_env (n, w) = Some (n', w + 2000) \<and> net_inv n' \<and> link_flag n' \<and>
      tx_ring n' = eth_tx_init"
    and "dhcp_tick sample_env (n, w) = w + 1000"
    and "dhcp_decided sample_env (n, w) \<longleftrightarrow> 2 < w + 2000"
proof -
  obtain n1 where n1: "lwip_call sample_env Sys_check_timeouts (n, w) = (n1, w)"
    using sample_call by (metis prod.collapse snd_conv)
  have i1: "net_inv n1" "link_flag n1"
    using n1 assms lwip_call_inv [of sample_env Sys_check_timeouts "(n, w)"]
      lwip_call_dhcp(3) [of sample_env Sys_check_timeouts "(n, w)"] by simp_all
  obtain t2 cb2 where p2: "poll w (mLinkTimer n1) = (t2, cb2)" by fastforce
  obtain n2 where n2: "poll_link_timer sample_env (n1, w) = (n2, w + 1000)"
    using sample_callback [of "n1\<lparr>mLinkTimer := t2\<rparr>" cb2 "w + 1000"] i1
    by (auto simp: poll_link_timer_def sample_tick p2 net_inv_def calls_back_def prod_eq_iff)
  have i2: "net_inv n2" "link_flag n2"
    using n2 i1 poll_link_timer_inv [of "(n1, w)" sample_env]
      sample_callback_link [of "n1\<lparr>mLinkTimer := t2\<rparr>" cb2 "w + 1000"]
    by (simp_all add: poll_link_timer_def sample_tick p2 net_inv_def calls_back_def)
  obtain t3 cb3 where p3: "poll (w + 1000) (mDHCPTimer n2) = (t3, cb3)" by fastforce
  obtain n3 where n3: "poll_dhcp_timer sample_env (n2, w + 1000) = (n3, w + 2000)"
    using sample_callback [of "n2\<lparr>mDHCPTimer := t3\<rparr>" cb3 "2000 + w"] i2
    by (auto simp: poll_dhcp_timer_def sample_tick p3 net_inv_def calls_back_def prod_eq_iff)
  have i3: "net_inv n3" "link_flag n3"
    using n3 i2 poll_dhcp_timer_inv [of "(n2, w + 1000)" sample_env]
      sample_callback_link [of "n2\<lparr>mDHCPTimer := t3\<rparr>" cb3 "2000 + w"]
    by (simp_all add: poll_dhcp_timer_def sample_tick p3 net_inv_def calls_back_def)
  note service = sample_service [OF assms(3), of w]
  have pt: "dhcp_poll_point sample_env (n, w) = Some (n2, w + 1000)"
    by (simp add: dhcp_poll_point_def service n1 n2)
  have step: "lwipThread sample_env (n, w) = Some (n3, w + 2000)"
    by (simp add: lwipThread_split pt n3)
  have "tx_ring n3 = eth_tx_init"
    using lwipThread_ring [OF step] assms(3) releaseTxBuffers.simps [of eth_tx_init] by (simp add: eth_tx_init_def)
  then show "\<exists>n'. lwipThread sample_env (n, w) = Some (n', w + 2000) \<and> net_inv n' \<and> link_flag n' \<and>
      tx_ring n' = eth_tx_init"
    using step i3 by simp
  show "dhcp_tick sample_env (n, w) = w + 1000" by (simp add: dhcp_tick_def pt sample_tick)
  show "dhcp_decided sample_env (n, w) \<longleftrightarrow> 2 < w + 2000"
    by (simp add: dhcp_decided_def pt sample_tick sMaxDhcpTries_def)
      (simp add: sample_env_def add.commute)
qed

lemma sample_start:
  "\<exists>n. Network_init sample_env (Network_new sample_netif eth_tx_init rx_start, 0) = Some (n, 3000) \<and>
    tx_ring n = eth_tx_init \<and> link_flag n"
  by (simp add: Network_init_def Ethernetif_init_def ethernetif_init_def low_level_init_def sample_env_def
      sample_phy ethernet_link_check_state_def sample_link lwip_call_def Network_new_def link_ops_def
      set_link_flag_def linkStatusUpdated_def isLinkUp_def registerLinkCallback_def sample_effect Let_def)

section \<open>Property\<close>

text \<open>
  C28. An address within two periods. Consider a run of the network loop from its initialisation on in which the
  tick, as the DHCP timer reads it, does not run backwards and stays more than a period below \<open>2 ^ 32\<close>, with the
  link up from iteration \<open>m\<close> on. Once a period of 500 ms has passed (iteration \<open>a\<close>), DHCP has been started: the
  addresses have been cleared, \<open>dhcp_start\<close> has been called, and nothing but a static address has been set
  since. If in the period after it (up to iteration \<open>b\<close>) lwIP has an answer or has tried more than twice, then from
  there on, while the link stays up, the state is either \<open>AddressAssigned\<close>, and stems from a poll at which lwIP had
  an address from DHCP, or \<open>Timeout\<close>, from a poll at which lwIP had no answer, and the last call has set the static
  address, mask and gateway.
\<close>

theorem address_within_periods:
  assumes init: "Network_init env (Network_new g tx rx, w) = Some (s 0)" and run: "clocked_run env s K"
    and up: "\<forall>i. m \<le> i \<and> i \<le> K \<longrightarrow> link_flag (fst (s i))"
    and periods: "period_passes env s m a" "period_passes env s a b" "b < K"
    and decided: "\<forall>i. a < i \<and> i \<le> b \<longrightarrow> dhcp_decided env (s i)"
  shows "(\<forall>i. a < i \<and> i \<le> K \<longrightarrow> dhcp_started (fst (s i)) \<or> static_set (fst (s i))) \<and>
    (\<forall>i. b < i \<and> i \<le> K \<longrightarrow>
      mDhcpState (fst (s i)) = AddressAssigned \<and> dhcp_started (fst (s i)) \<and> (\<exists>j<i. dhcp_answered env (s j) \<and>
        (\<forall>k. j < k \<and> k \<le> i \<longrightarrow> mDhcpState (fst (s k)) = AddressAssigned)) \<or>
      mDhcpState (fst (s i)) = Timeout \<and> static_set (fst (s i)) \<and>
        (\<exists>j<i. (dhcp_decided env (s j) \<and> \<not> dhcp_answered env (s j)) \<and>
          (\<forall>k. j < k \<and> k \<le> i \<longrightarrow> mDhcpState (fst (s k)) = Timeout)))"
proof -
  note inv = Network_init_inv [OF init]
  note start = Network_init_timer [OF init, THEN arg_cong, of mExpiry]
    Network_init_timer [OF init, THEN arg_cong, of mPrevTick]
  have up': "link_flag (fst (s i))" if "m \<le> i" "i \<le> K" for i using up that by blast
  note kept = dhcp_states_kept [OF run inv up']
  have waiting: "q \<in> {WaitAddress, AddressAssigned, Timeout} \<Longrightarrow> dhcp_after x q \<subseteq> {WaitAddress, AddressAssigned, Timeout}"
    and settled: "q \<in> {AddressAssigned, Timeout} \<Longrightarrow> dhcp_after x q \<subseteq> {AddressAssigned, Timeout}" for x q
    by (auto split: if_splits)
  have mab: "m < a" "a < b" using periods by (simp_all add: period_passes_def)
  obtain c where c: "m < c" "c \<le> a" "dhcp_due env (s c)"
    using dhcp_runs_in_period [OF run inv _ _ periods(1)] start mab periods(3) by auto
  obtain d where d: "a < d" "d \<le> b" "dhcp_due env (s d)"
    using dhcp_runs_in_period [OF run inv _ _ periods(2)] start periods(3) by auto
  have fired: "mDhcpState (fst (s (Suc i))) \<in> dhcp_after (dhcp_decided env (s i)) (mDhcpState (fst (s i)))"
    if "m \<le> i" "i < K" "dhcp_due env (s i)" for i
    using lwipThread_dhcp(2) [of env "s i" "s (Suc i)"] run clocked_run_inv [OF run inv, of i]
      up' [of i] up' [of "Suc i"] that by (simp add: clocked_run_def)
  have "mDhcpState (fst (s c)) \<notin> {DhcpLinkDown, Off}"
    using clocked_run_inv [OF run inv, of c] up' [of c] c periods(3) mab by (simp add: net_inv_def calls_back_def)
  then have c': "mDhcpState (fst (s (Suc c))) \<in> {WaitAddress, AddressAssigned, Timeout}"
    using fired [of c] c periods(3) mab
    by (cases "mDhcpState (fst (s c))") (auto split: if_splits)
  have "mDhcpState (fst (s d)) \<in> {WaitAddress, AddressAssigned, Timeout}"
    by (rule kept [OF _ _ waiting _ c']) (use c d periods(3) in auto)
  with fired [of d] have d': "mDhcpState (fst (s (Suc d))) \<in> {AddressAssigned, Timeout}"
    using c d periods(3) decided by auto
  have started: "mDhcpState (fst (s i)) \<in> {WaitAddress, AddressAssigned, Timeout}" if "a < i" "i \<le> K" for i
    by (rule kept [OF _ _ waiting _ c']) (use c that in auto)
  have outcome: "mDhcpState (fst (s i)) \<in> {AddressAssigned, Timeout}" if "b < i" "i \<le> K" for i
    by (rule kept [OF _ _ settled _ d']) (use c d that in auto)
  show ?thesis
  proof (intro conjI allI impI)
    fix i assume i: "a < i \<and> i \<le> K"
    then show "dhcp_started (fst (s i)) \<or> static_set (fst (s i))"
      using started [of i] clocked_run_address [OF run init, of i] by (auto simp: address_inv_def)
  next
    fix i assume i: "b < i \<and> i \<le> K"
    then have a: "address_inv (fst (s i))" using clocked_run_address [OF run init] by blast
    have "i \<le> K" using i by simp
    note reason = clocked_run_outcome [OF run init this]
    from outcome [of i] i consider "mDhcpState (fst (s i)) = AddressAssigned" | "mDhcpState (fst (s i)) = Timeout" by blast
    then show "mDhcpState (fst (s i)) = AddressAssigned \<and> dhcp_started (fst (s i)) \<and> (\<exists>j<i. dhcp_answered env (s j) \<and>
        (\<forall>k. j < k \<and> k \<le> i \<longrightarrow> mDhcpState (fst (s k)) = AddressAssigned)) \<or>
      mDhcpState (fst (s i)) = Timeout \<and> static_set (fst (s i)) \<and>
        (\<exists>j<i. (dhcp_decided env (s j) \<and> \<not> dhcp_answered env (s j)) \<and>
          (\<forall>k. j < k \<and> k \<le> i \<longrightarrow> mDhcpState (fst (s k)) = Timeout))"
    proof cases
      case 1
      then show ?thesis using a reason(1) by (simp add: address_inv_def)
    next
      case 2
      then show ?thesis using a reason(2) by (simp add: address_inv_def)
    qed
  qed
qed

text \<open>Four iterations of the example: the ticks are 4000, 6000 and 8000, and lwIP has tried often enough.\<close>

theorem address_within_periods_witness:
  "\<exists>s K. clocked_run sample_env s K \<and> period_passes sample_env s 0 1 \<and> period_passes sample_env s 1 2 \<and> 2 < K \<and>
    (mDhcpState (fst (s K)) = AddressAssigned \<and> dhcp_started (fst (s K)) \<or>
     mDhcpState (fst (s K)) = Timeout \<and> static_set (fst (s K)))"
proof -
  obtain n0 where n0: "Network_init sample_env (Network_new sample_netif eth_tx_init rx_start, 0) = Some (n0, 3000)"
      "tx_ring n0 = eth_tx_init" "link_flag n0" using sample_start by blast
  then have i0: "net_inv n0" using Network_init_inv [OF n0(1)] by simp
  obtain n1 where n1: "lwipThread sample_env (n0, 3000) = Some (n1, 5000)" "net_inv n1" "link_flag n1"
      "tx_ring n1 = eth_tx_init" using sample_step(1) [OF i0 n0(3,2), of 3000] by auto
  obtain n2 where n2: "lwipThread sample_env (n1, 5000) = Some (n2, 7000)" "net_inv n2" "link_flag n2"
      "tx_ring n2 = eth_tx_init" using sample_step(1) [OF n1(2,3,4), of 5000] by auto
  obtain n3 where n3: "lwipThread sample_env (n2, 7000) = Some (n3, 9000)" "net_inv n3" "link_flag n3"
    using sample_step(1) [OF n2(2,3,4), of 7000] by auto
  define s where "s i = [(n0, 3000 :: u32), (n1, 5000), (n2, 7000), (n3, 9000)] ! i" for i :: nat
  note ticks = sample_step(2) [OF i0 n0(3,2), of 3000] sample_step(2) [OF n1(2,3,4), of 5000]
    sample_step(2) [OF n2(2,3,4), of 7000]
  have three: "i = 0 \<or> i = 1 \<or> i = 2" if "i < (3::nat)" for i using that by arith
  have le: "i = j \<or> i < j" if "i \<le> j" for i j :: nat using that by arith
  have run: "clocked_run sample_env s 3"
    unfolding clocked_run_def
    by (intro conjI allI impI; drule three; elim disjE; (drule le, elim disjE)?;
        simp add: s_def n1 n2 n3 ticks sDhcpTimerPeriod_ms_def less_2_cases_iff) (auto simp: ticks)
  moreover have periods: "period_passes sample_env s 0 1" "period_passes sample_env s 1 2"
    by (simp_all add: period_passes_def s_def ticks sDhcpTimerPeriod_ms_def)
  moreover have "mDhcpState (fst (s 3)) = AddressAssigned \<and> dhcp_started (fst (s 3)) \<or>
      mDhcpState (fst (s 3)) = Timeout \<and> static_set (fst (s 3))"
  proof -
    have 1: "Network_init sample_env (Network_new sample_netif eth_tx_init rx_start, 0) = Some (s 0)"
      using n0(1) by (simp add: s_def)
    have 2: "\<forall>i. 0 \<le> i \<and> i \<le> 3 \<longrightarrow> link_flag (fst (s i))"
      by (auto simp: s_def n0 n1 n2 n3 le_Suc_eq numeral_3_eq_3)
    have 3: "\<forall>i. 1 < i \<and> i \<le> 2 \<longrightarrow> dhcp_decided sample_env (s i)"
    proof (intro allI impI)
      fix i :: nat assume "1 < i \<and> i \<le> 2"
      then have "i = 2" by arith
      then show "dhcp_decided sample_env (s i)" using sample_step(3) [OF n2(2,3,4), of 7000] by (simp add: s_def)
    qed
    have "(2::nat) < 3" by simp
    from address_within_periods [OF 1 run 2 periods this 3, THEN conjunct2, rule_format, of 3] show ?thesis by auto
  qed
  ultimately show ?thesis by (intro exI [of _ s] exI [of _ 3]) simp
qed

end
