(* ===== verification/Rx_Cache.thy ===== *)
theory Rx_Cache
  imports Eth_Rx
begin

text \<open>
  The receive buffers of \<open>src/stm32h7/Ethernetif.cpp\<close> and the data cache of the CPU. The DMA writes to memory
  and the CPU reads through the cache, so a received frame is seen only if the driver's cache operations come
  at the right moments. The memory with its cache, and what the hardware may do between two calls of the driver, is a
  step relation; the operations of the driver are those that the callbacks of \<open>Eth_Rx\<close> record.
\<close>

section \<open>Memory with a cache\<close>

text \<open>A line of 32 bytes is in the cache or not; if it is, it is dirty when the CPU has stored into it.\<close>

record cached_mem =
  ram :: "nat \<Rightarrow> u8"
  dcache :: "nat \<Rightarrow> (bool \<times> (nat \<Rightarrow> u8)) option"

definition line :: "nat \<Rightarrow> nat" where "line a = a div 32"

definition cpu_read :: "cached_mem \<Rightarrow> nat \<Rightarrow> u8" where
  "cpu_read m a = (case dcache m (line a) of None \<Rightarrow> ram m a | Some (d, f) \<Rightarrow> f a)"

definition fill :: "nat \<Rightarrow> cached_mem \<Rightarrow> cached_mem" where
  "fill l m = (if dcache m l = None then m\<lparr>dcache := (dcache m)(l \<mapsto> (False, ram m))\<rparr> else m)"

definition evict :: "nat \<Rightarrow> cached_mem \<Rightarrow> cached_mem" where
  "evict l m =
     (case dcache m l of
       None \<Rightarrow> m
     | Some (d, f) \<Rightarrow> m\<lparr>ram := (\<lambda>a. if d \<and> line a = l then f a else ram m a), dcache := (dcache m)(l := None)\<rparr>)"

text \<open>A store allocates its line: the default attributes of the memory are write-back with write-allocate.\<close>

definition cpu_store :: "nat \<Rightarrow> u8 \<Rightarrow> cached_mem \<Rightarrow> cached_mem" where
  "cpu_store a v m =
     (let m = fill (line a) m
      in m\<lparr>dcache := (dcache m)(line a := map_option (\<lambda>(d, f). (True, f(a := v))) (dcache m (line a)))\<rparr>)"

definition dma_store :: "nat \<Rightarrow> u8 \<Rightarrow> cached_mem \<Rightarrow> cached_mem" where
  "dma_store a v m = m\<lparr>ram := (ram m)(a := v)\<rparr>"

lemmas mem_defs = cpu_read_def fill_def evict_def cpu_store_def dma_store_def

text \<open>
  What may happen while the DMA owns the bytes \<open>B\<close>: lines come into the cache, by a read or by speculation, and leave
  it; the CPU stores elsewhere; the DMA stores. The map collects what it has stored into \<open>B\<close>.
\<close>

inductive owned_run :: "nat set \<Rightarrow> cached_mem \<Rightarrow> (nat \<Rightarrow> u8 option) \<Rightarrow> cached_mem \<Rightarrow> bool" for B m0 where
  handed_over: "owned_run B m0 Map.empty m0"
| filled: "owned_run B m0 D m \<Longrightarrow> owned_run B m0 D (fill l m)"
| evicted: "owned_run B m0 D m \<Longrightarrow> owned_run B m0 D (evict l m)"
| stored: "owned_run B m0 D m \<Longrightarrow> a \<notin> B \<Longrightarrow> owned_run B m0 D (cpu_store a v m)"
| elsewhere: "owned_run B m0 D m \<Longrightarrow> a \<notin> B \<Longrightarrow> owned_run B m0 D (dma_store a v m)"
| received: "owned_run B m0 D m \<Longrightarrow> a \<in> B \<Longrightarrow> owned_run B m0 (D(a \<mapsto> v)) (dma_store a v m)"

text \<open>\<open>B\<close> consists of whole lines, and none of them is dirty.\<close>

definition whole_lines :: "nat set \<Rightarrow> bool" where
  "whole_lines B \<longleftrightarrow> (\<forall>a\<in>B. \<forall>b. line b = line a \<longrightarrow> b \<in> B)"

definition no_dirty_line :: "nat set \<Rightarrow> cached_mem \<Rightarrow> bool" where
  "no_dirty_line B m \<longleftrightarrow> (\<forall>a\<in>B. \<forall>f. dcache m (line a) \<noteq> Some (True, f))"

lemma no_dirty_line_steps:
  "no_dirty_line B m \<Longrightarrow> no_dirty_line B (fill l m)"
  "no_dirty_line B m \<Longrightarrow> no_dirty_line B (evict l m)"
  "no_dirty_line B (dma_store a v m) = no_dirty_line B m"
  by (auto simp: no_dirty_line_def mem_defs split: option.splits)

lemma no_dirty_line_store:
  "whole_lines B \<Longrightarrow> a \<notin> B \<Longrightarrow> no_dirty_line B m \<Longrightarrow> no_dirty_line B (cpu_store a v m)"
  by (auto simp: no_dirty_line_def whole_lines_def cpu_store_def fill_def Let_def)

text \<open>So nothing but the DMA changes the bytes of the buffer in memory.\<close>

lemma owned_run_inv:
  assumes "owned_run B m0 D m" and "whole_lines B" and "no_dirty_line B m0"
  shows "no_dirty_line B m \<and> dom D \<subseteq> B \<and> (\<forall>a v. D a = Some v \<longrightarrow> ram m a = v)"
  using assms
proof (induction rule: owned_run.induct)
  case (evicted D m l)
  then have inv: "no_dirty_line B m" "dom D \<subseteq> B" "\<forall>a v. D a = Some v \<longrightarrow> ram m a = v" by simp_all
  have "ram (evict l m) a = ram m a" if "a \<in> B" for a
    using inv(1) that by (auto simp: evict_def no_dirty_line_def split: option.split)
  then show ?case using inv no_dirty_line_steps(2) by (auto simp: domIff subset_iff)
next
  case (stored D m a v)
  then show ?case using no_dirty_line_store [of B a m v] by (simp add: cpu_store_def fill_def Let_def)
qed (auto simp: no_dirty_line_steps, auto simp: fill_def dma_store_def)

section \<open>The driver\<close>

text \<open>The size of \<open>buff\<close> in \<open>RxBuff_t\<close>, and its bytes.\<close>

definition rx_buff_size :: u16 where "rx_buff_size = (ETH_RX_BUFFER_SIZE + 31) AND NOT 31"

definition rx_buffer :: "ptr \<Rightarrow> nat set" where "rx_buffer buff = {unat buff ..< unat buff + unat rx_buff_size}"

lemma rx_buff_size_eq: "rx_buff_size = 1024"
  by (simp add: rx_buff_size_def ETH_RX_BUFFER_SIZE_def)

text \<open>
  What CMSIS documents about \<open>SCB_InvalidateDCache_by_Addr\<close>: the lines that the range touches leave the cache, and
  nothing is written to memory.
\<close>

definition invalidate_law :: "(ptr \<Rightarrow> u16 \<Rightarrow> cached_mem \<Rightarrow> cached_mem) \<Rightarrow> bool" where
  "invalidate_law inval \<longleftrightarrow> (\<forall>p n m. 0 < n \<longrightarrow> inval p n m = m\<lparr>dcache :=
     (\<lambda>l. if line (unat p) \<le> l \<and> l \<le> line (unat p + unat n - 1) then None else dcache m l)\<rparr>)"

fun do_cache :: "(ptr \<Rightarrow> u16 \<Rightarrow> cached_mem \<Rightarrow> cached_mem) \<Rightarrow> rx_call \<Rightarrow> cached_mem \<Rightarrow> cached_mem" where
  "do_cache inval (InvalidateDCache p n) m = inval p n m"
| "do_cache inval _ m = m"

text \<open>The calls that a callback has made, which took the driver from \<open>s\<close> to \<open>s'\<close>, on the memory.\<close>

definition cache_effect ::
  "(ptr \<Rightarrow> u16 \<Rightarrow> cached_mem \<Rightarrow> cached_mem) \<Rightarrow> eth_rx \<Rightarrow> eth_rx \<Rightarrow> cached_mem \<Rightarrow> cached_mem" where
  "cache_effect inval s s' = fold (do_cache inval) (drop (length (rx_calls s)) (rx_calls s'))"

lemma link_invalidates:
  "HAL_ETH_RxLinkCallback off p e buff n s = Some (p', e', s') \<Longrightarrow> cache_effect inval s s' m = inval buff n m"
  by (auto simp: HAL_ETH_RxLinkCallback_def rx_emit_def cache_effect_def Let_def split: option.splits if_splits)

lemma allocate_leaves_cache:
  "HAL_ETH_RxAllocateCallback env off (s, w) = (buff, s', w') \<Longrightarrow> cache_effect inval s s' m = m"
  by (auto simp: HAL_ETH_RxAllocateCallback_def rx_emit_def cache_effect_def Let_def split: prod.splits if_splits)

text \<open>The alignment and the size of the buffer: it consists of whole lines.\<close>

lemma line_iff: "32 * k \<le> a \<longleftrightarrow> k \<le> line a" "a < 32 * k \<longleftrightarrow> line a < k"
  by (simp_all add: line_def less_eq_div_iff_mult_less_eq div_less_iff_less_mult mult.commute)

lemma rx_buffer_iff: "unat buff = 32 * k \<Longrightarrow> a \<in> rx_buffer buff \<longleftrightarrow> k \<le> line a \<and> line a < k + 32"
  using line_iff(1) [of k a] line_iff(2) [of a "k + 32"] by (simp add: rx_buffer_def rx_buff_size_eq)

lemma rx_buffer_lines:
  assumes "32 dvd unat buff"
  shows "whole_lines (rx_buffer buff)"
proof -
  obtain k where "unat buff = 32 * k" using assms by blast
  then show ?thesis by (simp add: whole_lines_def rx_buffer_iff)
qed

text \<open>The lines that are invalidated are those of the received bytes, all of them in the buffer.\<close>

lemma invalidated_in_buffer:
  assumes "32 dvd unat buff" and "0 < n" and "n \<le> rx_buff_size"
    and "line (unat buff) \<le> line a" and "line a \<le> line (unat buff + unat n - 1)"
  shows "a \<in> rx_buffer buff"
proof -
  obtain k where k: "unat buff = 32 * k" using assms(1) by blast
  have "unat n \<le> 1024" "0 < unat n" using assms(2,3) by (simp_all add: rx_buff_size_eq word_le_nat_alt word_less_nat_alt)
  then have "line (unat buff + unat n - 1) < k + 32" using k by (simp flip: line_iff(2))
  moreover have "line (unat buff) = k" using k by (simp add: line_def)
  ultimately show ?thesis using assms(4,5) by (simp add: rx_buffer_iff [OF k])
qed

lemma received_invalidated:
  assumes "invalidate_law inval" and "unat buff \<le> a" and "a < unat buff + unat n"
  shows "cpu_read (inval buff n m) a = ram m a"
proof -
  have "n \<noteq> 0" using assms(2,3) by auto
  then have "0 < n" by (simp add: word_neq_0_conv)
  moreover have "line (unat buff) \<le> line a" "line a \<le> line (unat buff + unat n - 1)"
    using assms(2,3) by (simp_all add: line_def div_le_mono)
  ultimately show ?thesis using assms(1) by (simp add: invalidate_law_def cpu_read_def)
qed

section \<open>Properties\<close>

text \<open>
  C20. The CPU sees the frame that the DMA has received: if a buffer is handed over with none of its lines dirty, then
  whatever comes into the cache and leaves it meanwhile, after the callback that links the buffer every
  received byte reads as the DMA has stored it. Outside the buffer the cache loses nothing.
\<close>

theorem received_frame_seen:
  assumes "invalidate_law inval" and "32 dvd unat buff" and "no_dirty_line (rx_buffer buff) m0"
    and "owned_run (rx_buffer buff) m0 D m"
    and "HAL_ETH_RxLinkCallback off p e buff n s = Some (p', e', s')" and "0 < n" and "n \<le> ETH_RX_BUFFER_SIZE"
  shows "(\<forall>a v. unat buff \<le> a \<and> a < unat buff + unat n \<and> D a = Some v \<longrightarrow>
      cpu_read (cache_effect inval s s' m) a = v) \<and>
    (\<forall>a. a \<notin> rx_buffer buff \<longrightarrow> cpu_read (cache_effect inval s s' m) a = cpu_read m a)"
proof -
  have n: "n \<le> rx_buff_size" using assms(7) by (simp add: rx_buff_size_eq ETH_RX_BUFFER_SIZE_def word_le_nat_alt)
  have eff: "cache_effect inval s s' m = inval buff n m" by (rule link_invalidates [OF assms(5)])
  have mem: "D a = Some v \<longrightarrow> ram m a = v" for a v
    using owned_run_inv [OF assms(4) rx_buffer_lines [OF assms(2)] assms(3)] by blast
  have "cpu_read (inval buff n m) a = cpu_read m a" if "a \<notin> rx_buffer buff" for a
    using that assms(1,6) invalidated_in_buffer [OF assms(2,6) n, of a]
    by (auto simp: invalidate_law_def cpu_read_def split: option.split)
  then show ?thesis
    using received_invalidated [OF assms(1)] mem by (simp add: eff)
qed

text \<open>The cache operation itself, and a memory in which a line of the buffer is in the cache, but clean.\<close>

definition invalidate :: "ptr \<Rightarrow> u16 \<Rightarrow> cached_mem \<Rightarrow> cached_mem" where
  "invalidate p n m = m\<lparr>dcache :=
     (\<lambda>l. if line (unat p) \<le> l \<and> l \<le> line (unat p + unat n - 1) then None else dcache m l)\<rparr>"

lemma invalidate_ok: "invalidate_law invalidate"
  by (simp add: invalidate_law_def invalidate_def)

definition old_mem :: cached_mem where
  "old_mem = \<lparr>ram = (\<lambda>a. 0), dcache = Map.empty\<rparr>"

theorem received_frame_seen_witness:
  "\<exists>s' m. HAL_ETH_RxLinkCallback 64 0 0 0x240 1 rx_start = Some (0x200, 0x200, s') \<and>
    owned_run (rx_buffer 0x240) old_mem [576 \<mapsto> 7] m \<and> cpu_read m 576 = 0 \<and>
    cpu_read (cache_effect invalidate rx_start s' m) 576 = 7"
proof -
  let ?m = "dma_store 576 7 (fill 18 old_mem)"
  have run: "owned_run (rx_buffer 0x240) old_mem [576 \<mapsto> 7] ?m"
    by (intro owned_run.received owned_run.filled owned_run.handed_over)
      (simp add: rx_buffer_def rx_buff_size_eq)
  have stale: "cpu_read ?m 576 = 0" by (simp add: mem_defs old_mem_def line_def)
  have clean: "no_dirty_line (rx_buffer 0x240) old_mem" by (simp add: no_dirty_line_def old_mem_def)
  obtain s' where s': "HAL_ETH_RxLinkCallback 64 0 0 0x240 1 rx_start = Some (0x200, 0x200, s')"
    using packet_single [of "0x200" 64 0 1 rx_start] by auto
  have "cpu_read (cache_effect invalidate rx_start s' ?m) 576 = 7"
    using received_frame_seen [OF invalidate_ok _ clean run s'] by (simp add: ETH_RX_BUFFER_SIZE_def)
  then show ?thesis using s' run stale by blast
qed

text \<open>
  C37. A buffer that is handed over with a dirty line loses its frame: the allocation leaves the line in the cache, and when
  the line leaves the cache after the DMA has stored the frame, the old bytes overwrite the received ones before
  the callback can invalidate anything.
\<close>

theorem dirty_line_overwrites_frame:
  assumes "invalidate_law inval" and "HAL_ETH_RxAllocateCallback env off (s, w) = (buff, s1, w1)"
    and "dcache m (line a) = Some (True, f)" and "unat buff \<le> a" and "a < unat buff + unat n"
    and "HAL_ETH_RxLinkCallback off p e buff n s2 = Some (p', e', s3)"
  shows "cpu_read (cache_effect inval s2 s3 (evict (line a) (dma_store a v (cache_effect inval s s1 m)))) a = f a"
proof -
  have "ram (evict (line a) (dma_store a v m)) a = f a"
    using assms(3) by (simp add: evict_def dma_store_def)
  then show ?thesis
    using received_invalidated [OF assms(1,4,5)]
    by (simp add: link_invalidates [OF assms(6)] allocate_leaves_cache [OF assms(2)])
qed

text \<open>The CPU has stored 9 into the buffer, as lwIP does in headers; the DMA then receives 7.\<close>

theorem dirty_line_overwrites_frame_witness:
  "\<exists>s1 s3. HAL_ETH_RxAllocateCallback counted_pool 64 (rx_start, 1) = (0x240, s1, 0) \<and>
    HAL_ETH_RxLinkCallback 64 0 0 0x240 1 s1 = Some (0x200, 0x200, s3) \<and>
    cpu_read (cache_effect invalidate s1 s3 (evict 18 (dma_store 576 7 (cache_effect invalidate rx_start s1
      (cpu_store 576 9 old_mem))))) 576 = 9"
proof -
  obtain s1 where s1: "HAL_ETH_RxAllocateCallback counted_pool 64 (rx_start, 1) = (0x240, s1, 0)"
    using counted_pool_steps(2) [of rx_start 0] by simp
  obtain s3 where s3: "HAL_ETH_RxLinkCallback 64 0 0 0x240 1 s1 = Some (0x200, 0x200, s3)"
    using packet_single [of "0x200" 64 0 1 s1] by auto
  have l: "line 576 = 18" by (simp add: line_def)
  have "dcache (cpu_store 576 9 old_mem) (line 576) = Some (True, (\<lambda>a. 0)(576 := 9))"
    by (simp add: mem_defs old_mem_def Let_def)
  from dirty_line_overwrites_frame [OF invalidate_ok s1 this _ _ s3, of 7] show ?thesis
    using s1 s3 by (simp add: l)
qed

end
