(* ===== verification/Tcp_Session.thy ===== *)
theory Tcp_Session
  imports Tcp_Echo "HOL-Library.Sublist"
begin

text \<open>
  A connection of the echo server from its acceptance to its end: an abstract session that only knows the bytes
  received, sent and waiting, and the proof that the functions of \<open>Tcp_Server\<close> and \<open>Tcp_Echo\<close> refine it for every
  order of events, with lwIP refusing data at any time.
\<close>

section \<open>The abstract session\<close>

datatype session_phase = Open | Draining | Ended

text \<open>
  What happens to a session: data, a packet that lwIP reports as damaged, an acknowledgement or a poll, the end of the
  remote host's data, a fatal error.
\<close>

datatype session_event = Got "u8 list" | Damaged | Went_on | Hung_up | Failed

record session =
  s_phase :: session_phase
  s_sent :: "u8 list"
  s_waiting :: "u8 list"

definition session_start :: session where
  "session_start = \<lparr>s_phase = Open, s_sent = [], s_waiting = []\<rparr>"

text \<open>The first so many of the bytes that wait are sent.\<close>

definition transmit :: "nat \<Rightarrow> session \<Rightarrow> session" where
  "transmit k s = s\<lparr>s_sent := s_sent s @ take k (s_waiting s), s_waiting := drop k (s_waiting s)\<rparr>"

inductive session_step :: "session \<Rightarrow> session_event \<Rightarrow> session \<Rightarrow> bool" where
  got: "s_phase s = Open \<Longrightarrow>
    session_step s (Got bs) (transmit k (s\<lparr>s_waiting := s_waiting s @ bs\<rparr>))"
| damaged: "session_step s Damaged s"
| went_on: "session_step s Went_on (transmit k s)"
| ended: "s_phase s = Draining \<Longrightarrow> s_waiting s = [] \<Longrightarrow> session_step s Went_on (s\<lparr>s_phase := Ended\<rparr>)"
| hung_up: "s_phase s = Open \<Longrightarrow> session_step s Hung_up (transmit k (s\<lparr>s_phase := Draining\<rparr>))"
| hung_up_idle: "s_phase s = Open \<Longrightarrow> s_waiting s = [] \<Longrightarrow> session_step s Hung_up (s\<lparr>s_phase := Ended\<rparr>)"
| failed: "session_step s Failed (s\<lparr>s_phase := Ended, s_waiting := []\<rparr>)"

inductive_cases session_stepE: "session_step s e s'"

inductive session_run :: "session_event list \<Rightarrow> session \<Rightarrow> bool" where
  none: "session_run [] session_start"
| more: "session_run es s \<Longrightarrow> session_step s e s' \<Longrightarrow> session_run (es @ [e]) s'"

definition received_bytes :: "session_event list \<Rightarrow> u8 list" where
  "received_bytes es = concat (map (\<lambda>e. case e of Got bs \<Rightarrow> bs | _ \<Rightarrow> []) es)"

lemma received_snoc [simp]:
  "received_bytes [] = []"
  "received_bytes (es @ [Got bs]) = received_bytes es @ bs"
  "received_bytes (es @ [Damaged]) = received_bytes es"
  "received_bytes (es @ [Went_on]) = received_bytes es"
  "received_bytes (es @ [Hung_up]) = received_bytes es"
  "received_bytes (es @ [Failed]) = received_bytes es"
  by (simp_all add: received_bytes_def)

lemma transmit_simps [simp]:
  "s_phase (transmit k s) = s_phase s"
  "s_sent (transmit k s) @ s_waiting (transmit k s) = s_sent s @ s_waiting s"
  "s_waiting s = [] \<Longrightarrow> transmit k s = s"
  by (simp_all add: transmit_def)

text \<open>What the session promises: bytes in order, none lost unless it fails, and nothing left at the end.\<close>

definition session_ok :: "session_event list \<Rightarrow> session \<Rightarrow> bool" where
  "session_ok es s \<longleftrightarrow> (\<exists>lost. s_sent s @ s_waiting s @ lost = received_bytes es \<and> (Failed \<notin> set es \<longrightarrow> lost = [])) \<and>
     (s_phase s = Ended \<longrightarrow> s_waiting s = []) \<and> (s_phase s = Open \<longrightarrow> Failed \<notin> set es \<and> Hung_up \<notin> set es)"

lemma session_run_ok: "session_run es s \<Longrightarrow> session_ok es s"
proof (induction rule: session_run.induct)
  case none
  show ?case by (simp add: session_ok_def session_start_def)
next
  case (more es s e s')
  from more.hyps(2) more.IH show ?case
  proof (cases rule: session_step.cases)
    case (failed)
    then show ?thesis using more.IH by (auto simp: session_ok_def)
  qed (auto simp: session_ok_def append_assoc [symmetric] simp del: append_assoc)
qed

section \<open>The server's connection\<close>

text \<open>
  What lwIP documents about the end of a connection: neither \<open>tcp_close\<close> nor \<open>tcp_abort\<close> touches the application's
  packet buffers, and neither takes back what has been queued.
\<close>

definition end_law :: "'w lwip \<Rightarrow> 'w lwip_view \<Rightarrow> bool" where
  "end_law api v \<longleftrightarrow> (\<forall>w pcb. quiet api v w (snd (tcp_close api pcb w)) \<and> quiet api v w (tcp_abort api pcb w))"

text \<open>
  The events of a connection, as lwIP calls the server: data and its end come while the connection is
  established, everything else at any time. Between events the rest of the machine runs and leaves
  alone what the connection holds. A damaged packet is freed by the server, which returns the error all the same; lwIP would
  keep a packet that a callback has refused so, here it is taken to be gone.
\<close>

inductive life ::
  "'w lwip \<Rightarrow> 'w lwip_view \<Rightarrow> tcp_connection \<Rightarrow> 'w \<Rightarrow> session_event list \<Rightarrow> tcp_connection \<Rightarrow> 'w \<Rightarrow> bool"
  for api v c0 w0 where
  begins: "life api v c0 w0 [] c0 w0"
| elsewhere: "life api v c0 w0 es c w \<Longrightarrow> leaves_alone api v (controlBlock c0) w w' \<Longrightarrow> life api v c0 w0 es c w'"
| packet: "life api v c0 w0 es c w \<Longrightarrow> conn_state c = Established \<Longrightarrow>
    leaves_alone api v (controlBlock c0) w w1 \<Longrightarrow>
    is_chain (pbuf_mem api w1) p ps \<Longrightarrow> p_tot_len (pbuf_mem api w1 p) \<noteq> 0 \<Longrightarrow>
    ps \<noteq> [] \<Longrightarrow> set ps \<inter> live v w = {} \<Longrightarrow> \<forall>q\<in>set ps. refs v w1 q = 1 \<Longrightarrow>
    TcpServer_recv api (Some (echo_recv api)) p ERR_OK (c, w1) = Some (e, c', w') \<Longrightarrow>
    life api v c0 w0 (es @ [Got (chain_bytes api v w1 ps)]) c' w'"
| damaged: "life api v c0 w0 es c w \<Longrightarrow> leaves_alone api v (controlBlock c0) w w1 \<Longrightarrow>
    is_chain (pbuf_mem api w1) p ps \<Longrightarrow> ps \<noteq> [] \<Longrightarrow> set ps \<inter> live v w = {} \<Longrightarrow>
    \<forall>q\<in>set ps. refs v w1 q = 1 \<Longrightarrow> err \<noteq> ERR_OK \<Longrightarrow>
    TcpServer_recv api (Some (echo_recv api)) p err (c, w1) = Some (e, c', w') \<Longrightarrow>
    life api v c0 w0 (es @ [Damaged]) c' w'"
| acknowledged: "life api v c0 w0 es c w \<Longrightarrow>
    TcpServer_sent api len (c, w) = Some (e, c', w') \<Longrightarrow> life api v c0 w0 (es @ [Went_on]) c' w'"
| polled: "life api v c0 w0 es c w \<Longrightarrow>
    TcpServer_poll api (c, w) = Some (e, c', w') \<Longrightarrow> life api v c0 w0 (es @ [Went_on]) c' w'"
| hung_up: "life api v c0 w0 es c w \<Longrightarrow> conn_state c = Established \<Longrightarrow>
    TcpServer_recv api (Some (echo_recv api)) 0 err (c, w) = Some (e, c', w') \<Longrightarrow>
    life api v c0 w0 (es @ [Hung_up]) c' w'"
| failed: "life api v c0 w0 es c w \<Longrightarrow> TcpServer_error api (c, w) = (c', w') \<Longrightarrow>
    life api v c0 w0 (es @ [Failed]) c' w'"

fun phase_of :: "ConnectionState \<Rightarrow> session_phase" where
  "phase_of Established = Open"
| "phase_of Closing = Draining"
| "phase_of _ = Ended"

text \<open>The connection \<open>c\<close> that holds the buffers \<open>ps\<close>, as a session; \<open>pcb\<close> has sent \<open>bs0\<close> before it began.\<close>

definition shows_session ::
  "'w lwip \<Rightarrow> 'w lwip_view \<Rightarrow> ptr \<Rightarrow> u8 list \<Rightarrow> tcp_connection \<Rightarrow> 'w \<Rightarrow> ptr list \<Rightarrow> session \<Rightarrow> bool" where
  "shows_session api v pcb bs0 c w ps s \<longleftrightarrow> holding api v c w ps \<and> s_phase s = phase_of (conn_state c) \<and>
     queued v w pcb = bs0 @ s_sent s \<and> s_waiting s = chain_bytes api v w ps \<and>
     (conn_state c \<noteq> Closed \<longrightarrow> controlBlock c = pcb) \<and> (conn_state c = Closed \<longrightarrow> ps = [])"

lemma holding_kept:
  assumes "holding api v c w ps" and "untouched api v (set ps) w w'" and "\<forall>q\<in>set ps. refs v w' q = refs v w q"
  shows "holding api v c w' ps \<and> chain_bytes api v w' ps = chain_bytes api v w ps"
  using assms untouched_chain [OF assms(2) order_refl] chain_bytes_cong [of ps api v w' w]
  by (simp add: holding_def untouched_def)

lemma shows_alone:
  assumes "shows_session api v pcb bs0 c w ps s" and "leaves_alone api v pcb w w'"
  shows "shows_session api v pcb bs0 c w' ps s"
proof -
  have "holding api v c w ps" using assms(1) by (simp add: shows_session_def)
  from holding_alone [OF this assms(2)] show ?thesis
    using assms by (simp add: shows_session_def leaves_alone_def)
qed

lemma quiet_alone: "quiet api v w w' \<Longrightarrow> leaves_alone api v pcb w w'"
  by (simp add: quiet_def leaves_alone_def)

text \<open>
  The frame of a step: the application's buffers outside \<open>S\<close> keep their data and references, the data queued on the
  control blocks \<open>X\<close> stays as it is, and no queue loses data.
\<close>

definition spares :: "'w lwip \<Rightarrow> 'w lwip_view \<Rightarrow> ptr set \<Rightarrow> ptr set \<Rightarrow> 'w \<Rightarrow> 'w \<Rightarrow> bool" where
  "spares api v X S w w' \<longleftrightarrow> untouched api v (live v w - S) w w' \<and> (\<forall>q\<in>live v w - S. refs v w' q = refs v w q) \<and>
     (\<forall>x\<in>X. queued v w' x = queued v w x) \<and> (\<forall>x. prefix (queued v w x) (queued v w' x))"

lemma spares_refl [simp]: "spares api v X S w w"
  by (simp add: spares_def untouched_def)

lemma spares_mono: "spares api v Y T w w' \<Longrightarrow> X \<subseteq> Y \<Longrightarrow> T \<inter> live v w \<subseteq> S \<Longrightarrow> spares api v X S w w'"
  unfolding spares_def untouched_def by blast

lemma spares_trans:
  assumes "spares api v X S w w1" and "spares api v X T w1 w2" and "T \<inter> live v w \<subseteq> S"
  shows "spares api v X S w w2"
proof -
  have sub: "live v w - S \<subseteq> live v w1 - T" using assms(1,3) by (auto simp: spares_def)
  have "untouched api v (live v w - S) w w2"
    by (rule untouched_mono [OF untouched_trans [of _ _ "live v w - S" _ w1 "live v w1 - T"]])
      (use assms(1,2) sub in \<open>auto simp: spares_def\<close>)
  moreover have "refs v w2 q = refs v w q" if "q \<in> live v w - S" for q
    using that subsetD [OF sub that] assms(1,2) by (simp add: spares_def)
  moreover have "prefix (queued v w x) (queued v w2 x)" for x
    by (rule prefix_order.trans [of _ "queued v w1 x"]) (use assms(1,2) in \<open>simp_all add: spares_def\<close>)
  ultimately show ?thesis using assms(1,2) by (simp add: spares_def)
qed

lemma quiet_spares: "quiet api v w w' \<Longrightarrow> spares api v X {} w w'"
  by (simp add: quiet_def spares_def)

text \<open>The references after a step that began with the buffers \<open>ps\<close> and leaves \<open>ps'\<close>: the others of \<open>ps\<close> are free.\<close>

definition accounts :: "'w lwip_view \<Rightarrow> ptr list \<Rightarrow> ptr list \<Rightarrow> 'w \<Rightarrow> 'w \<Rightarrow> bool" where
  "accounts v ps ps' w w' \<longleftrightarrow> refs v w' = (\<lambda>q. if q \<in> set ps' then 1 else if q \<in> set ps then 0 else refs v w q)"

lemma quiet_accounts: "quiet api v w w' \<Longrightarrow> \<forall>q\<in>set ps. refs v w q = 1 \<Longrightarrow> accounts v ps ps w w'"
  by (auto simp: accounts_def quiet_def)

lemma freed_accounts: "refs v w' = (\<lambda>q. if q \<in> set ps then 0 else refs v w q) \<Longrightarrow> accounts v ps [] w w'"
  by (simp add: accounts_def)

lemma echoed_accounts:
  assumes "echoed api v pcb ps k w w'" and "\<forall>q\<in>set ps. refs v w q = 1" and "\<forall>q\<in>set (drop k ps). refs v w' q = 1"
  shows "accounts v ps (drop k ps) w w'"
proof -
  have "set ps = set (take k ps) \<union> set (drop k ps)" by (metis append_take_drop_id set_append)
  then show ?thesis
    using assms unfolding echoed_def accounts_def fun_eq_iff by (metis Un_iff one_neq_zero)
qed

lemma echoed_spares:
  assumes "echoed api v pcb ps k w w'"
  shows "spares api v (- {pcb}) (set ps) w w'"
proof -
  have "live v w - set ps \<subseteq> live v w' - set ps"
    using assms set_take_subset [of k ps] by (auto simp: echoed_def)
  from untouched_mono [OF _ this] show ?thesis
    using assms set_take_subset [of k ps] by (auto simp: echoed_def spares_def)
qed

lemma freed_spares:
  assumes "refs v w' = (\<lambda>q. if q \<in> set ps then 0 else refs v w q)" and "queued v w' = queued v w"
    and "untouched api v (live v w') w w'"
  shows "spares api v X (set ps) w w'"
proof -
  have "live v w - set ps \<subseteq> live v w'" by (auto simp: assms(1))
  from untouched_mono [OF assms(3) this] show ?thesis by (simp add: spares_def assms(1,2))
qed

text \<open>Buffers \<open>qs\<close> are appended and the first \<open>k\<close> buffers sent: the session sends their bytes.\<close>

lemma shows_transmit:
  assumes "shows_session api v pcb bs0 c w ps s" and "conn_state c \<noteq> Closed" and "conn_state c' = conn_state c"
    and "controlBlock c' = controlBlock c"
    and "holding api v c' w' (drop k (ps @ qs))" and "echoed api v pcb (ps @ qs) k w w'"
  shows "\<exists>k'. shows_session api v pcb bs0 c' w' (drop k (ps @ qs))
    (transmit k' (s\<lparr>s_waiting := s_waiting s @ chain_bytes api v w qs\<rparr>))"
proof -
  let ?xs = "chain_bytes api v w (take k (ps @ qs))" and ?ys = "chain_bytes api v w (drop k (ps @ qs))"
  have "s_waiting s @ chain_bytes api v w qs = ?xs @ ?ys"
    using assms(1) chain_bytes_append [of api v w "take k (ps @ qs)" "drop k (ps @ qs)"]
    by (simp add: shows_session_def chain_bytes_append del: take_append drop_append)
  then have "shows_session api v pcb bs0 c' w' (drop k (ps @ qs))
      (transmit (length ?xs) (s\<lparr>s_waiting := s_waiting s @ chain_bytes api v w qs\<rparr>))"
    using assms by (simp add: shows_session_def transmit_def echoed_def del: take_append drop_append)
      (metis append_eq_conv_conj)
  then show ?thesis by (rule exI)
qed

lemmas shows_flush = shows_transmit [where qs = "[]", simplified]

section \<open>Refinement\<close>

lemma close_shows:
  assumes "end_law api v" and "shows_session api v pcb bs0 c w [] s" and "close_connection api (c, w) = (c', w')"
  shows "shows_session api v pcb bs0 c' w' [] (s\<lparr>s_phase := phase_of (conn_state c')\<rparr>) \<and>
    (c' = c \<or> conn_state c' = Closed) \<and> quiet api v w w'"
proof -
  obtain err w1 where cl: "tcp_close api (controlBlock c) w = (err, w1)" by fastforce
  have "quiet api v w w1" using assms(1) cl unfolding end_law_def by (metis snd_conv)
  moreover have "quiet api v w1 (tcp_abort api (controlBlock c) w1)" using assms(1) by (simp add: end_law_def)
  ultimately have q: "quiet api v w w'"
    using assms(3) cl by (auto simp: close_connection_def Let_def split: if_splits intro: quiet_trans)
  from shows_alone [OF assms(2) quiet_alone [OF this]] show ?thesis
    using q close_connection_change [OF assms(3)] by (auto simp: shows_session_def holding_def)
qed

lemma poll_refines:
  assumes laws: "lwip_laws api v" "end_law api v" and sh: "shows_session api v pcb bs0 c w ps s"
    and "TcpServer_poll api (c, w) = Some (e, c', w')"
  shows "\<exists>ps' s'. session_step s Went_on s' \<and> shows_session api v pcb bs0 c' w' ps' s' \<and>
    set ps' \<subseteq> set ps \<and> accounts v ps ps' w w' \<and> spares api v (- {pcb}) (set ps) w w'"
proof (cases "ps = []")
  case True
  have hold: "holding api v c w []" using sh True by (simp add: shows_session_def)
  then have "writeBuffer c = 0" by (simp add: holding_def)
  then consider (idle) "c' = c" "w' = w" | (close) "conn_state c = Closing" "close_connection api (c, w) = (c', w')"
    using assms(4) by (auto simp: TcpServer_poll_def split: if_splits)
  then show ?thesis
  proof cases
    case idle
    then have "session_step s Went_on s \<and> shows_session api v pcb bs0 c' w' ps s"
      using sh session_step.went_on [of s 0] by (auto simp: transmit_def)
    moreover have "accounts v ps ps w w'"
      using idle sh by (intro quiet_accounts) (auto simp: shows_session_def holding_def)
    ultimately show ?thesis using idle by (auto intro!: exI [of _ ps] exI [of _ s])
  next
    case close
    have s: "s_phase s = Draining" "s_waiting s = []"
      using sh True close(1) by (simp_all add: shows_session_def chain_bytes_def)
    from close_shows [OF laws(2) _ close(2)] sh True
    have sh': "shows_session api v pcb bs0 c' w' [] (s\<lparr>s_phase := phase_of (conn_state c')\<rparr>)"
      "c' = c \<or> conn_state c' = Closed" and "quiet api v w w'" by auto
    from quiet_spares [OF this(3)] quiet_accounts [OF this(3), of ps] True
    have "spares api v (- {pcb}) (set ps) w w'" "accounts v ps [] w w'" by simp_all
    moreover note sh'
    moreover have "session_step s Went_on (s\<lparr>s_phase := phase_of (conn_state c')\<rparr>)"
      if "c' = c \<or> conn_state c' = Closed"
      using that session_step.ended [OF s] session_step.went_on [of s 0] s close(1) by (cases s) auto
    ultimately show ?thesis by (intro exI conjI) auto
  qed
next
  case False
  have hold: "holding api v c w ps" and live: "conn_state c \<noteq> Closed" "controlBlock c = pcb"
    using sh False by (auto simp: shows_session_def)
  obtain k b w1 where F: "writeToTcp api (c, w) = Some (c\<lparr>writeBuffer := b\<rparr>, w1)"
    "holding api v (c\<lparr>writeBuffer := b\<rparr>) w1 (drop k ps)" "echoed api v pcb ps k w w1"
    using flush_echoes [OF laws(1) hold] live(2) by auto
  have "writeBuffer c \<noteq> 0" using False by (simp add: holding_empty_iff [OF hold])
  with F(1) assms(4) have "c' = c\<lparr>writeBuffer := b\<rparr>" "w' = w1" by (auto simp: TcpServer_poll_def)
  moreover obtain k' where "shows_session api v pcb bs0 (c\<lparr>writeBuffer := b\<rparr>) w1 (drop k ps) (transmit k' s)"
    using shows_flush [OF sh live(1) _ _ F(2,3)] by (auto simp: chain_bytes_def)
  moreover have "accounts v ps (drop k ps) w w1"
    using hold F(2) by (intro echoed_accounts [OF F(3)]) (simp_all add: holding_def)
  ultimately show ?thesis using session_step.went_on echoed_spares [OF F(3)] set_drop_subset [of k ps] by blast
qed

lemma packet_refines:
  assumes laws: "lwip_laws api v" and sh: "shows_session api v pcb bs0 c w ps s" and est: "conn_state c = Established"
    and alone: "leaves_alone api v pcb w w1"
    and qs: "is_chain (pbuf_mem api w1) p qs" "p_tot_len (pbuf_mem api w1 p) \<noteq> 0" "qs \<noteq> []"
      "set qs \<inter> live v w = {}" "\<forall>q\<in>set qs. refs v w1 q = 1"
    and run: "TcpServer_recv api (Some (echo_recv api)) p ERR_OK (c, w1) = Some (e, c', w')"
  shows "\<exists>ps' s'. session_step s (Got (chain_bytes api v w1 qs)) s' \<and> shows_session api v pcb bs0 c' w' ps' s' \<and>
    set ps' \<subseteq> set ps \<union> set qs \<and> accounts v (ps @ qs) ps' w1 w' \<and> spares api v (- {pcb}) (set ps \<union> set qs) w1 w'"
proof -
  have sh1: "shows_session api v pcb bs0 c w1 ps s" by (rule shows_alone [OF sh alone])
  have "set ps \<subseteq> live v w" using sh by (auto simp: shows_session_def dest: holding_live)
  then have disj: "set ps \<inter> set qs = {}" using qs(4) by blast
  have hold: "holding api v c w1 ps" and pcb: "controlBlock c = pcb" and open_s: "s_phase s = Open"
    using sh1 est by (simp_all add: shows_session_def)
  obtain k b where R: "c' = c\<lparr>writeBuffer := b\<rparr>" "holding api v (c\<lparr>writeBuffer := b\<rparr>) w' (drop k (ps @ qs))"
    "echoed api v pcb (ps @ qs) k w1 w'"
    using recv_echoes [OF laws est hold qs(1,3) disj qs(5,2)] run pcb by auto
  obtain k' where "shows_session api v pcb bs0 c' w' (drop k (ps @ qs))
      (transmit k' (s\<lparr>s_waiting := s_waiting s @ chain_bytes api v w1 qs\<rparr>))"
    using shows_transmit [OF sh1 _ _ _ R(2,3)] est R(1) by auto
  moreover have "set (drop k (ps @ qs)) \<subseteq> set ps \<union> set qs" using set_drop_subset [of k "ps @ qs"] by auto
  moreover have "spares api v (- {pcb}) (set ps \<union> set qs) w1 w'" using echoed_spares [OF R(3)] by simp
  moreover have "accounts v (ps @ qs) (drop k (ps @ qs)) w1 w'"
    using hold qs(5) R(2) by (intro echoed_accounts [OF R(3)]) (auto simp: holding_def)
  ultimately show ?thesis using session_step.got [OF open_s] by blast
qed

text \<open>A damaged packet is given back.\<close>

lemma damaged_freed:
  assumes laws: "lwip_laws api v"
    and qs: "is_chain (pbuf_mem api w1) p qs" "qs \<noteq> []" "\<forall>q\<in>set qs. refs v w1 q = 1"
    and "err \<noteq> ERR_OK" and run: "TcpServer_recv api cb p err (c, w1) = Some (e, c', w')"
  shows "c' = c \<and> accounts v qs [] w1 w' \<and> spares api v X (set qs) w1 w'"
proof -
  have "p \<noteq> 0" using qs(1,2) by (cases qs) auto
  then have c': "c' = c" and w': "w' = snd (pbuf_free api p w1)"
    using run assms(5) by (auto simp: TcpServer_recv_def)
  have "set qs \<subseteq> live v w1" using qs(3) by auto
  note F = freeD [OF laws qs(1,2) this]
  have r: "refs v w' = (\<lambda>q. if q \<in> set qs then 0 else refs v w1 q)"
    using F(1) drop_refs_all_one [OF is_chain_distinct [OF qs(1)] qs(3)] by (simp add: w')
  from freed_spares [OF r] F(2,3) freed_accounts [OF r] show ?thesis by (simp add: w' c')
qed

text \<open>What a step spares, a connection still shows.\<close>

lemma shows_spared:
  assumes "shows_session api v pcb bs0 c w ps s" and "spares api v X S w w'" and "pcb \<in> X" and "set ps \<inter> S = {}"
  shows "shows_session api v pcb bs0 c w' ps s"
proof -
  have hold: "holding api v c w ps" using assms(1) by (simp add: shows_session_def)
  then have "set ps \<subseteq> live v w - S" using assms(4) by (auto simp: holding_def)
  then have "untouched api v (set ps) w w'" "\<forall>q\<in>set ps. refs v w' q = refs v w q"
    using assms(2) unfolding spares_def untouched_def by blast+
  from holding_kept [OF hold this] show ?thesis using assms(1-3) by (simp add: shows_session_def spares_def)
qed

lemma damaged_refines:
  assumes laws: "lwip_laws api v" and sh: "shows_session api v pcb bs0 c w ps s"
    and alone: "leaves_alone api v pcb w w1"
    and qs: "is_chain (pbuf_mem api w1) p qs" "qs \<noteq> []" "set qs \<inter> live v w = {}" "\<forall>q\<in>set qs. refs v w1 q = 1"
    and "err \<noteq> ERR_OK" and run: "TcpServer_recv api cb p err (c, w1) = Some (e, c', w')"
  shows "shows_session api v pcb bs0 c' w' ps s"
proof -
  have "set ps \<inter> set qs = {}" using sh qs(3) by (auto simp: shows_session_def dest: holding_live)
  from shows_spared [OF shows_alone [OF sh alone] _ _ this] damaged_freed [OF laws qs(1,2,4) assms(8) run]
  show ?thesis by blast
qed

lemma hung_up_refines:
  assumes laws: "lwip_laws api v" "end_law api v" and sh: "shows_session api v pcb bs0 c w ps s"
    and est: "conn_state c = Established" and run: "TcpServer_recv api cb 0 err (c, w) = Some (e, c', w')"
  shows "\<exists>ps' s'. session_step s Hung_up s' \<and> shows_session api v pcb bs0 c' w' ps' s' \<and>
    set ps' \<subseteq> set ps \<and> accounts v ps ps' w w' \<and> spares api v (- {pcb}) (set ps) w w'"
proof -
  let ?c = "c\<lparr>conn_state := Closing\<rparr>" and ?s = "s\<lparr>s_phase := Draining\<rparr>"
  have open_s: "s_phase s = Open" and shc: "shows_session api v pcb bs0 ?c w ps ?s"
    using sh est by (simp_all add: shows_session_def holding_def)
  have hold: "holding api v ?c w ps" and pcb: "controlBlock ?c = pcb" using shc by (simp_all add: shows_session_def)
  show ?thesis
  proof (cases "ps = []")
    case True
    then have "writeBuffer c = 0" using hold by (simp add: holding_def)
    then have cl: "close_connection api (?c, w) = (c', w')" using run by (simp add: TcpServer_recv_def)
    have s: "s_waiting s = []" using sh True by (simp add: shows_session_def chain_bytes_def)
    have sh': "shows_session api v pcb bs0 c' w' [] (s\<lparr>s_phase := phase_of (conn_state c')\<rparr>)"
      "c' = ?c \<or> conn_state c' = Closed" and "quiet api v w w'"
      using close_shows [OF laws(2) shc [unfolded True] cl] by auto
    from quiet_spares [OF this(3)] quiet_accounts [OF this(3), of ps] True
    have "spares api v (- {pcb}) (set ps) w w'" "accounts v ps [] w w'" by simp_all
    moreover note sh'
    moreover have "session_step s Hung_up (s\<lparr>s_phase := phase_of (conn_state c')\<rparr>)"
      if "c' = ?c \<or> conn_state c' = Closed"
      using that session_step.hung_up_idle [OF open_s s] session_step.hung_up [OF open_s, of 0] s by auto
    ultimately show ?thesis by (intro exI conjI) auto
  next
    case False
    then have "writeBuffer c \<noteq> 0" using holding_empty_iff [OF hold] by simp
    then have wr: "writeToTcp api (?c, w) = Some (c', w')" using run by (auto simp: TcpServer_recv_def)
    obtain k b where F: "c' = ?c\<lparr>writeBuffer := b\<rparr>" "holding api v c' w' (drop k ps)" "echoed api v pcb ps k w w'"
      using flush_echoes [OF laws(1) hold] wr pcb by auto
    obtain k' where "shows_session api v pcb bs0 c' w' (drop k ps) (transmit k' ?s)"
      using shows_flush [OF shc _ _ _ F(2,3)] F(1) by (auto simp: chain_bytes_def)
    moreover have "accounts v ps (drop k ps) w w'"
      using hold F(2) by (intro echoed_accounts [OF F(3)]) (simp_all add: holding_def)
    ultimately show ?thesis
      using session_step.hung_up [OF open_s] echoed_spares [OF F(3)] set_drop_subset [of k ps] pcb by auto
  qed
qed

lemma failed_refines:
  assumes laws: "lwip_laws api v" "free_null_quiet api v" and sh: "shows_session api v pcb bs0 c w ps s"
    and run: "TcpServer_error api (c, w) = (c', w')"
  shows "shows_session api v pcb bs0 c' w' [] (s\<lparr>s_phase := Ended, s_waiting := []\<rparr>) \<and>
    accounts v ps [] w w' \<and> spares api v X (set ps) w w'"
proof -
  have "holding api v c w ps" using sh by (simp add: shows_session_def)
  from error_frees [OF laws this] run
  have "c' = c\<lparr>conn_state := Closed, controlBlock := 0, readBuffer := 0, writeBuffer := 0\<rparr>"
    "queued v w' = queued v w"
    and f: "refs v w' = (\<lambda>q. if q \<in> set ps then 0 else refs v w q)" "untouched api v (live v w') w w'" by auto
  then show ?thesis using sh freed_spares [OF f(1) _ f(2)] freed_accounts [OF f(1)] by (simp add: shows_session_def holding_def chain_bytes_def)
qed

lemma life_refines:
  assumes laws: "lwip_laws api v" "end_law api v" "free_null_quiet api v"
    and start: "conn_state c0 = Established" "holding api v c0 w0 []"
    and "life api v c0 w0 es c w"
  shows "\<exists>ps s. session_run es s \<and> shows_session api v (controlBlock c0) (queued v w0 (controlBlock c0)) c w ps s"
    (is "\<exists>ps s. _ \<and> ?sh c w ps s")
  using assms(6)
proof (induction rule: life.induct)
  case begins
  have "shows_session api v (controlBlock c0) (queued v w0 (controlBlock c0)) c0 w0 [] session_start"
    using start by (simp add: shows_session_def session_start_def chain_bytes_def)
  then show ?case using session_run.none by blast
next
  case (elsewhere es c w w')
  then obtain ps s where "session_run es s" and sh: "?sh c w ps s" by blast
  moreover have "?sh c w' ps s" by (rule shows_alone [OF sh elsewhere.hyps(2)])
  ultimately show ?case by blast
next
  case (packet es c w w1 p qs e c' w')
  then obtain ps s where run: "session_run es s" and sh: "?sh c w ps s" by blast
  obtain ps' s' where "session_step s (Got (chain_bytes api v w1 qs)) s'" "?sh c' w' ps' s'"
    using packet_refines [OF laws(1) sh packet.hyps(2-9)] by blast
  with session_run.more [OF run] show ?case by blast
next
  case (damaged es c w w1 p qs err e c' w')
  then obtain ps s where run: "session_run es s" and sh: "?sh c w ps s" by blast
  have "?sh c' w' ps s" by (rule damaged_refines [OF laws(1) sh damaged.hyps(2-8)])
  with session_run.more [OF run session_step.damaged] show ?case by blast
next
  case (acknowledged es c w len e c' w')
  then obtain ps s where run: "session_run es s" and sh: "?sh c w ps s" by blast
  obtain ps' s' where "session_step s Went_on s'" "?sh c' w' ps' s'"
    using poll_refines [OF laws(1,2) sh acknowledged.hyps(2) [unfolded sent_is_poll]] by blast
  with session_run.more [OF run] show ?case by blast
next
  case (polled es c w e c' w')
  then obtain ps s where run: "session_run es s" and sh: "?sh c w ps s" by blast
  obtain ps' s' where "session_step s Went_on s'" "?sh c' w' ps' s'"
    using poll_refines [OF laws(1,2) sh polled.hyps(2)] by blast
  with session_run.more [OF run] show ?case by blast
next
  case (hung_up es c w err e c' w')
  then obtain ps s where run: "session_run es s" and sh: "?sh c w ps s" by blast
  obtain ps' s' where "session_step s Hung_up s'" "?sh c' w' ps' s'"
    using hung_up_refines [OF laws(1,2) sh hung_up.hyps(2,3)] by blast
  with session_run.more [OF run] show ?case by blast
next
  case (failed es c w c' w')
  then obtain ps s where run: "session_run es s" and sh: "?sh c w ps s" by blast
  note failed_refines [OF laws(1,3) sh failed.hyps(2)]
  with session_run.more [OF run session_step.failed] show ?case by blast
qed

section \<open>Closing\<close>

text \<open>
  An event finds lwIP ready if lwIP, as it then is, takes the first buffer that waits, or, when none waits, has the
  memory to close the connection.
\<close>

definition lwip_ready :: "'w lwip \<Rightarrow> tcp_connection \<Rightarrow> 'w \<Rightarrow> bool" where
  "lwip_ready api c w \<longleftrightarrow>
     (if writeBuffer c \<noteq> 0 then takes api (controlBlock c) w (writeBuffer c)
      else fst (tcp_close api (controlBlock c) w) \<noteq> ERR_MEM)"

text \<open>
  What comes after the end of the remote host's data: acknowledgements and polls, any number of them, and in between the
  rest of the machine. The number is that of the events which found lwIP ready.
\<close>

inductive closing_run ::
  "'w lwip \<Rightarrow> 'w lwip_view \<Rightarrow> tcp_connection \<Rightarrow> 'w \<Rightarrow> nat \<Rightarrow> tcp_connection \<Rightarrow> 'w \<Rightarrow> bool"
  for api v c0 w0 where
  begins: "closing_run api v c0 w0 0 c0 w0"
| elsewhere: "closing_run api v c0 w0 n c w \<Longrightarrow> leaves_alone api v (controlBlock c0) w w' \<Longrightarrow>
    closing_run api v c0 w0 n c w'"
| acknowledged: "closing_run api v c0 w0 n c w \<Longrightarrow> TcpServer_sent api len (c, w) = Some (e, c', w') \<Longrightarrow>
    closing_run api v c0 w0 (if lwip_ready api c w then Suc n else n) c' w'"
| polled: "closing_run api v c0 w0 n c w \<Longrightarrow> TcpServer_poll api (c, w) = Some (e, c', w') \<Longrightarrow>
    closing_run api v c0 w0 (if lwip_ready api c w then Suc n else n) c' w'"

text \<open>
  The connection on \<open>pcb\<close> holds \<open>ps\<close>, these and the queued bytes make \<open>bs\<close>, and it is closed or has at most
  \<open>m\<close> buffers left.
\<close>

definition closing_ok ::
  "'w lwip \<Rightarrow> 'w lwip_view \<Rightarrow> ptr \<Rightarrow> u8 list \<Rightarrow> nat \<Rightarrow> nat \<Rightarrow> tcp_connection \<Rightarrow> 'w \<Rightarrow> ptr list \<Rightarrow> bool" where
  "closing_ok api v pcb bs m n c w ps \<longleftrightarrow> holding api v c w ps \<and> controlBlock c = pcb \<and>
     queued v w pcb @ chain_bytes api v w ps = bs \<and>
     (conn_state c = Closing \<and> n + length ps \<le> m \<or> conn_state c = Closed \<and> ps = [])"

lemma closing_ok_alone:
  assumes "closing_ok api v pcb bs m n c w ps" and "leaves_alone api v pcb w w'"
  shows "closing_ok api v pcb bs m n c w' ps"
proof -
  have "holding api v c w ps" using assms(1) by (simp add: closing_ok_def)
  from holding_alone [OF this assms(2)] show ?thesis
    using assms by (simp add: closing_ok_def leaves_alone_def)
qed

lemma close_when_drained:
  assumes "end_law api v" and "holding api v c w []" and "conn_state c = Closing"
    and "close_connection api (c, w) = (c', w')" and "queued v w (controlBlock c) = bs" and "n \<le> m"
  shows "closing_ok api v (controlBlock c) bs m (if lwip_ready api c w then Suc n else n) c' w' []"
proof -
  obtain err w1 where cl: "tcp_close api (controlBlock c) w = (err, w1)" by fastforce
  have "quiet api v w w1" using assms(1) cl unfolding end_law_def by (metis snd_conv)
  moreover have "quiet api v w1 (tcp_abort api (controlBlock c) w1)" using assms(1) by (simp add: end_law_def)
  ultimately have q: "quiet api v w w'"
    using assms(4) cl by (auto simp: close_connection_def Let_def split: if_splits intro: quiet_trans)
  have "writeBuffer c = 0" using assms(2) by (simp add: holding_def)
  then have "lwip_ready api c w \<longleftrightarrow> err \<noteq> ERR_MEM" by (simp add: lwip_ready_def cl)
  moreover have "c' = (if err = ERR_MEM then c else c\<lparr>conn_state := Closed\<rparr>)"
    using assms(4) cl by (auto simp: close_connection_def Let_def split: if_splits)
  moreover have "holding api v c w' []" using assms(2) by (simp add: holding_def)
  ultimately show ?thesis
    using q assms(3,5,6) by (auto simp: closing_ok_def holding_def quiet_def chain_bytes_def)
qed

lemma flush_when_closing:
  assumes laws: "lwip_laws api v" and hold: "holding api v c w ps" and "ps \<noteq> []" and "conn_state c = Closing"
    and "n + length ps \<le> m" and "queued v w (controlBlock c) @ chain_bytes api v w ps = bs"
  obtains c' w' qs where "writeToTcp api (c, w) = Some (c', w')"
    and "closing_ok api v (controlBlock c) bs m (if lwip_ready api c w then Suc n else n) c' w' qs"
proof -
  have wb: "writeBuffer c \<noteq> 0" using holding_empty_iff [OF hold] assms(3) by simp
  obtain k b w' where F: "writeToTcp api (c, w) = Some (c\<lparr>writeBuffer := b\<rparr>, w')"
    "holding api v (c\<lparr>writeBuffer := b\<rparr>) w' (drop k ps)" "echoed api v (controlBlock c) ps k w w'"
    "takes api (controlBlock c) w (writeBuffer c) \<longrightarrow> 0 < k"
    using flush_echoes [OF laws hold] assms(3) by blast
  have "(if lwip_ready api c w then Suc n else n) + length (drop k ps) \<le> m"
    using F(4) wb assms(3,5) by (cases ps) (auto simp: lwip_ready_def)
  then have "closing_ok api v (controlBlock c) bs m (if lwip_ready api c w then Suc n else n)
      (c\<lparr>writeBuffer := b\<rparr>) w' (drop k ps)"
    using F(2) assms(4,6) echoed_conserves [OF F(3)] by (simp add: closing_ok_def)
  with F(1) show thesis by (rule that)
qed

lemma poll_when_closing:
  assumes laws: "lwip_laws api v" "end_law api v" and ok: "closing_ok api v pcb bs m n c w ps"
  shows "\<exists>c' w' qs. TcpServer_poll api (c, w) = Some (ERR_OK, c', w') \<and>
    closing_ok api v pcb bs m (if lwip_ready api c w then Suc n else n) c' w' qs"
proof -
  have hold: "holding api v c w ps" and pcb: "controlBlock c = pcb"
    and bs: "queued v w (controlBlock c) @ chain_bytes api v w ps = bs"
    using ok by (auto simp: closing_ok_def)
  consider (closed) "conn_state c = Closed" "ps = []" | (drained) "conn_state c = Closing" "ps = []" "n \<le> m"
    | (waiting) "conn_state c = Closing" "ps \<noteq> []" "n + length ps \<le> m"
    using ok by (cases "ps = []") (auto simp: closing_ok_def)
  then show ?thesis
  proof cases
    case closed
    then have "TcpServer_poll api (c, w) = Some (ERR_OK, c, w)"
      using hold by (simp add: TcpServer_poll_def holding_def)
    then show ?thesis using ok closed by (auto simp: closing_ok_def)
  next
    case drained
    obtain c' w' where cl: "close_connection api (c, w) = (c', w')" by fastforce
    have "TcpServer_poll api (c, w) = Some (ERR_OK, c', w')"
      using drained hold cl by (simp add: TcpServer_poll_def holding_def)
    moreover have "closing_ok api v (controlBlock c) bs m (if lwip_ready api c w then Suc n else n) c' w' []"
      using close_when_drained [OF laws(2) _ drained(1) cl _ drained(3)] hold bs drained(2) by (simp add: chain_bytes_def)
    ultimately show ?thesis using pcb by blast
  next
    case waiting
    obtain c' w' qs where "writeToTcp api (c, w) = Some (c', w')"
      and "closing_ok api v (controlBlock c) bs m (if lwip_ready api c w then Suc n else n) c' w' qs"
      by (rule flush_when_closing [OF laws(1) hold waiting(2,1,3) bs])
    moreover have "writeBuffer c \<noteq> 0" using holding_empty_iff [OF hold] waiting(2) by simp
    ultimately show ?thesis using pcb by (auto simp: TcpServer_poll_def)
  qed
qed

lemma closing_run_ok:
  assumes "closing_run api v c0 w0 n c w" and "lwip_laws api v" and "end_law api v"
    and "closing_ok api v (controlBlock c0) bs m 0 c0 w0 ps"
  shows "\<exists>qs. closing_ok api v (controlBlock c0) bs m n c w qs"
  using assms
proof (induction rule: closing_run.induct)
  case (elsewhere n c w w')
  then obtain qs where "closing_ok api v (controlBlock c0) bs m n c w qs" by blast
  from closing_ok_alone [OF this elsewhere.hyps(2)] show ?case by (rule exI)
next
  case (acknowledged n c w len e c' w')
  then obtain qs where "closing_ok api v (controlBlock c0) bs m n c w qs" by blast
  from poll_when_closing [OF acknowledged.prems(1,2) this] show ?case
    using acknowledged.hyps(2) by (auto simp: sent_is_poll)
next
  case (polled n c w e c' w')
  then obtain qs where "closing_ok api v (controlBlock c0) bs m n c w qs" by blast
  from poll_when_closing [OF polled.prems(1,2) this] show ?case using polled.hyps(2) by auto
qed blast

lemma hang_up_closes:
  assumes laws: "lwip_laws api v" "end_law api v" and hold: "holding api v c w ps"
  shows "\<exists>c1 w1 qs. TcpServer_recv api cb 0 err (c, w) = Some (ERR_OK, c1, w1) \<and> controlBlock c1 = controlBlock c \<and>
    closing_ok api v (controlBlock c) (queued v w (controlBlock c) @ chain_bytes api v w ps) (length ps) 0 c1 w1 qs"
proof -
  let ?c = "c\<lparr>conn_state := Closing\<rparr>" and ?bs = "queued v w (controlBlock c) @ chain_bytes api v w ps"
  have h: "holding api v ?c w ps" using hold by (simp add: holding_def)
  have weaker: "closing_ok api v pcb bs m 0 c' w' qs" if "closing_ok api v pcb bs m i c' w' qs" for pcb bs m i c' w' qs
    using that by (auto simp: closing_ok_def)
  show ?thesis
  proof (cases "ps = []")
    case True
    obtain c' w' where cl: "close_connection api (?c, w) = (c', w')" by fastforce
    have "closing_ok api v (controlBlock ?c) ?bs (length ps) (if lwip_ready api ?c w then Suc 0 else 0) c' w' []"
      by (rule close_when_drained [OF laws(2) _ _ cl]) (use h True in \<open>simp_all add: chain_bytes_def\<close>)
    then have "closing_ok api v (controlBlock c) ?bs (length ps) 0 c' w' []" by (intro weaker) simp
    moreover have "writeBuffer c = 0" using hold True by (simp add: holding_def)
    ultimately show ?thesis
      using cl by (auto simp: TcpServer_recv_def closing_ok_def)
  next
    case False
    obtain c' w' qs where f: "writeToTcp api (?c, w) = Some (c', w')"
      and "closing_ok api v (controlBlock ?c) ?bs (length ps) (if lwip_ready api ?c w then Suc 0 else 0) c' w' qs"
      by (rule flush_when_closing [OF laws(1) h False, of 0 "length ps" ?bs]) simp_all
    then have "closing_ok api v (controlBlock c) ?bs (length ps) 0 c' w' qs" by (intro weaker) simp
    moreover have "writeBuffer c \<noteq> 0" using holding_empty_iff [OF hold] False by simp
    ultimately show ?thesis using f by (auto simp: TcpServer_recv_def closing_ok_def)
  qed
qed

section \<open>An example\<close>

lemma mini_end: "end_law (mini_api r e) mini_view"
  by (simp add: end_law_def) (simp add: mini_api_def)

text \<open>One packet of four bytes arrives on a fresh connection.\<close>

lemma sample_packet:
  obtains b w k where "life (mini_api r e) mini_view open_connection (mini_start\<lparr>mini_refs := \<lambda>q. 0\<rparr>)
      [Got [0x10, 0x11, 0x20, 0x21]] (open_connection\<lparr>writeBuffer := b\<rparr>) w"
    and "holding (mini_api r e) mini_view (open_connection\<lparr>writeBuffer := b\<rparr>) w (drop k [0x10, 0x20])"
    and "r = 0xFFFF \<longrightarrow> k = 2"
proof -
  let ?api = "mini_api r e" and ?w0 = "mini_start\<lparr>mini_refs := \<lambda>q. 0\<rparr>"
  obtain k b w where R: "TcpServer_recv ?api (Some (echo_recv ?api)) 0x10 ERR_OK (open_connection, mini_start) =
      Some (ERR_OK, open_connection\<lparr>writeBuffer := b\<rparr>, w)"
    "holding ?api mini_view (open_connection\<lparr>writeBuffer := b\<rparr>) w (drop k [0x10, 0x20])"
    "never_refuses ?api 0x300 \<longrightarrow> k = Suc (Suc 0)"
    using recv_echoes [where api = ?api and p = "0x10" and ps = "[0x10, 0x20]",
        OF mini_laws _ open_holds_nothing] mini_start_packet by auto
  have "leaves_alone ?api mini_view 0x300 ?w0 mini_start"
    by (simp add: leaves_alone_def untouched_def live_def mini_bytes)
  then have "life ?api mini_view open_connection ?w0
      ([] @ [Got (chain_bytes ?api mini_view mini_start [0x10, 0x20])]) (open_connection\<lparr>writeBuffer := b\<rparr>) w"
    using mini_start_packet by (intro life.packet [OF life.begins _ _ _ _ _ _ _ R(1)]) auto
  then show thesis
    using that [OF _ R(2)] R(3) mini_never_refuses by (simp add: chain_bytes_def mini_start_bytes numeral_2_eq_2)
qed

lemma fresh_holds: "holding (mini_api r e) mini_view open_connection (mini_start\<lparr>mini_refs := \<lambda>q. 0\<rparr>) []"
  by (simp add: holding_def)

section \<open>Properties\<close>

text \<open>
  C3. The echo server implements the session: after any run of events on an accepted connection, in any order that
  lwIP may call the server in, the connection is a state that the abstract session can reach with these events, where
  what lwIP has queued and the buffers that the connection holds are the bytes sent and the bytes that wait. So no byte
  is lost, repeated or out of order, and only a fatal error drops any.
\<close>

theorem echo_session:
  assumes "lwip_laws api v" and "end_law api v" and "free_null_quiet api v"
    and "conn_state c0 = Established" and "holding api v c0 w0 []" and "life api v c0 w0 es c w"
  shows "\<exists>ps s. session_run es s \<and> session_ok es s \<and>
    shows_session api v (controlBlock c0) (queued v w0 (controlBlock c0)) c w ps s"
  using life_refines [OF assms] session_run_ok by blast

theorem echo_session_witness:
  "\<exists>c w ps s. session_run [Got [0x10, 0x11, 0x20, 0x21]] s \<and> s_phase s = Open \<and>
    mini_out w 0x300 = s_sent s \<and> s_waiting s = chain_bytes (mini_api 1 ERR_OK) mini_view w ps \<and>
    s_sent s @ s_waiting s = [0x10, 0x11, 0x20, 0x21] \<and> holding (mini_api 1 ERR_OK) mini_view c w ps"
proof -
  let ?api = "mini_api 1 ERR_OK"
  obtain b w k where "life ?api mini_view open_connection (mini_start\<lparr>mini_refs := \<lambda>q. 0\<rparr>)
      [Got [0x10, 0x11, 0x20, 0x21]] (open_connection\<lparr>writeBuffer := b\<rparr>) w"
    by (rule sample_packet [of 1 ERR_OK])
  from echo_session [OF mini_laws mini_end mini_free_null _ fresh_holds this] show ?thesis
    by (auto simp: shows_session_def session_ok_def received_bytes_def mini_start_def)
qed



text \<open>
  C34. A connection comes to its end. When the remote host has ended its data while the buffers \<open>ps\<close> still wait to be
  sent, the call of \<open>recv\<close> returns, and so does every acknowledgement and poll after it. As soon as more of these events
  than there were buffers have found lwIP ready (it took the first buffer that waited or, when none waited, could
  close), the connection is closed, and all that waited has been queued for sending, in order. In between lwIP may refuse
  data, or to close, any number of times.
\<close>

theorem closing_completes:
  assumes "lwip_laws api v" and "end_law api v" and "holding api v c w ps"
  shows "\<exists>c1 w1. TcpServer_recv api cb 0 err (c, w) = Some (ERR_OK, c1, w1) \<and>
    (\<forall>n c' w'. closing_run api v c1 w1 n c' w' \<longrightarrow>
      (\<exists>r. TcpServer_sent api len (c', w') = Some r) \<and> (\<exists>r. TcpServer_poll api (c', w') = Some r) \<and>
      (length ps < n \<longrightarrow> conn_state c' = Closed \<and> writeBuffer c' = 0 \<and>
        queued v w' (controlBlock c) = queued v w (controlBlock c) @ chain_bytes api v w ps))"
proof -
  let ?bs = "queued v w (controlBlock c) @ chain_bytes api v w ps"
  obtain c1 w1 qs where 1: "TcpServer_recv api cb 0 err (c, w) = Some (ERR_OK, c1, w1)" "controlBlock c1 = controlBlock c"
    "closing_ok api v (controlBlock c1) ?bs (length ps) 0 c1 w1 qs"
    using hang_up_closes [OF assms] by metis
  have "(\<exists>r. TcpServer_sent api len (c', w') = Some r) \<and> (\<exists>r. TcpServer_poll api (c', w') = Some r) \<and>
      (length ps < n \<longrightarrow> conn_state c' = Closed \<and> writeBuffer c' = 0 \<and> queued v w' (controlBlock c) = ?bs)"
    if run: "closing_run api v c1 w1 n c' w'" for n c' w'
  proof -
    from closing_run_ok [OF run assms(1,2) 1(3)]
    obtain rs where ok: "closing_ok api v (controlBlock c1) ?bs (length ps) n c' w' rs" by blast
    from poll_when_closing [OF assms(1,2) ok] have "\<exists>r. TcpServer_poll api (c', w') = Some r" by blast
    then show ?thesis
      using ok 1(2) by (auto simp: sent_is_poll closing_ok_def holding_def chain_bytes_def)
  qed
  with 1(1) show ?thesis by blast
qed

text \<open>Two buffers wait when the remote host ends its data; three polls, all of which find lwIP ready.\<close>

theorem closing_completes_witness:
  "\<exists>c1 w1 c w. TcpServer_recv (mini_api 0xFFFF ERR_OK) None 0 ERR_OK (open_connection\<lparr>writeBuffer := 0x10\<rparr>, mini_start) =
      Some (ERR_OK, c1, w1) \<and> closing_run (mini_api 0xFFFF ERR_OK) mini_view c1 w1 3 c w \<and>
    conn_state c = Closed \<and> mini_out w 0x300 = [0x10, 0x11, 0x20, 0x21]"
proof -
  let ?api = "mini_api 0xFFFF ERR_OK"
  have bytes: "mini_out mini_start 0x300 @ chain_bytes ?api mini_view mini_start [0x10, 0x20] = [0x10, 0x11, 0x20, 0x21]"
    by (simp add: chain_bytes_def mini_start_bytes) (simp add: mini_start_def)
  obtain c1 w1 where r: "TcpServer_recv ?api None 0 ERR_OK (open_connection\<lparr>writeBuffer := 0x10\<rparr>, mini_start) =
      Some (ERR_OK, c1, w1)"
    and T: "closing_run ?api mini_view c1 w1 n c' w' \<Longrightarrow> (\<exists>r. TcpServer_poll ?api (c', w') = Some r) \<and>
      (2 < n \<longrightarrow> conn_state c' = Closed \<and> mini_out w' 0x300 = [0x10, 0x11, 0x20, 0x21])" for n c' w'
    using closing_completes [OF mini_laws mini_end open_holds_packet, of "0xFFFF" ERR_OK None ERR_OK 0]
    by (fastforce simp: bytes simp del: split_paired_Ex)
  have "takes ?api pcb w q" for pcb w q
    using mini_never_refuses [of ERR_OK pcb] by (simp add: never_refuses_def takes_def)
  then have "lwip_ready ?api c w" for c w by (simp add: lwip_ready_def)
  then have next_poll: "\<exists>c' w'. closing_run ?api mini_view c1 w1 (Suc n) c' w'"
    if run: "closing_run ?api mini_view c1 w1 n c w" for n c w
  proof -
    obtain e c' w' where "TcpServer_poll ?api (c, w) = Some (e, c', w')" using T [OF run] by (metis prod_cases3)
    from closing_run.polled [OF run this] show ?thesis using \<open>\<And>c w. lwip_ready ?api c w\<close> by auto
  qed
  have "\<exists>c w. closing_run ?api mini_view c1 w1 n c w" for n
  proof (induction n)
    case 0
    show ?case by (intro exI) (rule closing_run.begins)
  next
    case (Suc n)
    then show ?case using next_poll by blast
  qed
  from this [of 3] T show ?thesis using r by (metis less_add_one numeral_plus_one semiring_norm(5))
qed

end
