(* ===== verification/Tcp_Sessions.thy ===== *)
theory Tcp_Sessions
  imports Tcp_Session
begin

text \<open>
  The echo server with all its connections at once: the functions that \<open>TcpServer\<close> registers with lwIP, called for any
  connection in any order, and the proof that every connection runs a session of its own. The connections share the
  heap of packet buffers and lwIP may use the control block of a connection that has ended for a new one.
\<close>

section \<open>What lwIP and the rest of the machine do\<close>

text \<open>
  A control block is prepared for a new connection without a change to the packet buffers and the queued data.
\<close>

definition accept_law :: "'w lwip \<Rightarrow> 'w lwip_view \<Rightarrow> bool" where
  "accept_law api v \<longleftrightarrow> (\<forall>w pcb arg cb n. quiet api v w (tcp_setprio_min api pcb w) \<and>
     quiet api v w (tcp_arg api pcb arg w) \<and> quiet api v w (tcp_recv api pcb cb w) \<and>
     quiet api v w (tcp_err api pcb cb w) \<and> quiet api v w (tcp_poll api pcb cb n w) \<and>
     quiet api v w (tcp_sent api pcb cb w))"

definition open_pcbs :: "'w tcp_server \<Rightarrow> ptr set" where
  "open_pcbs s = controlBlock ` {c \<in> set (mConnections s). conn_state c \<noteq> Closed}"

text \<open>
  The rest of the machine runs: the server's references to buffers, and the buffers it refers to, stay as they are, and
  so does the data queued on its control blocks.
\<close>

definition leaves_server :: "'w lwip \<Rightarrow> 'w lwip_view \<Rightarrow> 'w tcp_server \<Rightarrow> 'w \<Rightarrow> 'w \<Rightarrow> bool" where
  "leaves_server api v s w w' \<longleftrightarrow> spares api v (open_pcbs s) {} w w' \<and> refs v w' = refs v w"

text \<open>lwIP has a new chain of buffers for the server and hands over its references.\<close>

definition arrives ::
  "'w lwip \<Rightarrow> 'w lwip_view \<Rightarrow> 'w tcp_server \<Rightarrow> 'w \<Rightarrow> ptr \<Rightarrow> ptr list \<Rightarrow> 'w \<Rightarrow> bool" where
  "arrives api v s w p ps w1 \<longleftrightarrow> spares api v (open_pcbs s) {} w w1 \<and> is_chain (pbuf_mem api w1) p ps \<and>
     ps \<noteq> [] \<and> set ps \<inter> live v w = {} \<and> refs v w1 = (\<lambda>q. if q \<in> set ps then 1 else refs v w q)"

text \<open>
  What lwIP reports for connection \<open>i\<close> through the functions that are registered with it, with the control block that
  the connection has: data and its end while the connection is established, everything else at any time.
\<close>

inductive reported ::
  "'w lwip \<Rightarrow> 'w lwip_view \<Rightarrow> nat \<Rightarrow> session_event \<Rightarrow> 'w tcp_server \<Rightarrow> 'w \<Rightarrow> 'w tcp_server \<Rightarrow> 'w \<Rightarrow> bool"
  for api v i where
  packet: "arrives api v s w p ps w1 \<Longrightarrow> conn_state (mConnections s ! i) = Established \<Longrightarrow>
    p_tot_len (pbuf_mem api w1 p) \<noteq> 0 \<Longrightarrow>
    static_recv api (Some (Accepted_conn i)) (controlBlock (mConnections s ! i)) p ERR_OK (s, w1) = Some (e, s', w') \<Longrightarrow>
    reported api v i (Got (chain_bytes api v w1 ps)) s w s' w'"
| damaged: "arrives api v s w p ps w1 \<Longrightarrow> err \<noteq> ERR_OK \<Longrightarrow>
    static_recv api (Some (Accepted_conn i)) (controlBlock (mConnections s ! i)) p err (s, w1) = Some (e, s', w') \<Longrightarrow>
    reported api v i Damaged s w s' w'"
| acknowledged: "
    static_sent api (Some (Accepted_conn i)) (controlBlock (mConnections s ! i)) len (s, w) = Some (e, s', w') \<Longrightarrow>
    reported api v i Went_on s w s' w'"
| polled: "static_poll api (Some (Accepted_conn i)) (controlBlock (mConnections s ! i)) (s, w) = Some (e, s', w') \<Longrightarrow>
    reported api v i Went_on s w s' w'"
| hung_up: "conn_state (mConnections s ! i) = Established \<Longrightarrow>
    static_recv api (Some (Accepted_conn i)) (controlBlock (mConnections s ! i)) 0 err (s, w) = Some (e, s', w') \<Longrightarrow>
    reported api v i Hung_up s w s' w'"
| failed: "static_error api (Some (Accepted_conn i)) err (s, w) = Some (s', w') \<Longrightarrow>
    reported api v i Failed s w s' w'"

text \<open>
  The history of a connection: its control block and what had been queued on it when the connection was accepted, and
  what lwIP has reported since.
\<close>

record history =
  h_pcb :: ptr
  h_queued :: "u8 list"
  h_events :: "session_event list"

text \<open>
  A server at work. The rest of the machine, lwIP included, runs between the events; lwIP asks for a connection on a
  control block that no open connection has, and reports events of accepted connections.
\<close>

inductive serving ::
  "'w lwip \<Rightarrow> 'w lwip_view \<Rightarrow> 'w tcp_server \<Rightarrow> 'w \<Rightarrow> history list \<Rightarrow> 'w tcp_server \<Rightarrow> 'w \<Rightarrow> bool"
  for api v s0 w0 where
  begins: "serving api v s0 w0 [] s0 w0"
| elsewhere: "serving api v s0 w0 hs s w \<Longrightarrow> leaves_server api v s w w' \<Longrightarrow> serving api v s0 w0 hs s w'"
| accepted: "serving api v s0 w0 hs s w \<Longrightarrow> pcb \<notin> open_pcbs s \<Longrightarrow>
    static_accept api (Some Listening_conn) pcb err (s, w) = Some (ERR_OK, s', w') \<Longrightarrow>
    serving api v s0 w0 (hs @ [\<lparr>h_pcb = pcb, h_queued = queued v w pcb, h_events = []\<rparr>]) s' w'"
| refused: "serving api v s0 w0 hs s w \<Longrightarrow>
    static_accept api (Some Listening_conn) pcb err (s, w) = Some (e, s', w') \<Longrightarrow> e \<noteq> ERR_OK \<Longrightarrow>
    serving api v s0 w0 hs s' w'"
| reported: "serving api v s0 w0 hs s w \<Longrightarrow> i < length (mConnections s) \<Longrightarrow> reported api v i ev s w s' w' \<Longrightarrow>
    serving api v s0 w0 (hs[i := (hs ! i)\<lparr>h_events := h_events (hs ! i) @ [ev]\<rparr>]) s' w'"

section \<open>One connection among the others\<close>

text \<open>
  A connection that is not closed shows its session; of one that is closed, the buffers are free and what its session
  has sent is the first thing queued on its control block since it was accepted.
\<close>

definition conn_shows ::
  "'w lwip \<Rightarrow> 'w lwip_view \<Rightarrow> history \<Rightarrow> tcp_connection \<Rightarrow> 'w \<Rightarrow> ptr list \<Rightarrow> session \<Rightarrow> bool" where
  "conn_shows api v h c w ps t \<longleftrightarrow>
     (if conn_state c = Closed
      then writeBuffer c = 0 \<and> readBuffer c = 0 \<and> ps = [] \<and> s_phase t = Ended \<and> s_waiting t = [] \<and>
        prefix (h_queued h @ s_sent t) (queued v w (h_pcb h))
      else shows_session api v (h_pcb h) (h_queued h) c w ps t)"

lemma shows_conn: "shows_session api v (h_pcb h) (h_queued h) c w ps t \<Longrightarrow> conn_shows api v h c w ps t"
  by (auto simp: conn_shows_def shows_session_def holding_def chain_bytes_def)

lemma conn_shows_holding: "conn_shows api v h c w ps t \<Longrightarrow> holding api v c w ps"
  by (auto simp: conn_shows_def shows_session_def holding_def split: if_splits)

lemma conn_shows_spared:
  assumes "conn_shows api v h c w ps t" and "spares api v X S w w'" and "set ps \<inter> S = {}"
    and "conn_state c \<noteq> Closed \<longrightarrow> h_pcb h \<in> X"
  shows "conn_shows api v h c w' ps t"
proof (cases "conn_state c = Closed")
  case True
  then have "prefix (h_queued h @ s_sent t) (queued v w (h_pcb h))" using assms(1) by (simp add: conn_shows_def)
  then have "prefix (h_queued h @ s_sent t) (queued v w' (h_pcb h))"
    by (rule prefix_order.trans) (use assms(2) in \<open>simp add: spares_def\<close>)
  then show ?thesis using assms(1) True by (simp add: conn_shows_def)
next
  case False
  then show ?thesis using assms shows_spared [of api v "h_pcb h" _ c w ps t X S w'] by (simp add: conn_shows_def)
qed

lemma conn_shows_more [simp]:
  "conn_shows api v (h\<lparr>h_events := es\<rparr>) c w ps t = conn_shows api v h c w ps t"
  by (simp add: conn_shows_def)

lemma open_pcb: "i < length (mConnections s) \<Longrightarrow> conn_state (mConnections s ! i) \<noteq> Closed \<Longrightarrow>
    controlBlock (mConnections s ! i) \<in> open_pcbs s"
  by (auto simp: open_pcbs_def)

lemma spares_alone: "spares api v X {} w w' \<Longrightarrow> pcb \<in> X \<Longrightarrow> leaves_alone api v pcb w w'"
  by (simp add: spares_def leaves_alone_def)

text \<open>The check of the static functions passes, and the member function works on the connection.\<close>

lemma checked_callD:
  assumes "checked_call api (Some (Accepted_conn i)) (controlBlock (mConnections s ! i)) member (s, w) = Some (e, s', w')"
    and "i < length (mConnections s)"
  obtains c' where "member (mConnections s ! i, w) = Some (e, c', w')" and "s' = set_connection (Accepted_conn i) c' s"
  using assms by (auto simp: checked_call_def split: if_splits)

lemma static_errorD:
  assumes "static_error api (Some (Accepted_conn i)) err (s, w) = Some (s', w')" and "i < length (mConnections s)"
  obtains c' where "TcpServer_error api (mConnections s ! i, w) = (c', w')" and "s' = set_connection (Accepted_conn i) c' s"
  using assms by (auto simp: static_error_def split: if_splits prod.splits)

text \<open>
  What an event of connection \<open>i\<close> comes to: its session takes a step, and the buffers of the others and the data queued
  on the control blocks \<open>X\<close> are spared.
\<close>

definition advances ::
  "'w lwip \<Rightarrow> 'w lwip_view \<Rightarrow> nat \<Rightarrow> history \<Rightarrow> session_event \<Rightarrow> ptr set \<Rightarrow> ptr list \<Rightarrow> session \<Rightarrow>
    'w tcp_server \<Rightarrow> 'w \<Rightarrow> 'w tcp_server \<Rightarrow> 'w \<Rightarrow> bool" where
  "advances api v i h ev X ps t s w s' w' \<longleftrightarrow> (\<exists>c' ps' t'. s' = set_connection (Accepted_conn i) c' s \<and>
     session_step t ev t' \<and> conn_shows api v h c' w' ps' t' \<and> set ps' \<inter> live v w \<subseteq> set ps \<and>
     accounts v ps ps' w w' \<and> spares api v X (set ps) w w' \<and>
     (conn_state c' \<noteq> Closed \<longrightarrow> conn_state (mConnections s ! i) \<noteq> Closed))"

lemma advancesI:
  "s' = set_connection (Accepted_conn i) c' s \<Longrightarrow> session_step t ev t' \<Longrightarrow> conn_shows api v h c' w' ps' t' \<Longrightarrow>
    set ps' \<inter> live v w \<subseteq> set ps \<Longrightarrow> accounts v ps ps' w w' \<Longrightarrow> spares api v X (set ps) w w' \<Longrightarrow>
    (conn_state c' \<noteq> Closed \<Longrightarrow> conn_state (mConnections s ! i) \<noteq> Closed) \<Longrightarrow>
    advances api v i h ev X ps t s w s' w'"
  by (auto simp: advances_def)

lemma arrives_spares:
  assumes "arrives api v s w p qs w1" and "spares api v X (S \<union> set qs) w1 w'" and "X \<subseteq> open_pcbs s"
  shows "spares api v X S w w'"
proof -
  have "spares api v X S w w1"
    by (rule spares_mono [of _ _ "open_pcbs s" "{}"]) (use assms in \<open>simp_all add: arrives_def\<close>)
  from this assms(2) show ?thesis
    by (rule spares_trans) (use assms(1) in \<open>auto simp: arrives_def\<close>)
qed

lemma arrivesD:
  assumes "arrives api v s w p qs w1"
  shows "is_chain (pbuf_mem api w1) p qs" "qs \<noteq> []" "set qs \<inter> live v w = {}" "\<forall>q\<in>set qs. refs v w1 q = 1"
  using assms by (simp_all add: arrives_def)

lemma arrives_accounts:
  assumes "arrives api v s w p qs w1" and "accounts v (ps @ qs) ps' w1 w'"
  shows "accounts v ps ps' w w'"
  using assms by (auto simp: arrives_def accounts_def fun_eq_iff)

lemma accounts_kept:
  "accounts v qs [] w w' \<Longrightarrow> \<forall>q\<in>set ps. refs v w q = 1 \<Longrightarrow> set ps \<inter> set qs = {} \<Longrightarrow> accounts v (ps @ qs) ps w w'"
  by (auto simp: accounts_def fun_eq_iff)

lemma closed_advances:
  assumes laws: "lwip_laws api v" "free_null_quiet api v" and i: "i < length (mConnections s)"
    and rep: "reported api v i ev s w s' w'" and closed: "conn_state (mConnections s ! i) = Closed"
    and sh: "conn_shows api v h (mConnections s ! i) w ps t" and X: "X \<subseteq> open_pcbs s"
  shows "advances api v i h ev X ps t s w s' w'"
proof -
  let ?c = "mConnections s ! i"
  have ps: "ps = []" "s_phase t = Ended" "s_waiting t = []" "writeBuffer ?c = 0"
    using sh closed by (simp_all add: conn_shows_def)
  have adv: "advances api v i h ev X ps t s w s' w'"
    if "s' = set_connection (Accepted_conn i) c' s" "session_step t ev t" "spares api v X {} w w'"
      "accounts v [] [] w w'" "conn_state c' = Closed" "writeBuffer c' = 0" "readBuffer c' = 0" for c'
  proof (rule advancesI [OF that(1,2), where ps' = "[]"])
    have "conn_shows api v h c' w ps t" using sh closed that(5-7) by (simp add: conn_shows_def)
    from conn_shows_spared [OF this that(3)] that(5) show "conn_shows api v h c' w' [] t" by (simp add: ps(1))
  qed (use that(3-5) ps(1) in simp_all)
  have rb: "readBuffer ?c = 0" using sh closed by (simp add: conn_shows_def)
  have same: "advances api v i h ev X ps t s w s' w'"
    if "s' = set_connection (Accepted_conn i) ?c s" "session_step t ev t" "spares api v X {} w w'" "accounts v [] [] w w'"
    by (rule adv [OF that closed ps(4) rb])
  have none: "accounts v [] [] w w" by (simp add: accounts_def)
  have idle: "session_step t Went_on t" using session_step.went_on [of t 0] ps(3) by simp
  have poll: "c' = ?c \<and> w' = w" if "TcpServer_poll api (?c, w) = Some (e, c', w')" for e c'
    using that closed ps(4) by (simp add: TcpServer_poll_def)
  from rep show ?thesis
  proof cases
    case (damaged p qs w1 err e)
    obtain c' where c': "TcpServer_recv api (mRecvCallback s) p err (?c, w1) = Some (e, c', w')"
        "s' = set_connection (Accepted_conn i) c' s"
      using checked_callD [OF _ i] damaged(4) by (metis static_recv_def fst_conv)
    have f: "c' = ?c \<and> accounts v qs [] w1 w' \<and> spares api v X (set qs) w1 w'"
      by (rule damaged_freed [OF laws(1) _ _ _ damaged(3) c'(1)]) (use damaged(2) in \<open>auto simp: arrives_def\<close>)
    have "spares api v X {} w w'" by (rule arrives_spares [OF damaged(2) _ X]) (use f in simp)
    moreover have "accounts v [] [] w w'" by (rule arrives_accounts [OF damaged(2)]) (use f in simp)
    ultimately show ?thesis using same c'(2) f session_step.damaged damaged(1) by simp
  next
    case (acknowledged len e)
    obtain c' where "TcpServer_sent api len (?c, w) = Some (e, c', w')" "s' = set_connection (Accepted_conn i) c' s"
      using checked_callD [OF _ i] acknowledged(2) by (metis static_sent_def)
    then show ?thesis using same poll idle none acknowledged(1) by (simp add: sent_is_poll)
  next
    case (polled e)
    obtain c' where "TcpServer_poll api (?c, w) = Some (e, c', w')" "s' = set_connection (Accepted_conn i) c' s"
      using checked_callD [OF _ i] polled(2) by (metis static_poll_def)
    then show ?thesis using same poll idle none polled(1) by simp
  next
    case (failed err)
    obtain c' where c': "TcpServer_error api (?c, w) = (c', w')" "s' = set_connection (Accepted_conn i) c' s"
      using static_errorD [OF failed(2) i] by blast
    have "holding api v ?c w []" using ps(4) rb by (simp add: holding_def)
    from error_frees [OF laws this] c'(1)
    have "c' = ?c\<lparr>conn_state := Closed, controlBlock := 0, readBuffer := 0, writeBuffer := 0\<rparr>"
      and f: "refs v w' = (\<lambda>q. if q \<in> set [] then 0 else refs v w q)" "queued v w' = queued v w"
        "untouched api v (live v w') w w'" by auto
    moreover have "t\<lparr>s_phase := Ended, s_waiting := []\<rparr> = t" using ps(2,3) by simp
    then have "session_step t Failed t" using session_step.failed [of t] by metis
    ultimately show ?thesis using adv [OF c'(2)] freed_spares [OF f, of X] freed_accounts [OF f(1)] failed(1) by simp
  qed (simp_all add: closed)
qed

lemma open_advances:
  assumes laws: "lwip_laws api v" "end_law api v" "free_null_quiet api v" and i: "i < length (mConnections s)"
    and cb: "mRecvCallback s = Some (echo_recv api)" and rep: "reported api v i ev s w s' w'"
    and opened: "conn_state (mConnections s ! i) \<noteq> Closed"
    and sh: "conn_shows api v h (mConnections s ! i) w ps t" and X: "X \<subseteq> open_pcbs s" "h_pcb h \<notin> X"
  shows "advances api v i h ev X ps t s w s' w'"
proof -
  let ?c = "mConnections s ! i"
  have shs: "shows_session api v (h_pcb h) (h_queued h) ?c w ps t" using sh opened by (simp add: conn_shows_def)
  then have pcb: "controlBlock ?c = h_pcb h" using opened by (simp add: shows_session_def)
  have X': "X \<subseteq> - {h_pcb h}" using X(2) by blast
  have adv: "advances api v i h ev X ps t s w s' w'"
    if "s' = set_connection (Accepted_conn i) c' s"
      and "session_step t ev t' \<and> shows_session api v (h_pcb h) (h_queued h) c' w' ps' t' \<and>
        set ps' \<inter> live v w \<subseteq> set ps \<and> accounts v ps ps' w w' \<and> spares api v (- {h_pcb h}) (set ps) w w'" for c' ps' t'
    by (rule advancesI [OF that(1) _ shows_conn]) (use that(2) spares_mono [OF _ X', of api v "set ps" w w' "set ps"] opened in auto)
  have alone: "leaves_alone api v (h_pcb h) w w1" if "arrives api v s w p qs w1" for p qs w1
    by (rule spares_alone [of _ _ "open_pcbs s"])
      (use that open_pcb [OF i opened] pcb in \<open>simp_all add: arrives_def\<close>)
  from rep show ?thesis
  proof cases
    case (packet p qs w1 e)
    obtain c' where c': "TcpServer_recv api (Some (echo_recv api)) p ERR_OK (?c, w1) = Some (e, c', w')"
        "s' = set_connection (Accepted_conn i) c' s"
      using checked_callD [OF _ i] packet(5) cb by (metis static_recv_def fst_conv)
    note a = arrivesD [OF packet(2)]
    obtain ps' t' where P: "session_step t ev t'" "shows_session api v (h_pcb h) (h_queued h) c' w' ps' t'"
        "set ps' \<subseteq> set ps \<union> set qs" "spares api v (- {h_pcb h}) (set ps \<union> set qs) w1 w'"
        "accounts v (ps @ qs) ps' w1 w'"
      using packet_refines [OF laws(1) shs packet(3) alone [OF packet(2)] a(1) packet(4) a(2-4) c'(1)] packet(1) by blast
    have "spares api v X (set ps) w w'"
      by (rule arrives_spares [OF packet(2) spares_mono [OF P(4) X'] X(1)]) simp
    moreover have "set ps' \<inter> live v w \<subseteq> set ps" using P(3) a(3) by blast
    ultimately show ?thesis
      using advancesI [OF c'(2) P(1) shows_conn [OF P(2)]] arrives_accounts [OF packet(2) P(5)] opened by blast
  next
    case (damaged p qs w1 err e)
    obtain c' where c': "TcpServer_recv api (mRecvCallback s) p err (?c, w1) = Some (e, c', w')"
        "s' = set_connection (Accepted_conn i) c' s"
      using checked_callD [OF _ i] damaged(4) by (metis static_recv_def fst_conv)
    note a = arrivesD [OF damaged(2)]
    have f: "spares api v X (set ps \<union> set qs) w1 w'"
      using spares_mono [of api v X "set qs" w1 w' X "set ps \<union> set qs"]
        damaged_freed [OF laws(1) a(1,2,4) damaged(3) c'(1), of X] by blast
    have sh1: "shows_session api v (h_pcb h) (h_queued h) ?c w1 ps t" by (rule shows_alone [OF shs alone [OF damaged(2)]])
    have d: "set ps \<inter> set qs = {}" using shs a(3) by (auto simp: shows_session_def dest: holding_live)
    have ones: "\<forall>q\<in>set ps. refs v w1 q = 1" using sh1 by (simp add: shows_session_def holding_def)
    have "accounts v qs [] w1 w'" using damaged_freed [OF laws(1) a(1,2,4) damaged(3) c'(1)] by blast
    note acc = arrives_accounts [OF damaged(2) accounts_kept [OF this ones d]]
    show ?thesis
      using acc damaged_refines [OF laws(1) shs alone [OF damaged(2)] a damaged(3) c'(1)]
        arrives_spares [OF damaged(2) f X(1)] session_step.damaged damaged(1) opened
      by (intro advancesI [OF c'(2) _ shows_conn]) auto
  next
    case (acknowledged len e)
    obtain c' where c': "TcpServer_sent api len (?c, w) = Some (e, c', w')" "s' = set_connection (Accepted_conn i) c' s"
      using checked_callD [OF _ i] acknowledged(2) by (metis static_sent_def)
    show ?thesis
      using poll_refines [OF laws(1,2) shs c'(1) [unfolded sent_is_poll]] adv [OF c'(2)] acknowledged(1) by blast
  next
    case (polled e)
    obtain c' where c': "TcpServer_poll api (?c, w) = Some (e, c', w')" "s' = set_connection (Accepted_conn i) c' s"
      using checked_callD [OF _ i] polled(2) by (metis static_poll_def)
    show ?thesis using poll_refines [OF laws(1,2) shs c'(1)] adv [OF c'(2)] polled(1) by blast
  next
    case (hung_up err e)
    obtain c' where c': "TcpServer_recv api (mRecvCallback s) 0 err (?c, w) = Some (e, c', w')"
        "s' = set_connection (Accepted_conn i) c' s"
      using checked_callD [OF _ i] hung_up(3) by (metis static_recv_def fst_conv)
    show ?thesis using hung_up_refines [OF laws(1,2) shs hung_up(2) c'(1)] adv [OF c'(2)] hung_up(1) by blast
  next
    case (failed err)
    obtain c' where c': "TcpServer_error api (?c, w) = (c', w')" "s' = set_connection (Accepted_conn i) c' s"
      using static_errorD [OF failed(2) i] by blast
    show ?thesis
      using failed_refines [OF laws(1,3) shs c'(1)] adv [OF c'(2)] session_step.failed [of t] failed(1) by fastforce
  qed
qed

lemma reported_advances:
  assumes "lwip_laws api v" "end_law api v" "free_null_quiet api v" and "i < length (mConnections s)"
    and "mRecvCallback s = Some (echo_recv api)" and "reported api v i ev s w s' w'"
    and "conn_shows api v h (mConnections s ! i) w ps t" and "X \<subseteq> open_pcbs s"
    and "conn_state (mConnections s ! i) \<noteq> Closed \<longrightarrow> h_pcb h \<notin> X"
  shows "advances api v i h ev X ps t s w s' w'"
  using open_advances [OF assms(1-6) _ assms(7,8)] closed_advances [OF assms(1,3,4,6) _ assms(7,8)] assms(9) by blast

section \<open>All connections\<close>

text \<open>
  The first \<open>n\<close> connections hold disjoint sets of buffers, one reference to each of these; the other references are
  those that the server had at first, in \<open>w0\<close>.
\<close>

definition refs_accounted :: "'w lwip_view \<Rightarrow> nat \<Rightarrow> 'w \<Rightarrow> 'w \<Rightarrow> (nat \<Rightarrow> ptr list) \<Rightarrow> bool" where
  "refs_accounted v n w0 w P \<longleftrightarrow> refs v w = (\<lambda>q. if \<exists>i<n. q \<in> set (P i) then 1 else refs v w0 q) \<and>
     (\<forall>i<n. set (P i) \<inter> live v w0 = {}) \<and> (\<forall>i<n. \<forall>j<n. i \<noteq> j \<longrightarrow> set (P i) \<inter> set (P j) = {})"

lemma refs_accounted_new:
  assumes "refs_accounted v n w0 w P"
  shows "refs_accounted v (Suc n) w0 w (P(n := []))"
proof -
  have "(\<exists>i<Suc n. q \<in> set ((P(n := [])) i)) \<longleftrightarrow> (\<exists>i<n. q \<in> set (P i))" for q
    by (simp add: Ex_less_Suc cong: conj_cong)
  then show ?thesis using assms by (simp add: refs_accounted_def less_Suc_eq del: fun_upd_apply) auto
qed

lemma refs_accounted_step:
  assumes acc: "refs_accounted v n w0 w P" and i: "i < n" and step: "accounts v (P i) ps' w w'"
    and new: "set ps' \<inter> live v w \<subseteq> set (P i)"
  shows "refs_accounted v n w0 w' (P(i := ps'))"
proof -
  have r: "refs v w = (\<lambda>q. if \<exists>j<n. q \<in> set (P j) then 1 else refs v w0 q)"
    and disj: "\<And>j k. j < n \<Longrightarrow> k < n \<Longrightarrow> j \<noteq> k \<Longrightarrow> set (P j) \<inter> set (P k) = {}"
    and fresh: "\<And>j. j < n \<Longrightarrow> set (P j) \<inter> live v w0 = {}"
    using acc by (simp_all add: refs_accounted_def)
  have l: "live v w = live v w0 \<union> (\<Union>j<n. set (P j))" unfolding live_def r by (auto split: if_splits)
  have fresh': "set ps' \<inter> live v w0 = {}" using new fresh [OF i] by (auto simp: l)
  have disj': "set ps' \<inter> set (P j) = {}" if "j < n" "j \<noteq> i" for j
    using new disj [OF that(1) i that(2)] that(1) by (auto simp: l)
  have refs: "refs v w' q = (if \<exists>j<n. q \<in> set ((P(i := ps')) j) then 1 else refs v w0 q)" for q
  proof -
    have e: "(\<exists>j<n. q \<in> set ((P(i := ps')) j)) \<longleftrightarrow> q \<in> set ps' \<or> (\<exists>j<n. j \<noteq> i \<and> q \<in> set (P j))" using i by auto
    consider "q \<in> set ps'" | "q \<notin> set ps'" "q \<in> set (P i)" | "q \<notin> set ps'" "q \<notin> set (P i)" by blast
    then show ?thesis
    proof cases
      case 1
      then show ?thesis using step unfolding e by (simp add: accounts_def)
    next
      case 2
      then have "\<not> (\<exists>j<n. j \<noteq> i \<and> q \<in> set (P j))" "refs v w0 q = 0" using disj [OF _ i] fresh [OF i] by auto
      with 2 step show ?thesis unfolding e by (simp add: accounts_def)
    next
      case 3
      then have "(\<exists>j<n. j \<noteq> i \<and> q \<in> set (P j)) \<longleftrightarrow> (\<exists>j<n. q \<in> set (P j))" by auto
      moreover have "refs v w' q = refs v w q" using 3 step by (simp add: accounts_def)
      ultimately show ?thesis using 3(1) fun_cong [OF r, of q] unfolding e by simp
    qed
  qed
  have "set ((P(i := ps')) j) \<inter> set ((P(i := ps')) k) = {}" if "j < n" "k < n" "j \<noteq> k" for j k
    using that disj disj' [of j] disj' [of k] by auto
  moreover have "set ((P(i := ps')) j) \<inter> live v w0 = {}" if "j < n" for j
    using that fresh fresh' by simp
  moreover have "refs v w' = (\<lambda>q. if \<exists>j<n. q \<in> set ((P(i := ps')) j) then 1 else refs v w0 q)"
    by (rule ext) (rule refs)
  ultimately show ?thesis unfolding refs_accounted_def by blast
qed

text \<open>
  Every connection has a history and a session that can be reached with its events; the buffers are accounted for, and
  connections that are open have different control blocks.
\<close>

definition sessions_shown ::
  "'w lwip \<Rightarrow> 'w lwip_view \<Rightarrow> 'w \<Rightarrow> history list \<Rightarrow> 'w tcp_server \<Rightarrow> 'w \<Rightarrow>
    (nat \<Rightarrow> ptr list) \<Rightarrow> (nat \<Rightarrow> session) \<Rightarrow> bool" where
  "sessions_shown api v w0 hs s w P S \<longleftrightarrow> length hs = length (mConnections s) \<and>
     refs_accounted v (length hs) w0 w P \<and>
     (\<forall>i<length hs. session_run (h_events (hs ! i)) (S i) \<and>
        conn_shows api v (hs ! i) (mConnections s ! i) w (P i) (S i)) \<and>
     (\<forall>i<length hs. \<forall>j<length hs. i \<noteq> j \<longrightarrow>
        conn_state (mConnections s ! i) \<noteq> Closed \<longrightarrow> conn_state (mConnections s ! j) \<noteq> Closed \<longrightarrow>
        h_pcb (hs ! i) \<noteq> h_pcb (hs ! j))"

definition other_pcbs :: "history list \<Rightarrow> 'w tcp_server \<Rightarrow> nat \<Rightarrow> ptr set" where
  "other_pcbs hs s i = (\<lambda>j. h_pcb (hs ! j)) ` {j. j < length hs \<and> j \<noteq> i \<and> conn_state (mConnections s ! j) \<noteq> Closed}"

lemma shown_pcb:
  assumes "sessions_shown api v w0 hs s w P S" and "i < length hs" and "conn_state (mConnections s ! i) \<noteq> Closed"
  shows "h_pcb (hs ! i) \<in> open_pcbs s"
proof -
  have "conn_shows api v (hs ! i) (mConnections s ! i) w (P i) (S i)" and "i < length (mConnections s)"
    using assms(1,2) by (simp_all add: sessions_shown_def)
  then show ?thesis using open_pcb [OF _ assms(3)] assms(3) by (simp add: conn_shows_def shows_session_def)
qed

lemma shown_spared:
  assumes "sessions_shown api v w0 hs s w P S" and "leaves_server api v s w w'"
  shows "sessions_shown api v w0 hs s w' P S"
proof -
  have "spares api v (open_pcbs s) {} w w'" "refs v w' = refs v w" using assms(2) by (simp_all add: leaves_server_def)
  then show ?thesis
    using assms conn_shows_spared [of api v _ _ w _ _ "open_pcbs s" "{}" w'] shown_pcb [OF assms(1)]
    by (simp add: sessions_shown_def refs_accounted_def)
qed

lemma quiet_leaves: "quiet api v w w' \<Longrightarrow> leaves_server api v s w w'"
  by (simp add: leaves_server_def quiet_spares) (simp add: quiet_def)

lemma accept_quiet:
  assumes "accept_law api v" and "static_accept api (Some Listening_conn) pcb err (s, w) = Some (ERR_OK, s', w')"
  shows "s' = s\<lparr>mConnections := mConnections s @ [TcpConnection_new\<lparr>controlBlock := pcb,
      server := Some This_server, conn_state := Established\<rparr>]\<rparr> \<and> quiet api v w w'"
proof -
  let ?r = "Accepted_conn (length (mConnections s))"
  have "quiet api v w (tcp_sent api pcb Sent_cb (tcp_poll api pcb Poll_cb sPollInterval (tcp_err api pcb Error_cb
      (tcp_recv api pcb Recv_cb (tcp_arg api pcb ?r (tcp_setprio_min api pcb w))))))"
    using assms(1) unfolding accept_law_def by (meson quiet_trans)
  then show ?thesis
    using assms(2) by (auto simp: static_accept_def TcpServer_accept_def Let_def split: if_splits prod.splits)
qed

lemma refuse_quiet:
  assumes "end_law api v" and "static_accept api (Some Listening_conn) pcb err (s, w) = Some (e, s', w')"
    and "e \<noteq> ERR_OK"
  shows "s' = s \<and> quiet api v w w'"
proof -
  have c: "quiet api v w (snd (tcp_close api pcb w))"
    and a: "quiet api v x (tcp_abort api pcb x)" for x using assms(1) by (simp_all add: end_law_def)
  show ?thesis
    using assms(2,3) c quiet_trans [OF c a]
    by (auto simp: static_accept_def TcpServer_accept_def Let_def split: if_splits prod.splits)
qed

lemma shown_accepted:
  assumes sh: "sessions_shown api v w0 hs s w P S" and "pcb \<notin> open_pcbs s" and "quiet api v w w'"
    and s': "s' = s\<lparr>mConnections := mConnections s @ [TcpConnection_new\<lparr>controlBlock := pcb,
      server := Some This_server, conn_state := Established\<rparr>]\<rparr>"
  shows "sessions_shown api v w0 (hs @ [\<lparr>h_pcb = pcb, h_queued = queued v w pcb, h_events = []\<rparr>]) s' w'
    (P(length hs := [])) (S(length hs := session_start))"
proof -
  let ?n = "length hs"
  have sh': "sessions_shown api v w0 hs s w' P S" by (rule shown_spared [OF sh quiet_leaves [OF assms(3)]])
  then have len: "length (mConnections s) = ?n" by (simp add: sessions_shown_def)
  have "queued v w' pcb = queued v w pcb" using assms(3) by (simp add: quiet_def)
  then have new: "conn_shows api v \<lparr>h_pcb = pcb, h_queued = queued v w pcb, h_events = []\<rparr>
      (TcpConnection_new\<lparr>controlBlock := pcb, server := Some This_server, conn_state := Established\<rparr>) w' [] session_start"
    by (simp add: conn_shows_def shows_session_def holding_def TcpConnection_new_def session_start_def chain_bytes_def)
  have "h_pcb (hs ! j) \<noteq> pcb" if "j < ?n" "conn_state (mConnections s ! j) \<noteq> Closed" for j
    using shown_pcb [OF sh that] assms(2) by blast
  then show ?thesis
    using sh' new session_run.none refs_accounted_new [of v ?n w0 w' P]
    by (auto simp: sessions_shown_def s' len nth_append less_Suc_eq)
qed

lemma shown_reported:
  assumes laws: "lwip_laws api v" "end_law api v" "free_null_quiet api v"
    and sh: "sessions_shown api v w0 hs s w P S" and cb: "mRecvCallback s = Some (echo_recv api)"
    and i: "i < length hs" and rep: "reported api v i ev s w s' w'"
  shows "\<exists>P S. sessions_shown api v w0 (hs[i := (hs ! i)\<lparr>h_events := h_events (hs ! i) @ [ev]\<rparr>]) s' w' P S"
proof -
  let ?cs = "mConnections s" and ?X = "other_pcbs hs s i"
  have len: "length ?cs = length hs" and run: "session_run (h_events (hs ! i)) (S i)"
    and ci: "conn_shows api v (hs ! i) (?cs ! i) w (P i) (S i)"
    using sh i by (simp_all add: sessions_shown_def)
  have "?X \<subseteq> open_pcbs s" using shown_pcb [OF sh] by (auto simp: other_pcbs_def)
  moreover have "conn_state (?cs ! i) \<noteq> Closed \<longrightarrow> h_pcb (hs ! i) \<notin> ?X"
    using sh i by (auto simp: sessions_shown_def other_pcbs_def)
  ultimately have "advances api v i (hs ! i) ev ?X (P i) (S i) s w s' w'"
    using reported_advances [OF laws _ cb rep ci] i len by simp
  then obtain c' ps' t' where A: "s' = set_connection (Accepted_conn i) c' s" "session_step (S i) ev t'"
    "conn_shows api v (hs ! i) c' w' ps' t'" "set ps' \<inter> live v w \<subseteq> set (P i)" "spares api v ?X (set (P i)) w w'"
    "conn_state c' \<noteq> Closed \<longrightarrow> conn_state (?cs ! i) \<noteq> Closed" "accounts v (P i) ps' w w'"
    unfolding advances_def by blast
  have others: "conn_shows api v (hs ! j) (?cs ! j) w' (P j) (S j)" if j: "j < length hs" "j \<noteq> i" for j
  proof -
    have cj: "conn_shows api v (hs ! j) (?cs ! j) w (P j) (S j)" and d: "set (P j) \<inter> set (P i) = {}"
      using sh i j by (simp_all add: sessions_shown_def refs_accounted_def)
    have "conn_state (?cs ! j) \<noteq> Closed \<longrightarrow> h_pcb (hs ! j) \<in> ?X" using j by (auto simp: other_pcbs_def)
    from conn_shows_spared [OF cj A(5) d this] show ?thesis .
  qed
  have acc: "refs_accounted v (length hs) w0 w P" using sh by (metis sessions_shown_def)
  have "sessions_shown api v w0 (hs[i := (hs ! i)\<lparr>h_events := h_events (hs ! i) @ [ev]\<rparr>]) s' w'
      (P(i := ps')) (S(i := t'))"
    unfolding sessions_shown_def
  proof (intro conjI allI impI)
    show "length (hs[i := (hs ! i)\<lparr>h_events := h_events (hs ! i) @ [ev]\<rparr>]) = length (mConnections s')"
      using len by (simp add: A(1))
  next
    show "refs_accounted v (length (hs[i := (hs ! i)\<lparr>h_events := h_events (hs ! i) @ [ev]\<rparr>])) w0 w' (P(i := ps'))"
      using refs_accounted_step [OF acc i A(7,4)] by simp
  next
    fix j assume "j < length (hs[i := (hs ! i)\<lparr>h_events := h_events (hs ! i) @ [ev]\<rparr>])"
    then show "session_run (h_events (hs[i := (hs ! i)\<lparr>h_events := h_events (hs ! i) @ [ev]\<rparr>] ! j)) ((S(i := t')) j)"
      and "conn_shows api v (hs[i := (hs ! i)\<lparr>h_events := h_events (hs ! i) @ [ev]\<rparr>] ! j) (mConnections s' ! j) w'
        ((P(i := ps')) j) ((S(i := t')) j)"
      using A(3) session_run.more [OF run A(2)] others sh len by (cases "j = i"; simp add: A(1) sessions_shown_def)+
  next
    fix j k assume "j < length (hs[i := (hs ! i)\<lparr>h_events := h_events (hs ! i) @ [ev]\<rparr>])"
      and "k < length (hs[i := (hs ! i)\<lparr>h_events := h_events (hs ! i) @ [ev]\<rparr>])" and "j \<noteq> k"
    then have b: "j < length hs" "k < length hs" "j \<noteq> k" by simp_all
    assume "conn_state (mConnections s' ! j) \<noteq> Closed" and "conn_state (mConnections s' ! k) \<noteq> Closed"
    then have "conn_state (?cs ! j) \<noteq> Closed" "conn_state (?cs ! k) \<noteq> Closed"
      using b A(6) len by (cases "j = i"; cases "k = i"; simp add: A(1))+
    then have "h_pcb (hs ! j) \<noteq> h_pcb (hs ! k)" using sh b by (simp add: sessions_shown_def)
    then show "h_pcb (hs[i := (hs ! i)\<lparr>h_events := h_events (hs ! i) @ [ev]\<rparr>] ! j) \<noteq>
        h_pcb (hs[i := (hs ! i)\<lparr>h_events := h_events (hs ! i) @ [ev]\<rparr>] ! k)"
      using b by (cases "j = i"; cases "k = i"; simp)
  qed
  then show ?thesis by blast
qed

lemma serving_shown:
  assumes laws: "lwip_laws api v" "end_law api v" "free_null_quiet api v" "accept_law api v"
    and start: "mRecvCallback s0 = Some (echo_recv api)" "mConnections s0 = []"
    and "serving api v s0 w0 hs s w"
  shows "mRecvCallback s = Some (echo_recv api) \<and> (\<exists>P S. sessions_shown api v w0 hs s w P S)"
  using assms(7)
proof (induction rule: serving.induct)
  case begins
  then show ?case using start by (simp add: sessions_shown_def refs_accounted_def)
next
  case (elsewhere hs s w w')
  then obtain P S where "sessions_shown api v w0 hs s w P S" by blast
  from shown_spared [OF this elsewhere.hyps(2)] elsewhere.IH show ?case by blast
next
  case (accepted hs s w pcb err s' w')
  note A = accept_quiet [OF laws(4) accepted.hyps(3)]
  obtain P S where "sessions_shown api v w0 hs s w P S" using accepted.IH by blast
  from shown_accepted [OF this accepted.hyps(2)] A accepted.IH show ?case by auto
next
  case (refused hs s w pcb err e s' w')
  from refuse_quiet [OF laws(2) refused.hyps(2,3)] have "s' = s" "quiet api v w w'" by auto
  moreover obtain P S where "sessions_shown api v w0 hs s w P S" using refused.IH by blast
  note shown_spared [OF this quiet_leaves]
  ultimately show ?case using refused.IH by blast
next
  case (reported hs s w i ev s' w')
  then obtain P S where sh: "sessions_shown api v w0 hs s w P S" and cb: "mRecvCallback s = Some (echo_recv api)" by blast
  have i: "i < length hs" using sh reported.hyps(2) by (simp add: sessions_shown_def)
  have "mRecvCallback s' = mRecvCallback s"
    using reported.hyps(3) by cases (auto simp: static_recv_def static_sent_def static_poll_def checked_call_def
        static_error_def split: if_splits option.splits prod.splits)
  then show ?case using shown_reported [OF laws(1-3) sh cb i reported.hyps(3)] cb by simp
qed

section \<open>An example\<close>

lemma mini_accept_law: "accept_law (mini_api r e) mini_view"
  by (simp add: accept_law_def) (simp add: mini_api_def)

lemma mini_echo_init: "TcpEchoServer_init (mini_api r e) 0 (TcpServer_new, w) =
    (registerRecvCallback (echo_recv (mini_api r e)) listening_server, w)"
  by (simp add: TcpEchoServer_init_def TcpServer_init_def registerRecvCallback_def listening_server_def TcpServer_new_def
      TcpConnection_new_def) (simp add: mini_api_def)

lemma mini_accept:
  assumes "length cs < 10"
  shows "static_accept (mini_api r e) (Some Listening_conn) pcb ERR_OK
      (registerRecvCallback f listening_server\<lparr>mConnections := cs\<rparr>, w) =
    Some (ERR_OK, registerRecvCallback f listening_server\<lparr>mConnections := cs @ [open_connection\<lparr>controlBlock := pcb\<rparr>]\<rparr>, w)"
  using assms
  by (simp add: static_accept_def TcpServer_accept_def registerRecvCallback_def example_defs sMaxConnections_def Let_def)
    (simp add: mini_api_def)

text \<open>Two connections are accepted, and the packet arrives on the first one.\<close>

lemma sample_serving:
  obtains s w where "serving (mini_api 1 ERR_OK) mini_view (fst (TcpEchoServer_init (mini_api 1 ERR_OK) 0
        (TcpServer_new, mini_start\<lparr>mini_refs := \<lambda>q. 0\<rparr>))) (mini_start\<lparr>mini_refs := \<lambda>q. 0\<rparr>)
      [\<lparr>h_pcb = 0x300, h_queued = [], h_events = [Got [0x10, 0x11, 0x20, 0x21]]\<rparr>,
       \<lparr>h_pcb = 0x400, h_queued = [], h_events = []\<rparr>] s w"
    and "map conn_state (mConnections s) = [Established, Established]"
proof -
  let ?api = "mini_api 1 ERR_OK" and ?w0 = "mini_start\<lparr>mini_refs := \<lambda>q. 0\<rparr>"
  let ?s = "\<lambda>cs. registerRecvCallback (echo_recv ?api) listening_server\<lparr>mConnections := cs\<rparr>"
  let ?d = "open_connection\<lparr>controlBlock := 0x400\<rparr>" and ?bs = "[0x10, 0x11, 0x20, 0x21] :: u8 list"
  have s0: "fst (TcpEchoServer_init ?api 0 (TcpServer_new, ?w0)) = ?s []"
    unfolding mini_echo_init fst_conv by (simp add: registerRecvCallback_def listening_server_def TcpServer_new_def)
  have "open_connection\<lparr>controlBlock := 0x300\<rparr> = open_connection" by (simp add: open_connection_def)
  then have a: "static_accept ?api (Some Listening_conn) 0x300 ERR_OK (?s [], ?w0) = Some (ERR_OK, ?s [open_connection], ?w0)"
    "static_accept ?api (Some Listening_conn) 0x400 ERR_OK (?s [open_connection], ?w0) =
      Some (ERR_OK, ?s [open_connection, ?d], ?w0)"
    using mini_accept [of "[]" 1 ERR_OK "0x300"] mini_accept [of "[open_connection]" 1 ERR_OK "0x400"] by simp_all
  have "serving ?api mini_view (?s []) ?w0 [\<lparr>h_pcb = 0x300, h_queued = [], h_events = []\<rparr>] (?s [open_connection]) ?w0"
    using serving.accepted [OF serving.begins _ a(1), of mini_view] by (simp add: open_pcbs_def mini_start_def)
  moreover have "0x400 \<notin> open_pcbs (?s [open_connection])" by (auto simp: open_pcbs_def)
  moreover have "queued mini_view ?w0 0x400 = []" by (simp add: mini_start_def)
  ultimately
  have two: "serving ?api mini_view (?s []) ?w0 [\<lparr>h_pcb = 0x300, h_queued = [], h_events = []\<rparr>,
      \<lparr>h_pcb = 0x400, h_queued = [], h_events = []\<rparr>] (?s [open_connection, ?d]) ?w0"
    using serving.accepted [OF _ _ a(2), of mini_view] by fastforce
  obtain b w where R: "TcpServer_recv ?api (Some (echo_recv ?api)) 0x10 ERR_OK (open_connection, mini_start) =
      Some (ERR_OK, open_connection\<lparr>writeBuffer := b\<rparr>, w)"
    using recv_echoes [where api = ?api and p = "0x10" and ps = "[0x10, 0x20]",
        OF mini_laws _ open_holds_nothing] mini_start_packet by auto
  let ?c = "open_connection\<lparr>writeBuffer := b\<rparr>"
  have st: "static_recv ?api (Some (Accepted_conn 0)) 0x300 0x10 ERR_OK (?s [open_connection, ?d], mini_start) =
      Some (ERR_OK, ?s [?c, ?d], w)"
    using R by (simp add: static_recv_def checked_call_def registerRecvCallback_def)
      (simp add: open_connection_def)
  have arr: "arrives ?api mini_view (?s [open_connection, ?d]) ?w0 0x10 [0x10, 0x20] mini_start"
    using mini_start_packet by (simp add: arrives_def spares_def untouched_def live_def) (auto simp: mini_start_def)
  have bs: "chain_bytes ?api mini_view mini_start [0x10, 0x20] = ?bs"
    by (simp add: chain_bytes_def mini_start_bytes)
  have "reported ?api mini_view 0 (Got ?bs) (?s [open_connection, ?d]) ?w0 (?s [?c, ?d]) w"
    using reported.packet [OF arr, of 0 ERR_OK] st mini_start_packet by (simp add: bs)
  from serving.reported [OF two _ this] have "serving ?api mini_view (?s []) ?w0 [\<lparr>h_pcb = 0x300, h_queued = [], h_events = [Got ?bs]\<rparr>,
      \<lparr>h_pcb = 0x400, h_queued = [], h_events = []\<rparr>] (?s [?c, ?d]) w" by simp
  then show thesis by (rule that [unfolded s0]) simp
qed

section \<open>Properties\<close>

text \<open>
  C1. The server runs a session of its own for every connection, all of them at once: whatever lwIP reports for
  whichever connection, in any order, each connection is in a state that the abstract session reaches with the events
  of that connection alone, what is queued on its control block and the buffers it holds are what its session has sent
  and what waits, and no two connections hold the same buffer. A connection that has ended has had its data queued on
  its control block first, whoever has the control block now.
\<close>

theorem server_sessions:
  assumes "lwip_laws api v" and "end_law api v" and "free_null_quiet api v" and "accept_law api v"
    and "TcpEchoServer_init api ip (TcpServer_new, w) = (s0, w0)" and "serving api v s0 w0 hs s w'"
  shows "\<exists>P S. length hs = length (mConnections s) \<and>
    (\<forall>i<length hs. session_run (h_events (hs ! i)) (S i) \<and> session_ok (h_events (hs ! i)) (S i) \<and>
      conn_shows api v (hs ! i) (mConnections s ! i) w' (P i) (S i)) \<and>
    (\<forall>i<length hs. \<forall>j<length hs. i \<noteq> j \<longrightarrow> set (P i) \<inter> set (P j) = {})"
proof -
  have "mRecvCallback s0 = Some (echo_recv api)" "mConnections s0 = []" using init_handler [OF assms(5)] by simp_all
  from serving_shown [OF assms(1-4) this assms(6)] obtain P S where "sessions_shown api v w0 hs s w' P S" by blast
  then show ?thesis
    using session_run_ok unfolding sessions_shown_def refs_accounted_def by (intro exI [of _ P] exI [of _ S]) blast
qed

theorem server_sessions_witness:
  "\<exists>w c ps (t :: session). mini_out w 0x300 = s_sent t \<and> holding (mini_api 1 ERR_OK) mini_view c w ps \<and>
    s_sent t @ chain_bytes (mini_api 1 ERR_OK) mini_view w ps = [0x10, 0x11, 0x20, 0x21] \<and> mini_out w 0x400 = []"
proof -
  let ?api = "mini_api 1 ERR_OK" and ?w0 = "mini_start\<lparr>mini_refs := \<lambda>q. 0\<rparr>"
  let ?hs = "[\<lparr>h_pcb = 0x300, h_queued = [], h_events = [Got [0x10, 0x11, 0x20, 0x21]]\<rparr>,
    \<lparr>h_pcb = 0x400, h_queued = [], h_events = []\<rparr>]"
  obtain s w where run: "serving ?api mini_view (fst (TcpEchoServer_init ?api 0 (TcpServer_new, ?w0))) ?w0 ?hs s w"
    and st: "map conn_state (mConnections s) = [Established, Established]"
    by (rule sample_serving)
  have init: "TcpEchoServer_init ?api 0 (TcpServer_new, ?w0) = (fst (TcpEchoServer_init ?api 0 (TcpServer_new, ?w0)), ?w0)"
    by (simp add: mini_echo_init)
  obtain P S where "\<forall>i<length ?hs. session_run (h_events (?hs ! i)) (S i) \<and>
      session_ok (h_events (?hs ! i)) (S i) \<and> conn_shows ?api mini_view (?hs ! i) (mConnections s ! i) w (P i) (S i)"
    using server_sessions [OF mini_laws mini_end mini_free_null mini_accept_law init run] by blast
  from this [rule_format, of 0] this [rule_format, of 1]
  have ok: "session_ok [Got [0x10, 0x11, 0x20, 0x21]] (S 0)" "session_ok [] (S 1)"
    and sh: "conn_shows ?api mini_view (?hs ! 0) (mConnections s ! 0) w (P 0) (S 0)"
      "conn_shows ?api mini_view (?hs ! 1) (mConnections s ! 1) w (P 1) (S 1)" by simp_all
  have "conn_state (mConnections s ! 0) = Established" "conn_state (mConnections s ! 1) = Established"
    using st by (auto simp: map_eq_Cons_conv)
  with ok sh show ?thesis
    by (intro exI [of _ w] exI [of _ "mConnections s ! 0"] exI [of _ "P 0"] exI [of _ "S 0"])
      (auto simp: conn_shows_def shows_session_def session_ok_def received_bytes_def)
qed

text \<open>
  C2. No packet buffer leaks and none is freed twice: whatever lwIP reports for whichever connection, the server holds
  one reference to each buffer in the chains of its connections, which have no buffer in common, and besides those only
  the references it had when it was started. When nothing waits on any connection, it holds nothing else.
\<close>

theorem server_buffers_accounted:
  assumes "lwip_laws api v" and "end_law api v" and "free_null_quiet api v" and "accept_law api v"
    and "TcpEchoServer_init api ip (TcpServer_new, w) = (s0, w0)" and "serving api v s0 w0 hs s w'"
  shows "\<exists>P. (\<forall>i<length (mConnections s). holding api v (mConnections s ! i) w' (P i)) \<and>
    (\<forall>i<length (mConnections s). \<forall>j<length (mConnections s). i \<noteq> j \<longrightarrow> set (P i) \<inter> set (P j) = {}) \<and>
    refs v w' = (\<lambda>q. if \<exists>i<length (mConnections s). q \<in> set (P i) then 1 else refs v w0 q) \<and>
    ((\<forall>c\<in>set (mConnections s). writeBuffer c = 0) \<longrightarrow> refs v w' = refs v w0)"
proof -
  have "mRecvCallback s0 = Some (echo_recv api)" "mConnections s0 = []" using init_handler [OF assms(5)] by simp_all
  from serving_shown [OF assms(1-4) this assms(6)] obtain P S where sh: "sessions_shown api v w0 hs s w' P S" by blast
  then have acc: "refs_accounted v (length (mConnections s)) w0 w' P" by (metis sessions_shown_def)
  have h: "holding api v (mConnections s ! i) w' (P i)" if "i < length (mConnections s)" for i
    using sh that conn_shows_holding unfolding sessions_shown_def by metis
  then have "P i = []" if "\<forall>c\<in>set (mConnections s). writeBuffer c = 0" "i < length (mConnections s)" for i
    using holding_empty_iff [OF h] that by simp
  then have "refs v w' = refs v w0" if "\<forall>c\<in>set (mConnections s). writeBuffer c = 0"
    using acc that by (simp add: refs_accounted_def cong: conj_cong)
  then show ?thesis using acc h unfolding refs_accounted_def by (intro exI [of _ P]) blast
qed

theorem server_buffers_accounted_witness:
  "\<exists>w c d ps qs. mini_refs w = (\<lambda>q. if q \<in> set ps \<union> set qs then 1 else 0) \<and> set ps \<inter> set qs = {} \<and>
    holding (mini_api 1 ERR_OK) mini_view c w ps \<and> holding (mini_api 1 ERR_OK) mini_view d w qs"
proof -
  let ?api = "mini_api 1 ERR_OK" and ?w0 = "mini_start\<lparr>mini_refs := \<lambda>q. 0\<rparr>"
  obtain hs s w where run: "serving ?api mini_view (fst (TcpEchoServer_init ?api 0 (TcpServer_new, ?w0))) ?w0 hs s w"
    and st: "map conn_state (mConnections s) = [Established, Established]"
    by (rule sample_serving)
  have init: "TcpEchoServer_init ?api 0 (TcpServer_new, ?w0) = (fst (TcpEchoServer_init ?api 0 (TcpServer_new, ?w0)), ?w0)"
    by (simp add: mini_echo_init)
  obtain c d where cd: "mConnections s = [c, d]" using st by (auto simp: map_eq_Cons_conv)
  obtain P where P: "\<forall>i<length (mConnections s). holding ?api mini_view (mConnections s ! i) w (P i)"
    "\<forall>i<length (mConnections s). \<forall>j<length (mConnections s). i \<noteq> j \<longrightarrow> set (P i) \<inter> set (P j) = {}"
    "mini_refs w = (\<lambda>q. if \<exists>i<length (mConnections s). q \<in> set (P i) then 1 else mini_refs ?w0 q)"
    using server_buffers_accounted [OF mini_laws mini_end mini_free_null mini_accept_law init run]
    unfolding mini_simps by blast
  have len: "length (mConnections s) = 2" by (simp add: cd)
  have "(\<exists>i<2. q \<in> set (P i)) \<longleftrightarrow> q \<in> set (P 0) \<union> set (P 1)" for q by (auto simp: less_2_cases_iff)
  then have "mini_refs w = (\<lambda>q. if q \<in> set (P 0) \<union> set (P 1) then 1 else 0)"
    using P(3) by (simp add: len cong: if_cong)
  moreover have "holding ?api mini_view c w (P 0)" "holding ?api mini_view d w (P 1)" "set (P 0) \<inter> set (P 1) = {}"
    using P(1) [rule_format, of 0] P(1) [rule_format, of 1] P(2) [rule_format, of 0 1] by (simp_all add: cd)
  ultimately show ?thesis by blast
qed

end
