(* ===== verification/Dma_Tx_Buffer.thy ===== *)
theory Dma_Tx_Buffer
  imports Lwip_Prelude
begin

text \<open>
  The buffer for transmission by DMA, \<open>include/lwipserver/utils/DmaTxBuffer.h\<close>. The class declares \<open>copy\<close> and
  \<open>getSlice\<close> without defining them, so what can be modelled are its fields and the functions on its free space. What
  is shown is that these measure exactly the places without data.
\<close>

section \<open>Model\<close>

definition txBufferSize :: int where "txBufferSize = 1024"

record Slice =
  slice_data :: ptr
  slice_size :: int

record DmaTxBuffer =
  txb_buffer :: "u8 list"
  txb_head :: int
  txb_tail :: int
  txb_size :: int
  txb_lastSlice :: Slice

text \<open>The bytes of a new buffer are whatever its memory holds.\<close>

definition DmaTxBuffer_new :: "u8 list \<Rightarrow> DmaTxBuffer" where
  "DmaTxBuffer_new memory = \<lparr>txb_buffer = memory, txb_head = 0, txb_tail = 0, txb_size = 0,
     txb_lastSlice = \<lparr>slice_data = 0, slice_size = 0\<rparr>\<rparr>"

definition txb_empty :: "DmaTxBuffer \<Rightarrow> bool" where
  "txb_empty b \<longleftrightarrow> txb_size b = 0"

definition txb_available :: "DmaTxBuffer \<Rightarrow> int" where
  "txb_available b = txBufferSize - txb_size b"

definition txb_availableAtStart :: "DmaTxBuffer \<Rightarrow> int" where
  "txb_availableAtStart b =
     (if txb_head b \<le> txb_tail b \<and> txb_size b \<noteq> txBufferSize then txb_head b else 0)"

definition txb_availableAtEnd :: "DmaTxBuffer \<Rightarrow> int" where
  "txb_availableAtEnd b =
     (if txb_head b \<le> txb_tail b \<and> txb_size b \<noteq> txBufferSize then txBufferSize - txb_tail b
      else txb_head b - txb_tail b)"

section \<open>The places with data and those without\<close>

text \<open>A ring: the tail is as far behind the head as there are bytes, counted around the end.\<close>

definition txb_ok :: "DmaTxBuffer \<Rightarrow> bool" where
  "txb_ok b \<longleftrightarrow> 0 \<le> txb_head b \<and> txb_head b < txBufferSize \<and> 0 \<le> txb_size b \<and> txb_size b \<le> txBufferSize \<and>
     txb_tail b = (txb_head b + txb_size b) mod txBufferSize"

definition data_places :: "DmaTxBuffer \<Rightarrow> int set" where
  "data_places b = (\<lambda>k. (txb_head b + k) mod txBufferSize) ` {0..<txb_size b}"

text \<open>The places that a copy may fill: after the tail, then from the start.\<close>

definition free_places :: "DmaTxBuffer \<Rightarrow> int set" where
  "free_places b = {txb_tail b..<txb_tail b + txb_availableAtEnd b} \<union> {0..<txb_availableAtStart b}"

lemma mod_once: "0 \<le> x \<Longrightarrow> x < 2 * txBufferSize \<Longrightarrow> x mod txBufferSize = (if x < txBufferSize then x else x - txBufferSize)"
  using mod_pos_pos_trivial [of x txBufferSize] mod_pos_pos_trivial [of "x - txBufferSize" txBufferSize]
  by (simp add: txBufferSize_def)

lemma txb_tail_cases:
  assumes "txb_ok b"
  shows "txb_tail b = (if txb_head b + txb_size b < txBufferSize then txb_head b + txb_size b
    else txb_head b + txb_size b - txBufferSize)"
  using assms mod_once [of "txb_head b + txb_size b"] by (simp add: txb_ok_def)

lemma data_places_iff:
  assumes "txb_ok b"
  shows "i \<in> data_places b \<longleftrightarrow> 0 \<le> i \<and> i < txBufferSize \<and>
    (txb_head b \<le> i \<and> i < txb_head b + txb_size b \<or> i + txBufferSize < txb_head b + txb_size b)"
proof
  assume "i \<in> data_places b"
  then obtain k where "i = (txb_head b + k) mod txBufferSize" "0 \<le> k" "k < txb_size b" by (auto simp: data_places_def)
  then show "0 \<le> i \<and> i < txBufferSize \<and>
      (txb_head b \<le> i \<and> i < txb_head b + txb_size b \<or> i + txBufferSize < txb_head b + txb_size b)"
    using assms mod_once [of "txb_head b + k"] by (auto simp: txb_ok_def split: if_splits)
next
  assume i: "0 \<le> i \<and> i < txBufferSize \<and>
      (txb_head b \<le> i \<and> i < txb_head b + txb_size b \<or> i + txBufferSize < txb_head b + txb_size b)"
  let ?k = "if txb_head b \<le> i then i - txb_head b else i + txBufferSize - txb_head b"
  have "i = (txb_head b + ?k) mod txBufferSize" using i mod_once [of "txb_head b + ?k"] by simp
  moreover have "?k \<in> {0..<txb_size b}" using i assms by (auto simp: txb_ok_def)
  ultimately show "i \<in> data_places b" unfolding data_places_def by (rule image_eqI)
qed

text \<open>A new buffer is an empty ring.\<close>

lemma new_ok: "txb_ok (DmaTxBuffer_new memory)" and new_empty: "txb_empty (DmaTxBuffer_new memory)"
  by (simp_all add: txb_ok_def txb_empty_def DmaTxBuffer_new_def txBufferSize_def)

text \<open>
  The two parts of the free space add up to all of it, and together they are exactly the places that hold no data.
\<close>

lemma free_space_splits:
  assumes "txb_ok b"
  shows "txb_availableAtStart b + txb_availableAtEnd b = txb_available b \<and>
    free_places b = {0..<txBufferSize} - data_places b"
proof
  show "txb_availableAtStart b + txb_availableAtEnd b = txb_available b"
    using assms txb_tail_cases [OF assms]
    by (auto simp: txb_availableAtStart_def txb_availableAtEnd_def txb_available_def txb_ok_def split: if_splits)
  have "i \<in> free_places b \<longleftrightarrow> i \<in> {0..<txBufferSize} - data_places b" for i
    using assms txb_tail_cases [OF assms] data_places_iff [OF assms, of i]
    by (auto simp: free_places_def txb_availableAtStart_def txb_availableAtEnd_def txb_ok_def split: if_splits)
  then show "free_places b = {0..<txBufferSize} - data_places b" by blast
qed


end
