(* ===== verification/Os_Task.thy ===== *)
theory Os_Task
  imports Lwip_Prelude
begin

text \<open>
  The class for a task of FreeRTOS, \<open>include/lwipserver/freertos/OsTask.h\<close>. Its parameter is the size of the stack. The
  kernel is a record of functions; it is given the function to start the task with and the task itself. A task
  function that never returns is \<open>None\<close>.
\<close>

section \<open>Model\<close>

type_synonym 'w task_function = "'w \<Rightarrow> 'w option"

record 'w OsTask =
  mTaskHandle :: ptr
  mName :: string
  mTaskFunction :: "'w task_function option"

text \<open>
  \<open>xTaskCreateStatic\<close> gets the start function, applied to its argument, the name, the size of the stack and the
  priority. It may run the new task before it returns, when that has the higher priority.
\<close>

record 'w kernel =
  xTaskCreateStatic :: "'w task_function \<Rightarrow> string \<Rightarrow> nat \<Rightarrow> u32 \<Rightarrow> 'w \<Rightarrow> (ptr \<times> 'w) option"
  vTaskDelete_self :: "'w \<Rightarrow> 'w"

definition OsTask_new :: "string \<Rightarrow> 'w OsTask" where
  "OsTask_new name = \<lparr>mTaskHandle = 0, mName = name, mTaskFunction = None\<rparr>"

definition taskWrapper :: "'w kernel \<Rightarrow> 'w OsTask \<Rightarrow> 'w task_function" where
  "taskWrapper k task w = map_option (vTaskDelete_self k)
     (case mTaskFunction task of Some f \<Rightarrow> f w | None \<Rightarrow> Some w)"

definition OsTask_create ::
  "'w kernel \<Rightarrow> nat \<Rightarrow> 'w task_function option \<Rightarrow> u32 \<Rightarrow> 'w OsTask \<times> 'w \<Rightarrow> ('w OsTask \<times> 'w) option" where
  "OsTask_create k stackSize taskFunction priority = (\<lambda>(task, w).
     let task = task\<lparr>mTaskFunction := taskFunction\<rparr> in
     map_option (\<lambda>(h, w). (task\<lparr>mTaskHandle := h\<rparr>, w))
       (xTaskCreateStatic k (taskWrapper k task) (mName task) stackSize priority w))"

section \<open>The task runs its function once and deletes itself\<close>

text \<open>
  FreeRTOS starts the task with what \<open>create\<close> has given it, at once or later: in either case the function is the one
  passed to \<open>create\<close>, and the task deletes itself when it has returned.
\<close>

lemma task_runs_function:
  assumes "OsTask_create k stackSize (Some f) priority (task, w) = Some (task', w')"
  shows "\<exists>h. xTaskCreateStatic k (\<lambda>w. map_option (vTaskDelete_self k) (f w)) (mName task) stackSize priority w = Some (h, w') \<and>
    mTaskHandle task' = h \<and> mTaskFunction task' = Some f \<and>
    taskWrapper k task' = (\<lambda>w. map_option (vTaskDelete_self k) (f w))"
proof -
  have w: "taskWrapper k t = (\<lambda>w. map_option (vTaskDelete_self k) (f w))" if "mTaskFunction t = Some f" for t
    using that by (simp add: taskWrapper_def fun_eq_iff)
  show ?thesis using assms by (auto simp: OsTask_create_def w)
qed

text \<open>An empty function leaves a task that deletes itself at once.\<close>

lemma empty_task: "taskWrapper k (OsTask_new name) w = Some (vTaskDelete_self k w)"
  by (simp add: taskWrapper_def OsTask_new_def)

end
