(* ===== verification/Spec2Isabelle.thy ===== *)
theory Spec2Isabelle
  imports Loop_Timer Dma_Rx_Buffer Tx_Descriptor Eth_Tx Eth_Rx Lan_Phy Eth_Link Network_RTOS Lwip_Instance
    Tcp_Server Tcp_Transmit Tcp_Echo Mqtt_Client Debug_Uart Memory_Map Boot Vectors Main_RTOS Lan_Phy_Tests
    Options Network_Timing Rx_Cache Tcp_Session Tcp_Sessions Dma_Tx_Buffer
    Os_Task
begin

text \<open>
  A verification development of lwip-server, a TCP/IP server in C++ for an STM32H7 board: lwIP and FreeRTOS
  with an Ethernet driver, a TCP echo server, an MQTT client and a debug UART. Paths are relative to \<open>src/\<close>.

  \<^bold>\<open>The program.\<close> After reset \<open>Reset_Handler\<close> initialises memory and calls \<open>main\<close>, which sets up the
  memory protection unit, the clocks and the debug UART (\<open>Base::init\<close>), the network (\<open>Network::init\<close>) and the
  echo server, and starts the scheduler. The idle task then calls \<open>Base::service\<close>, which hands debug output to
  the DMA, and \<open>Network::lwipThread\<close>, which passes received frames to lwIP, runs lwIP's timeouts and polls
  two timers: one checks the link through the PHY, one drives DHCP. lwIP calls back into the TCP server,
  which keeps at most ten connections and hands received chains of packet buffers to the echo server, and
  lwIP calls \<open>lowLevelOutput\<close> to put a chain into the ring of transmit descriptors. The MQTT client reassembles
  messages from fragments. Interrupts are the tick, the DMA, the UART and its errors.

  \<^bold>\<open>Which theory models what.\<close> Definitions have the names of the sources; class members are functions on a
  record of the fields.
  \<^item> \<open>Lwip_Prelude\<close>, \<open>Ring\<close>, \<open>Pbuf\<close>, \<open>Hal_Types\<close>: machine types, the error codes of lwIP, arrays used as rings,
    chains of packet buffers in a heap, types of the HAL.
  \<^item> \<open>Loop_Timer\<close>: \<open>include/lwipserver/utils/LoopTimer.h\<close>.
  \<^item> \<open>Dma_Rx_Buffer\<close>: \<open>include/lwipserver/utils/DmaRxBuffer.h\<close>, \<open>src/utils/DmaRxBuffer.cpp\<close>.
    \<open>Dma_Tx_Buffer\<close>: what \<open>include/lwipserver/utils/DmaTxBuffer.h\<close> defines.
  \<^item> \<open>Tx_Descriptor\<close>, \<open>Eth_Tx\<close>: \<open>include/lwipserver/stm32h7/TxDescriptor.h\<close> and the transmit side of
    \<open>src/stm32h7/Ethernetif.cpp\<close>; the peripheral's DMA is the third rule of the relation \<open>tx_step\<close>.
  \<^item> \<open>Eth_Rx\<close>: the receive side of \<open>Ethernetif.cpp\<close>. \<open>Eth_Link\<close>: its initialisation and its check of the link.
    \<open>Rx_Cache\<close>: the receive buffers and the data cache.
  \<^item> \<open>Lan_Phy\<close>: \<open>include/lwipserver/drivers/Lan8742.h\<close>; \<open>Lan_Phy_Tests\<close>: the unit tests of \<open>tests/Lan8742Test.cpp\<close>
    as lemmas about the model.
  \<^item> \<open>Network_RTOS\<close>: \<open>include/lwipserver/network/NetworkRTOS.h\<close>, \<open>include/lwipserver/stm32h7/Ethernetif.h\<close>.
    \<open>Network_Timing\<close>: how long its loop takes to get an address.
  \<^item> \<open>Lwip_Api\<close>, \<open>Lwip_Instance\<close>: lwIP's functions as a record, the documented laws, and an implementation of
    these laws. \<open>Tcp_Server\<close>, \<open>Tcp_Transmit\<close>: \<open>include/lwipserver/network/TcpServer.h\<close>,
    \<open>src/network/TcpServer.cpp\<close>. \<open>Tcp_Echo\<close>: \<open>include/lwipserver/network/TcpEchoServer.h\<close>;
    \<open>Tcp_Session\<close>: an abstract session that a connection of the echo server refines; \<open>Tcp_Sessions\<close>: all connections
    of the server at once, each with a session of its own, over one heap of packet buffers.
  \<^item> \<open>Mqtt_Client\<close>: \<open>include/lwipserver/network/MqttClient.h\<close>, \<open>src/network/MqttClient.cpp\<close>.
  \<^item> \<open>Debug_Uart\<close>: \<open>src/stm32h7/DebugUart.cpp\<close>, \<open>Syscalls.cpp\<close>,
    \<open>include/lwipserver/freertos/StreamBuffer.h\<close>, \<open>Mutex.h\<close>.
  \<^item> \<open>Memory_Map\<close>, \<open>Boot\<close>, \<open>Vectors\<close>: \<open>src/stm32h7/Base.cpp\<close>, \<open>Startup.cpp\<close>, \<open>System.cpp\<close>, \<open>Timebase.cpp\<close>,
    \<open>Vectors.cpp\<close>, \<open>Interrupts.cpp\<close>.
  \<^item> \<open>Options\<close>: the sizes, priorities and checksum options of \<open>include/lwipopts.h\<close>, \<open>FreeRTOSConfig.h\<close> and
    \<open>stm32h7xx_hal_conf.h\<close> that the code depends on.
  \<^item> \<open>Main_RTOS\<close>: \<open>src/app-freertos/MainRTOS.cpp\<close>, \<open>include/lwipserver/stm32h7/Base.h\<close>: the composition.
    \<open>Os_Task\<close>: \<open>include/lwipserver/freertos/OsTask.h\<close>.

  \<^bold>\<open>External code.\<close> lwIP, the HAL, FreeRTOS, the PHY and the hardware are records of functions over a world
  of any type \<open>'w\<close>, arguments of the definitions that call them (\<open>lwip\<close>, \<open>rx_env\<close>, \<open>phy_env\<close>, \<open>eth_hal\<close>,
  \<open>net_env\<close>, \<open>uart_env\<close>, \<open>clock_env\<close>, \<open>system_env\<close>). Nothing is assumed of them but what a theorem names:
  \<open>lwip_laws\<close> (reference counts and chains of packet buffers, \<open>tcp_write\<close> queues what it accepts), \<open>end_law\<close>
  (closing leaves the application's buffers alone), \<open>accept_law\<close> (so does preparing a control block), \<open>stream_laws\<close> (a stream buffer is a queue), \<open>pool_laws\<close> (a memory pool
  counts), \<open>invalidate_law\<close> (a range of lines leaves the cache). Calls whose result the code does not use are recorded in
  order in the state. A callback that lwIP makes while the program calls it (the link callback) is run at
  that point; the error callback that \<open>tcp_abort\<close> makes is an event of its own that follows. A packet that \<open>recv\<close> frees although it
  returns an error (\<open>TcpServer.cpp\<close>, reported as a finding) counts as gone; lwIP would hand it over again.

  \<^bold>\<open>What is shown.\<close> Timer: it equals a timer on elapsed time while no addition wraps, and what it does where one
  wraps. Receive buffer: it refines a lossy queue of 128 bytes (locale \<open>lossy_queue\<close>), so that every byte
  is read once and in order while at most 128 are outstanding and fewer than 128 arrive between two updates. Transmit ring: reachable states keep the ring invariant,
  references to packets are balanced, the DMA sees the bytes of the chain in order, finished packets are
  freed. Receive path: a frame becomes one packet with the right lengths, each packet that the HAL returns is handed over once, reception
  stops only while the pool of buffers is empty, the CPU reads what the DMA has stored.
  PHY: the result is the data sheet's and just the needed registers are read, the search finds the first device, initialisation returns. Network: the
  DHCP state agrees with the link flag, DHCP is started within a period of the timer, and once lwIP has an answer or gives up
  the address from DHCP or the static one is the outcome within the next. TCP: connections are isolated, bounded,
  closed after their data as soon as lwIP has accepted it (\<open>closing_run\<close>), and each refines an abstract session (\<open>session_step\<close>), in which what has been sent and
  what waits is what was received; all connections of the server do so together, in every order of events
  (\<open>serving\<close>), and what one of them does leaves the buffers and the data of the others alone, so that every packet buffer is accounted for and none leaks. MQTT: the keys of the map are a linear order (an instance of \<open>linorder\<close>), the fragments refine an abstract
  reassembly, where a copy beyond the data or the buffer would be undefined and is ruled out, a message for a registered topic
  is delivered, a health check asks lwIP for just what is missing.
  UART: output is in order, the DMA reads what the cache has been made to
  write back, \<open>_read\<close> implements a fetch from the queue. Memory: what the DMA shares
  is not cached. Options: the sizes fit each other, each checksum is asked of lwIP or of the DMA. The system: startup completes, the loops of the idle hook end
  while the backlog of received packets is finite (\<open>finite_backlog\<close>), and the invariants of the components hold in
  every interleaving (\<open>system_run\<close>). Theorems about faults
  state what the code does where it departs from its intention.

  \<^bold>\<open>Loops and bounds.\<close> \<open>None\<close> of a \<open>partial_function\<close> is a loop that does not end (\<open>writeLoop\<close>, \<open>releaseTxBuffers\<close>,
  \<open>awaitReset\<close>, \<open>inputLoop\<close>, \<open>addLength\<close>, \<open>readLoop\<close>, \<open>await_vosrdy\<close>); theorems about results prove that they
  return. No fuel is used in the model of the program. \<open>etl\<close> containers of a fixed size are lists with that bound: the map of
  subscriptions (4), the connections (10), the span of buffers (4). The indices and sizes that the C++ code keeps in
  words are words here; \<open>int\<close> in \<open>DmaRxBuffer\<close> is unbounded, its values stay within -128 and 256.

  \<^bold>\<open>Not modelled.\<close> \<open>printf\<close> calls, so neither that they can wait for the debug UART, and \<open>ipAddrStr\<close>, which only serves them; \<open>Clock.h\<close>, which includes a header that does not exist
  and which nothing uses; \<open>copy\<close> and \<open>getSlice\<close> of \<open>DmaTxBuffer.h\<close>, which have no bodies; the bare-metal \<open>__Main.cpp\<close>, which is not built; interfaces and mocks without
  behaviour; the options of the libraries but for those in \<open>Options\<close> and those the code itself uses. Linker scripts and build
  files are taken into account only where a theorem names an address. Data races between interrupts and
  tasks are modelled at the points where the UART code can observe them, nowhere else.
\<close>

end
